(* ===== verification/Decnet_Prelude.thy ===== *)
theory Decnet_Prelude
  imports Main "HOL-Library.AList" "HOL-Library.List_Lexorder" "HOL-Library.Char_ord"
begin

text \<open>
  Shared vocabulary of the development.

  \<^item> \<open>exn\<close> is the sum of the exceptions the modelled Python code raises, \<open>'a result\<close> a
    computation that may raise, and \<open>('a, 's) op\<close> a computation that may raise \<^emph>\<open>and\<close> has
    already changed a state when it does (Python does not roll back).
  \<^item> Python's \<open>str\<close> is \<open>string\<close>; \<open>split_on\<close>, \<open>join\<close>, \<open>strip\<close>, \<open>rstrip_chars\<close>, \<open>nat_str\<close> and
    \<open>zfill\<close> model the string functions the sources call (\<open>str.split\<close>, \<open>str.join\<close>,
    \<open>str.strip\<close>, \<open>str.rstrip\<close>, \<open>str\<close> of an integer, the format \<open>:0wd\<close>).
  \<^item> A Python \<open>dict\<close> is an association list with distinct keys in insertion order, updated with
    \<open>AList.update\<close>, which overwrites in place and appends a new key at the end.

  The collection \<open>py_str\<close> holds the string lemmas; \<open>res_simps\<close> the rules that evaluate the
  error-passing combinators.
\<close>

named_theorems py_str \<open>lemmas on the Python string functions\<close>
named_theorems res_simps \<open>evaluation of the error-passing combinators\<close>

section \<open>Exceptions and results\<close>

datatype exn =
    ValueError | TypeError | KeyError | IndexError | RuntimeError
  | AllocatorExhausted
  | TopologyStatusError | TopologyNotEditable string | VersionConflict int int
  | IntegrityError
  | MutationError | DockerException | AttributeError
  | ProtocolError | UnicodeError | IncompleteReadError
  | StopIteration | StopAsyncIteration
  | CalledProcessError string | FileNotFoundError | OSError | HTTPStatusError
  | ValidationError | HashMismatch | AlreadyApplied

text \<open>The subclass test behind \<open>except ValueError\<close>: \<open>TopologyStatusError\<close> and the
  Unicode errors derive from \<open>ValueError\<close>.\<close>

definition is_ValueError :: "exn \<Rightarrow> bool" where
  "is_ValueError e \<longleftrightarrow> e \<in> {ValueError, TopologyStatusError, UnicodeError}"

type_synonym 'a result = "exn + 'a"
type_synonym ('a, 's) op = "'s \<Rightarrow> 'a result \<times> 's"

definition bindE :: "'e + 'a \<Rightarrow> ('a \<Rightarrow> 'e + 'b) \<Rightarrow> 'e + 'b" where
  "bindE m f = (case m of Inl e \<Rightarrow> Inl e | Inr x \<Rightarrow> f x)"

lemma bindE_simps [simp, res_simps]:
  "bindE (Inl e) f = Inl e"
  "bindE (Inr x) f = f x"
  by (simp_all add: bindE_def)

lemma bindE_eq_Inr [simp, res_simps]:
  "bindE m f = Inr y \<longleftrightarrow> (\<exists>x. m = Inr x \<and> f x = Inr y)"
  by (cases m) simp_all

lemma bindE_InrE:
  assumes "bindE m f = Inr y"
  obtains x where "m = Inr x" and "f x = Inr y"
  using assms by auto

lemma bindE_eq_Inl [res_simps]:
  "bindE m f = Inl e \<longleftrightarrow> m = Inl e \<or> (\<exists>x. m = Inr x \<and> f x = Inl e)"
  by (cases m) simp_all

text \<open>A \<open>for\<close> loop over a list whose body may raise: the state is threaded, the first
  exception stops the loop.\<close>

fun foldE :: "('a \<Rightarrow> 's \<Rightarrow> 'e + 's) \<Rightarrow> 'a list \<Rightarrow> 's \<Rightarrow> 'e + 's" where
  "foldE f [] s = Inr s"
| "foldE f (x # xs) s = bindE (f x s) (foldE f xs)"

lemma foldE_append:
  "foldE f (xs @ ys) s = bindE (foldE f xs s) (foldE f ys)"
proof (induction xs arbitrary: s)
  case (Cons x xs)
  then show ?case by (cases "f x s") simp_all
qed simp

text \<open>The loop rule: an invariant over the processed prefix.\<close>

lemma foldE_invariant:
  assumes "foldE f xs s = Inr s'"
    and "P [] s"
    and "\<And>ys x zs t t'. xs = ys @ x # zs \<Longrightarrow> P ys t \<Longrightarrow> f x t = Inr t' \<Longrightarrow> P (ys @ [x]) t'"
  shows "P xs s'"
proof -
  have "P xs s'" if "foldE f zs t = Inr s'" "xs = ys @ zs" "P ys t" for ys zs t
    using that
  proof (induction zs arbitrary: ys t)
    case Nil
    then show ?case by simp
  next
    case (Cons z zs)
    from Cons.prems(1) obtain t' where "f z t = Inr t'" and rest: "foldE f zs t' = Inr s'"
      by auto
    with Cons.prems have "P (ys @ [z]) t'" by (intro assms(3)) auto
    with Cons.IH [OF rest, of "ys @ [z]"] Cons.prems(2) show ?case by simp
  qed
  from this [of xs s "[]"] assms(1,2) show ?thesis by simp
qed

text \<open>A loop whose body never raises from a good state ends normally.\<close>

lemma foldE_total:
  assumes "P s"
    and "\<And>x t. x \<in> set xs \<Longrightarrow> P t \<Longrightarrow> \<exists>t'. f x t = Inr t' \<and> P t'"
  shows "\<exists>s'. foldE f xs s = Inr s' \<and> P s'"
  using assms
proof (induction xs arbitrary: s)
  case (Cons x xs)
  from Cons.prems obtain t' where "f x s = Inr t'" "P t'" by force
  with Cons.IH [of t'] Cons.prems show ?case by auto
qed simp

section \<open>Operations on a shared state\<close>

text \<open>\<open>session\<close> runs a body as one database transaction (\<open>async with self._session()\<close> ...
  \<open>session.commit()\<close>): an exception leaves the state as it was.  \<open>bindS\<close> sequences
  operations that commit separately: what the first one wrote stays when the second one raises.\<close>

definition session :: "('s \<Rightarrow> ('a \<times> 's) result) \<Rightarrow> ('a, 's) op" where
  "session body s = (case body s of Inl e \<Rightarrow> (Inl e, s) | Inr (x, s') \<Rightarrow> (Inr x, s'))"

definition returnS :: "'a \<Rightarrow> ('a, 's) op" where
  "returnS x s = (Inr x, s)"

definition raiseS :: "exn \<Rightarrow> ('a, 's) op" where
  "raiseS e s = (Inl e, s)"

definition liftE :: "'a result \<Rightarrow> ('a, 's) op" where
  "liftE m s = (m, s)"

definition bindS :: "('a, 's) op \<Rightarrow> ('a \<Rightarrow> ('b, 's) op) \<Rightarrow> ('b, 's) op" where
  "bindS m f s = (case m s of (Inl e, s') \<Rightarrow> (Inl e, s') | (Inr x, s') \<Rightarrow> f x s')"

definition guardS :: "bool \<Rightarrow> exn \<Rightarrow> (unit, 's) op" where
  "guardS b e = (if b then returnS () else raiseS e)"

fun forS :: "('a \<Rightarrow> (unit, 's) op) \<Rightarrow> 'a list \<Rightarrow> (unit, 's) op" where
  "forS f [] = returnS ()"
| "forS f (x # xs) = bindS (f x) (\<lambda>_. forS f xs)"

fun foldS :: "('a \<Rightarrow> 'b \<Rightarrow> ('b, 's) op) \<Rightarrow> 'a list \<Rightarrow> 'b \<Rightarrow> ('b, 's) op" where
  "foldS f [] b = returnS b"
| "foldS f (x # xs) b = bindS (f x b) (foldS f xs)"

lemma session_Inr [simp, res_simps]:
  "session body s = (Inr x, s') \<longleftrightarrow> body s = Inr (x, s')"
  by (auto simp: session_def split: sum.splits)

lemma session_Inl [simp, res_simps]:
  "session body s = (Inl e, s') \<longleftrightarrow> body s = Inl e \<and> s' = s"
  by (auto simp: session_def split: sum.splits)

lemma returnS_simps [simp, res_simps]:
  "returnS x s = (Inr x, s)" "raiseS e s = (Inl e, s)" "liftE m s = (m, s)"
  by (simp_all add: returnS_def raiseS_def liftE_def)

lemma bindS_Inr [simp, res_simps]:
  "bindS m f s = (Inr y, s'') \<longleftrightarrow> (\<exists>x s'. m s = (Inr x, s') \<and> f x s' = (Inr y, s''))"
  by (auto simp: bindS_def split: prod.splits sum.splits)

lemma bindS_Inl [res_simps]:
  "bindS m f s = (Inl e, s'') \<longleftrightarrow>
     m s = (Inl e, s'') \<or> (\<exists>x s'. m s = (Inr x, s') \<and> f x s' = (Inl e, s''))"
  by (auto simp: bindS_def split: prod.splits sum.splits)

lemma bindS_step [res_simps]:
  "m s = (Inr x, s') \<Longrightarrow> bindS m f s = f x s'"
  "m s = (Inl e, s') \<Longrightarrow> bindS m f s = (Inl e, s')"
  by (simp_all add: bindS_def)

lemma guardS_simps [simp, res_simps]:
  "guardS True e s = (Inr (), s)" "guardS False e s = (Inl e, s)"
  by (simp_all add: guardS_def)

text \<open>A property of the state that a step keeps, whatever its outcome, is kept by the
  composition.\<close>

lemma bindS_snd_invariant:
  assumes "P s" and "\<And>s. P s \<Longrightarrow> P (snd (m s))" and "\<And>x s. P s \<Longrightarrow> P (snd (f x s))"
  shows "P (snd (bindS m f s))"
proof -
  obtain r s' where ms: "m s = (r, s')" by fastforce
  from assms(2) [OF assms(1)] ms have s': "P s'" by simp
  show ?thesis by (cases r) (simp_all add: bindS_def ms s' assms(3))
qed

lemma forS_snd_invariant:
  assumes "P s" and "\<And>x s. x \<in> set xs \<Longrightarrow> P s \<Longrightarrow> P (snd (f x s))"
  shows "P (snd (forS f xs s))"
  using assms
proof (induction xs arbitrary: s)
  case (Cons x xs)
  show ?case unfolding forS.simps
    by (rule bindS_snd_invariant [where P = P]) (use Cons in auto)
qed simp

section \<open>Strings\<close>

fun split_on :: "char \<Rightarrow> string \<Rightarrow> string list" where
  "split_on c [] = [[]]"
| "split_on c (x # xs) =
     (if x = c then [] # split_on c xs
      else (case split_on c xs of [] \<Rightarrow> [[x]] | w # ws \<Rightarrow> (x # w) # ws))"

fun join :: "string \<Rightarrow> string list \<Rightarrow> string" where
  "join sep [] = []"
| "join sep [w] = w"
| "join sep (w # v # ws) = w @ sep @ join sep (v # ws)"

lemma split_on_ne [simp]: "split_on c s \<noteq> []"
  by (cases s) (auto split: list.splits)

lemma split_on_no [py_str]: "c \<notin> set w \<Longrightarrow> split_on c w = [w]"
  by (induction w) auto

lemma split_on_prefix [py_str]: "c \<notin> set w \<Longrightarrow> split_on c (w @ c # s) = w # split_on c s"
  by (induction w) auto

lemma split_on_join [py_str]:
  "ws \<noteq> [] \<Longrightarrow> (\<And>w. w \<in> set ws \<Longrightarrow> c \<notin> set w) \<Longrightarrow> split_on c (join [c] ws) = ws"
  by (induction "[c]" ws rule: join.induct) (auto simp: py_str)

lemma join_split_on [py_str]: "join [c] (split_on c s) = s"
proof (induction s)
  case (Cons x s)
  show ?case
  proof (cases "split_on c s")
    case (Cons w ws)
    with Cons.IH show ?thesis by (cases ws) auto
  qed simp
qed simp

lemma split_on_no_sep: "w \<in> set (split_on c s) \<Longrightarrow> c \<notin> set w"
proof (induction s arbitrary: w)
  case (Cons x s)
  obtain v vs where v: "split_on c s = v # vs" by (cases "split_on c s") auto
  with Cons.IH have "c \<notin> set v" "\<And>u. u \<in> set vs \<Longrightarrow> c \<notin> set u" by simp_all
  with Cons.prems v show ?case by (auto split: if_splits)
qed simp

lemma split_on_inject [py_str]: "split_on c s = split_on c t \<longleftrightarrow> s = t"
  by (metis join_split_on)

text \<open>\<open>str.isspace\<close> on the ASCII range and \<open>strip\<close>/\<open>rstrip\<close> without argument.\<close>

definition is_space :: "char \<Rightarrow> bool" where
  "is_space c \<longleftrightarrow> of_char c \<in> ({9, 10, 11, 12, 13, 28, 29, 30, 31, 32} :: nat set)"

definition rstrip_by :: "(char \<Rightarrow> bool) \<Rightarrow> string \<Rightarrow> string" where
  "rstrip_by P s = rev (dropWhile P (rev s))"

abbreviation rstrip :: "string \<Rightarrow> string" where
  "rstrip \<equiv> rstrip_by is_space"

definition strip :: "string \<Rightarrow> string" where
  "strip s = rstrip (dropWhile is_space s)"

lemma rstrip_by_id [py_str]: "s = [] \<or> \<not> P (last s) \<Longrightarrow> rstrip_by P s = s"
  by (cases s rule: rev_cases) (auto simp: rstrip_by_def)

lemma rstrip_by_snoc [py_str]: "P c \<Longrightarrow> rstrip_by P (s @ [c]) = rstrip_by P s"
  by (simp add: rstrip_by_def)

lemma rstrip_by_all [py_str]: "(\<And>c. c \<in> set t \<Longrightarrow> P c) \<Longrightarrow> rstrip_by P (s @ t) = rstrip_by P s"
  by (induction t rule: rev_induct) (auto simp: rstrip_by_snoc simp flip: append_assoc)

lemma rstrip_by_set: "set (rstrip_by P s) \<subseteq> set s"
  by (auto simp: rstrip_by_def dest: set_dropWhileD)

lemma rstrip_by_decomp:
  obtains t where "s = rstrip_by P s @ t" and "\<And>c. c \<in> set t \<Longrightarrow> P c"
proof -
  have "s = rev (dropWhile P (rev s)) @ rev (takeWhile P (rev s))"
    by (metis rev_append rev_rev_ident takeWhile_dropWhile_id)
  then show ?thesis
    by (intro that [of "rev (takeWhile P (rev s))"]) (auto simp: rstrip_by_def dest: set_takeWhileD)
qed

lemma strip_id [py_str]: "(\<And>c. c \<in> set s \<Longrightarrow> \<not> is_space c) \<Longrightarrow> strip s = s"
  by (cases s) (auto simp: strip_def rstrip_by_id)

section \<open>Decimal notation\<close>

definition digit_char :: "nat \<Rightarrow> char" where
  "digit_char d = char_of (48 + d)"

definition digit_val :: "char \<Rightarrow> nat" where
  "digit_val c = of_char c - 48"

definition is_digit :: "char \<Rightarrow> bool" where
  "is_digit c \<longleftrightarrow> 48 \<le> (of_char c :: nat) \<and> of_char c \<le> (57 :: nat)"

fun nat_str :: "nat \<Rightarrow> string" where
  "nat_str n = (if n < 10 then [digit_char n] else nat_str (n div 10) @ [digit_char (n mod 10)])"

declare nat_str.simps [simp del]

definition dec_val :: "string \<Rightarrow> nat" where
  "dec_val s = foldl (\<lambda>a c. 10 * a + digit_val c) 0 s"

definition zfill :: "nat \<Rightarrow> string \<Rightarrow> string" where
  "zfill w s = replicate (w - length s) CHR ''0'' @ s"

lemma of_char_digit: "d < 10 \<Longrightarrow> (of_char (digit_char d) :: nat) = 48 + d"
  by (simp add: digit_char_def)

lemma digit_val_char [simp]: "d < 10 \<Longrightarrow> digit_val (digit_char d) = d"
  by (simp add: digit_val_def of_char_digit)

lemma is_digit_char [simp]: "d < 10 \<Longrightarrow> is_digit (digit_char d)"
  by (simp add: is_digit_def of_char_digit)

lemma dec_val_snoc [simp]: "dec_val (s @ [c]) = 10 * dec_val s + digit_val c"
  by (simp add: dec_val_def)

lemma dec_val_nil [simp]: "dec_val [] = 0"
  by (simp add: dec_val_def)

lemma dec_val_nat_str [simp]: "dec_val (nat_str n) = n"
proof (induction n rule: nat_str.induct)
  case (1 n)
  show ?case
  proof (cases "n < 10")
    case True
    then show ?thesis using dec_val_snoc [of "[]"] by (simp add: nat_str.simps [of n])
  next
    case False
    with 1 show ?thesis by (simp add: nat_str.simps [of n])
  qed
qed

lemma nat_str_inject [simp]: "nat_str m = nat_str n \<longleftrightarrow> m = n"
  by (metis dec_val_nat_str)

lemma nat_str_digits: "c \<in> set (nat_str n) \<Longrightarrow> is_digit c"
proof (induction n rule: nat_str.induct)
  case (1 n)
  then show ?case
    by (cases "n < 10") (auto simp: nat_str.simps [of n])
qed

lemma nat_str_nonempty [simp]: "nat_str n \<noteq> []"
  by (subst nat_str.simps) simp

lemma nat_str_length: "n < 10 ^ k \<Longrightarrow> 0 < k \<Longrightarrow> length (nat_str n) \<le> k"
proof (induction n arbitrary: k rule: nat_str.induct)
  case (1 n)
  show ?case
  proof (cases "n < 10")
    case False
    from 1(2,3) obtain j where j: "k = Suc j" by (cases k) auto
    with False 1(2) have k: "k = Suc j" "0 < j" by (cases j; simp)+
    from False k 1(1) [of j] 1(2) have "length (nat_str (n div 10)) \<le> j"
      by (simp add: less_mult_imp_div_less mult.commute)
    with False k show ?thesis by (simp add: nat_str.simps [of n])
  qed (use 1 in \<open>simp add: nat_str.simps [of n]\<close>)
qed

lemma nat_str_hd: "nat_str n = CHR ''0'' # t \<Longrightarrow> n = 0 \<and> t = []"
proof (induction n arbitrary: t rule: nat_str.induct)
  case (1 n)
  show ?case
  proof (cases "n < 10")
    case True
    with 1(2) have "digit_char n = CHR ''0''" "t = []" by (simp_all add: nat_str.simps [of n])
    moreover from this True of_char_digit [of n] have "n = 0" by simp
    ultimately show ?thesis by simp
  next
    case False
    with 1(2) obtain t' where "nat_str (n div 10) = CHR ''0'' # t'"
      by (cases "nat_str (n div 10)") (auto simp: nat_str.simps [of n])
    with 1(1) False have "n div 10 = 0" by blast
    with False show ?thesis by simp
  qed
qed

lemma dec_val_zeros [simp]: "dec_val (replicate k CHR ''0'' @ s) = dec_val s"
proof -
  have "foldl (\<lambda>a c. 10 * a + digit_val c) 0 (replicate k CHR ''0'') = 0"
    by (induction k) (simp_all add: digit_val_def)
  then show ?thesis by (simp add: dec_val_def)
qed

lemma zfill_nat_str_inject [simp]: "zfill w (nat_str m) = zfill w (nat_str n) \<longleftrightarrow> m = n"
  by (metis dec_val_nat_str dec_val_zeros zfill_def)

lemma zfill_digits: "c \<in> set (zfill w (nat_str n)) \<Longrightarrow> is_digit c"
  by (auto simp: zfill_def is_digit_def dest: nat_str_digits)

lemma digit_not_space: "is_digit c \<Longrightarrow> \<not> is_space c"
  by (auto simp: is_digit_def is_space_def)

lemma digit_not_dot: "is_digit c \<Longrightarrow> c \<noteq> CHR ''.'' \<and> c \<noteq> CHR ''/''"
  by (auto simp: is_digit_def)

section \<open>Lists and dictionaries\<close>

type_synonym ('k, 'v) dict = "('k \<times> 'v) list"

text \<open>\<open>next((x for x in xs if P x), None)\<close> is \<open>find P xs\<close>.\<close>

lemma find_Some_set: "find P xs = Some x \<Longrightarrow> x \<in> set xs \<and> P x"
  by (auto simp: find_Some_iff)

lemma find_distinct:
  assumes "distinct (map f xs)" and "x \<in> set xs"
  shows "find (\<lambda>y. f y = f x) xs = Some x"
  using assms
proof (induction xs)
  case (Cons a xs)
  show ?case
  proof (cases "f a = f x")
    case True
    with Cons.prems have "x = a" by auto
    then show ?thesis by simp
  next
    case False
    with Cons show ?thesis by auto
  qed
qed simp

lemma distinct_map_filter: "distinct (map f xs) \<Longrightarrow> distinct (map f (filter P xs))"
  by (induction xs) auto

lemma map_of_dict_mem:
  assumes "distinct (map fst d)"
  shows "map_of d k = Some v \<longleftrightarrow> (k, v) \<in> set d"
  using assms by simp

text \<open>A dict comprehension \<open>{k(x): v(x) for x in xs}\<close>.\<close>

definition dict_of :: "('a \<Rightarrow> 'k) \<Rightarrow> ('a \<Rightarrow> 'v) \<Rightarrow> 'a list \<Rightarrow> ('k, 'v) dict" where
  "dict_of k v xs = fold (\<lambda>x d. AList.update (k x) (v x) d) xs []"

lemma map_of_AList_update [simp]: "map_of (AList.update k v d) = (map_of d)(k \<mapsto> v)"
  by (simp add: update_conv')

lemma update_fresh: "k \<notin> fst ` set d \<Longrightarrow> AList.update k v d = d @ [(k, v)]"
  by (induction d) auto

lemma fold_update_fresh:
  "distinct (map k xs) \<Longrightarrow> k ` set xs \<inter> fst ` set d = {} \<Longrightarrow>
    fold (\<lambda>x d. AList.update (k x) (v x) d) xs d = d @ map (\<lambda>x. (k x, v x)) xs"
proof (induction xs arbitrary: d)
  case (Cons x xs)
  have new: "k x \<notin> fst ` set d \<Longrightarrow> AList.update (k x) (v x) d = d @ [(k x, v x)]" for d
    by (induction d) auto
  from Cons.prems have "AList.update (k x) (v x) d = d @ [(k x, v x)]"
    by (intro new) auto
  with Cons.IH [of "d @ [(k x, v x)]"] Cons.prems show ?case by auto
qed simp

lemma dict_of_distinct: "distinct (map k xs) \<Longrightarrow> dict_of k v xs = map (\<lambda>x. (k x, v x)) xs"
  by (simp add: dict_of_def fold_update_fresh)

text \<open>\<open>d[k]\<close>: a missing key raises.\<close>

definition dict_index :: "('k, 'v) dict \<Rightarrow> 'k \<Rightarrow> 'v result" where
  "dict_index d k = (case map_of d k of None \<Rightarrow> Inl KeyError | Some v \<Rightarrow> Inr v)"

lemma dict_index_Inr: "dict_index d k = Inr v \<longleftrightarrow> map_of d k = Some v"
  by (simp add: dict_index_def split: option.split)

text \<open>\<open>s.add(x)\<close> on a set whose iteration order is the order of insertion.\<close>

definition set_add :: "'a \<Rightarrow> 'a list \<Rightarrow> 'a list" where
  "set_add x xs = (if x \<in> set xs then xs else xs @ [x])"

lemma set_set_add [simp]: "set (set_add x xs) = insert x (set xs)"
  by (auto simp: set_add_def)

lemma distinct_set_add [simp]: "distinct (set_add x xs) \<longleftrightarrow> distinct xs"
  by (simp add: set_add_def)

end
