(* ===== verification/Ipv4.thy ===== *)
theory Ipv4
  imports Decnet_Prelude
begin

text \<open>
  The part of Python's standard module \<open>ipaddress\<close> that the topology code uses. An address is a
  natural number below \<open>2 ^ 32\<close>; a network is its first address and its prefix length.
  \<open>parse_ipv4\<close> is \<open>IPv4Address(s)\<close>, \<open>parse_net strict s\<close> is \<open>IPv4Network(s, strict)\<close> (with the
  address, prefix, netmask and hostmask spellings), \<open>ip_str\<close> and \<open>net_str\<close> are \<open>str\<close> and
  \<open>with_prefixlen\<close>. A malformed text is \<open>Inl ValueError\<close>, as \<open>AddressValueError\<close> and
  \<open>NetmaskValueError\<close> derive from \<open>ValueError\<close>. The lemmas give the round trips
  (\<open>parse_ip_str\<close>, \<open>parse_net_str\<close>) and the arithmetic of aligned blocks.
\<close>

named_theorems ipv4 \<open>lemmas on IPv4 addresses and networks\<close>

section \<open>Addresses\<close>

definition ip_str :: "nat \<Rightarrow> string" where
  "ip_str a = join ''.'' (map nat_str
     [a div 2 ^ 24 mod 256, a div 2 ^ 16 mod 256, a div 2 ^ 8 mod 256, a mod 256])"

definition parse_octet :: "string \<Rightarrow> nat result" where
  "parse_octet s =
     (if s = [] then Inl ValueError
      else if \<not> list_all is_digit s then Inl ValueError
      else if 3 < length s then Inl ValueError
      else if s \<noteq> ''0'' \<and> hd s = CHR ''0'' then Inl ValueError
      else if 255 < dec_val s then Inl ValueError
      else Inr (dec_val s))"

definition parse_ipv4 :: "string \<Rightarrow> nat result" where
  "parse_ipv4 s =
     (case split_on CHR ''.'' s of
        [a, b, c, d] \<Rightarrow>
          bindE (parse_octet a) (\<lambda>w. bindE (parse_octet b) (\<lambda>x.
          bindE (parse_octet c) (\<lambda>y. bindE (parse_octet d) (\<lambda>z.
            Inr (w * 2 ^ 24 + x * 2 ^ 16 + y * 2 ^ 8 + z)))))
      | _ \<Rightarrow> Inl ValueError)"

lemma parse_octet_nat_str [ipv4]: "n < 256 \<Longrightarrow> parse_octet (nat_str n) = Inr n"
proof -
  assume n: "n < 256"
  then have len: "length (nat_str n) \<le> 3" by (intro nat_str_length) simp_all
  have dig: "list_all is_digit (nat_str n)" by (simp add: list_all_iff nat_str_digits)
  have "nat_str n = ''0''" if "hd (nat_str n) = CHR ''0''"
    using that nat_str_hd [of n "tl (nat_str n)"] by (cases "nat_str n") auto
  with n len dig show ?thesis by (auto simp: parse_octet_def)
qed

lemma nat_str_no_dot: "CHR ''.'' \<notin> set (nat_str n)" "CHR ''/'' \<notin> set (nat_str n)"
  using nat_str_digits digit_not_dot by blast+

lemma octets_recompose:
  fixes a :: nat
  shows "a < 2 ^ 32 \<Longrightarrow>
    a div 2 ^ 24 mod 256 * 2 ^ 24 + a div 2 ^ 16 mod 256 * 2 ^ 16 + a div 2 ^ 8 mod 256 * 2 ^ 8 + a mod 256 = a"
proof -
  assume a: "a < 2 ^ 32"
  define b where "b = a div 256"
  define c where "c = b div 256"
  define d where "d = c div 256"
  have "a = 256 * b + a mod 256" "b = 256 * c + b mod 256" "c = 256 * d + c mod 256"
    by (simp_all add: b_def c_def d_def)
  moreover from a have "d < 256" by (simp add: d_def c_def b_def)
  moreover have "a div 2 ^ 24 = d" "a div 2 ^ 16 = c" "a div 2 ^ 8 = b"
    by (simp_all add: d_def c_def b_def flip: div_mult2_eq)
  ultimately show ?thesis by simp
qed

lemma parse_octets:
  assumes "w < 256" "x < 256" "y < 256" "z < 256"
  shows "parse_ipv4 (join ''.'' (map nat_str [w, x, y, z])) =
    Inr (w * 2 ^ 24 + x * 2 ^ 16 + y * 2 ^ 8 + z)"
proof -
  have "split_on CHR ''.'' (join ''.'' (map nat_str [w, x, y, z])) = map nat_str [w, x, y, z]"
    by (rule split_on_join) (auto simp: nat_str_no_dot)
  with assms show ?thesis by (simp add: parse_ipv4_def parse_octet_nat_str)
qed

lemma parse_ip_str [simp, ipv4]:
  assumes "a < 2 ^ 32"
  shows "parse_ipv4 (ip_str a) = Inr a"
proof -
  have "parse_ipv4 (ip_str a) = Inr (a div 2 ^ 24 mod 256 * 2 ^ 24 + a div 2 ^ 16 mod 256 * 2 ^ 16
      + a div 2 ^ 8 mod 256 * 2 ^ 8 + a mod 256)"
    unfolding ip_str_def by (rule parse_octets) simp_all
  then show ?thesis by (simp only: octets_recompose [OF assms])
qed

lemma ip_str_inject [simp, ipv4]: "a < 2 ^ 32 \<Longrightarrow> b < 2 ^ 32 \<Longrightarrow> ip_str a = ip_str b \<longleftrightarrow> a = b"
  by (metis Inr_inject parse_ip_str)

lemma parse_octet_bound: "parse_octet s = Inr n \<Longrightarrow> n < 256"
  by (auto simp: parse_octet_def split: if_splits)

lemma parse_ipv4_bound [ipv4]:
  assumes "parse_ipv4 s = Inr a"
  shows "a < 2 ^ 32"
proof -
  from assms obtain w x y z where "w < 256" "x < 256" "y < 256" "z < 256"
    and "a = w * 2 ^ 24 + x * 2 ^ 16 + y * 2 ^ 8 + z"
    by (auto simp: parse_ipv4_def dest!: parse_octet_bound split: list.splits)
  then show ?thesis by simp
qed

lemma ip_str_ne [simp]: "ip_str a \<noteq> []"
  by (simp add: ip_str_def)

lemma ip_str_no_slash: "CHR ''/'' \<notin> set (ip_str a)"
  by (simp add: ip_str_def nat_str_no_dot)

lemma parse_ipv4_empty [simp]: "parse_ipv4 [] = Inl ValueError"
  by (simp add: parse_ipv4_def)

section \<open>Networks\<close>

record ipv4_network =
  net_addr :: nat
  net_prefix :: nat

abbreviation net_size :: "ipv4_network \<Rightarrow> nat" where
  "net_size n \<equiv> 2 ^ (32 - net_prefix n)"

definition net_wf :: "ipv4_network \<Rightarrow> bool" where
  "net_wf n \<longleftrightarrow> net_prefix n \<le> 32 \<and> net_addr n < 2 ^ 32 \<and> net_addr n mod net_size n = 0"

definition net_broadcast :: "ipv4_network \<Rightarrow> nat" where
  "net_broadcast n = net_addr n + net_size n - 1"

definition net_str :: "ipv4_network \<Rightarrow> string" where
  "net_str n = ip_str (net_addr n) @ ''/'' @ nat_str (net_prefix n)"

text \<open>\<open>_make_netmask\<close>: a decimal prefix length, else a netmask, else a hostmask.\<close>

definition parse_prefix :: "string \<Rightarrow> nat result" where
  "parse_prefix s =
     (if s \<noteq> [] \<and> list_all is_digit s \<and> dec_val s \<le> 32 then Inr (dec_val s)
      else bindE (parse_ipv4 s) (\<lambda>m.
        case find (\<lambda>p. m = 2 ^ 32 - 2 ^ (32 - p)) [0..<33] of
          Some p \<Rightarrow> Inr p
        | None \<Rightarrow>
           (case find (\<lambda>p. m = 2 ^ (32 - p) - 1) [0..<33] of
              Some p \<Rightarrow> Inr p
            | None \<Rightarrow> Inl ValueError)))"

definition parse_net :: "bool \<Rightarrow> string \<Rightarrow> ipv4_network result" where
  "parse_net strict s =
     (let mk = (\<lambda>a p.
        let base = a - a mod 2 ^ (32 - p) in
        if strict \<and> base \<noteq> a then Inl ValueError
        else Inr \<lparr>net_addr = base, net_prefix = p\<rparr>) in
      case split_on CHR ''/'' s of
        [a] \<Rightarrow> bindE (parse_ipv4 a) (\<lambda>x. mk x 32)
      | [a, m] \<Rightarrow> bindE (parse_ipv4 a) (\<lambda>x. bindE (parse_prefix m) (mk x))
      | _ \<Rightarrow> Inl ValueError)"

definition ip_in_net :: "nat \<Rightarrow> ipv4_network \<Rightarrow> bool" where
  "ip_in_net a n \<longleftrightarrow> net_addr n \<le> a \<and> a \<le> net_broadcast n"

text \<open>\<open>self.network_address in other or self.broadcast_address in other or ...\<close>\<close>

definition overlaps :: "ipv4_network \<Rightarrow> ipv4_network \<Rightarrow> bool" where
  "overlaps m n \<longleftrightarrow>
     ip_in_net (net_addr m) n \<or> ip_in_net (net_broadcast m) n \<or>
     ip_in_net (net_addr n) m \<or> ip_in_net (net_broadcast n) m"

text \<open>\<open>hosts()\<close>: all addresses of a \<open>/31\<close> or \<open>/32\<close>, else all but the first and the last.\<close>

definition hosts :: "ipv4_network \<Rightarrow> nat list" where
  "hosts n =
     (if net_prefix n = 32 then [net_addr n]
      else if net_prefix n = 31 then [net_addr n, net_addr n + 1]
      else [net_addr n + 1 ..< net_broadcast n])"

text \<open>\<open>subnets(new_prefix=24)\<close> of a network with a shorter prefix.\<close>

definition subnets24 :: "ipv4_network \<Rightarrow> ipv4_network list" where
  "subnets24 n =
     map (\<lambda>i. \<lparr>net_addr = net_addr n + i * 256, net_prefix = 24\<rparr>) [0 ..< 2 ^ (24 - net_prefix n)]"

lemma net_size_pos [simp]: "0 < net_size n"
  by simp

lemma parse_prefix_le: "parse_prefix s = Inr p \<Longrightarrow> p \<le> 32"
proof -
  have le: "p \<le> 32" if "find P [0..<33] = Some p" for P p
    using find_Some_set [OF that] by simp
  assume "parse_prefix s = Inr p"
  with le show ?thesis
    by (auto simp: parse_prefix_def simp del: upt_Suc upt_rec_numeral split: if_splits option.splits)
qed

lemma ip_in_net_iff: "ip_in_net a n \<longleftrightarrow> net_addr n \<le> a \<and> a < net_addr n + net_size n"
proof -
  have "net_broadcast n + 1 = net_addr n + net_size n"
    using net_size_pos [of n] unfolding net_broadcast_def by linarith
  then show ?thesis unfolding ip_in_net_def by linarith
qed

lemma net_ends: "ip_in_net (net_addr n) n" "ip_in_net (net_broadcast n) n"
  using net_size_pos [of n] unfolding ip_in_net_def net_broadcast_def by linarith+

lemma parse_net_wf [ipv4]:
  assumes "parse_net strict s = Inr n"
  shows "net_wf n"
proof -
  have mk: "net_wf \<lparr>net_addr = a - a mod 2 ^ (32 - p), net_prefix = p\<rparr>"
    if "a < 2 ^ 32" "p \<le> 32" for a p :: nat
  proof -
    have "(a - a mod 2 ^ (32 - p)) mod 2 ^ (32 - p) = 0" by (simp add: minus_mod_eq_mult_div)
    moreover have "a - a mod 2 ^ (32 - p) < 2 ^ 32" using that by linarith
    ultimately show ?thesis using that by (simp add: net_wf_def)
  qed
  from assms obtain a p where "a < 2 ^ 32" "p \<le> 32"
    and "n = \<lparr>net_addr = a - a mod 2 ^ (32 - p), net_prefix = p\<rparr>"
    by (auto simp: parse_net_def Let_def split: list.splits if_splits
        dest!: parse_prefix_le parse_ipv4_bound)
  with mk show ?thesis by simp
qed

lemma parse_prefix_nat_str: "p \<le> 32 \<Longrightarrow> parse_prefix (nat_str p) = Inr p"
  by (auto simp: parse_prefix_def list_all_iff nat_str_digits)

lemma parse_net_str [simp, ipv4]:
  assumes "net_wf n"
  shows "parse_net strict (net_str n) = Inr n"
proof -
  have "split_on CHR ''/'' (net_str n) = [ip_str (net_addr n), nat_str (net_prefix n)]"
    by (simp add: net_str_def split_on_prefix split_on_no ip_str_no_slash nat_str_no_dot)
  with assms show ?thesis
    by (simp add: parse_net_def net_wf_def parse_prefix_nat_str)
qed

lemma net_str_inject [simp, ipv4]: "net_wf m \<Longrightarrow> net_wf n \<Longrightarrow> net_str m = net_str n \<longleftrightarrow> m = n"
  by (metis Inr_inject parse_net_str)

lemma net_broadcast_bound:
  assumes "net_wf n"
  shows "net_broadcast n < 2 ^ 32"
proof -
  from assms have "net_addr n div net_size n * net_size n = net_addr n"
    by (metis add.right_neutral div_mult_mod_eq net_wf_def)
  moreover have pow: "(2::nat) ^ 32 = 2 ^ net_prefix n * net_size n"
    using assms by (simp add: net_wf_def flip: power_add)
  ultimately have "net_addr n div net_size n < 2 ^ net_prefix n"
    using assms by (metis mult_less_cancel2 net_wf_def)
  then have "(net_addr n div net_size n + 1) * net_size n \<le> 2 ^ net_prefix n * net_size n"
    by (intro mult_le_mono1) simp
  with \<open>net_addr n div net_size n * net_size n = net_addr n\<close> pow
  have "net_addr n + net_size n \<le> 2 ^ 32" by (simp add: algebra_simps)
  then show ?thesis using net_size_pos [of n] unfolding net_broadcast_def by linarith
qed

lemma hosts_in_net [ipv4]:
  assumes "net_wf n" and "a \<in> set (hosts n)"
  shows "ip_in_net a n \<and> a < 2 ^ 32"
proof -
  have "ip_in_net a n"
    using assms(2) by (auto simp: hosts_def ip_in_net_def net_broadcast_def split: if_splits)
  with net_broadcast_bound [OF assms(1)] show ?thesis by (auto simp: ip_in_net_def)
qed

lemma hosts_distinct [simp]: "distinct (hosts n)"
  by (simp add: hosts_def)

lemma hosts_nonempty:
  assumes "net_wf n"
  shows "hosts n \<noteq> []"
proof -
  have "4 \<le> net_size n" if "net_prefix n \<noteq> 32" "net_prefix n \<noteq> 31"
  proof -
    from that assms have "2 \<le> 32 - net_prefix n" unfolding net_wf_def by linarith
    then have "(2::nat) ^ 2 \<le> net_size n" by (intro power_increasing) simp_all
    then show ?thesis by simp
  qed
  then show ?thesis by (auto simp: hosts_def net_broadcast_def)
qed

text \<open>Two distinct aligned blocks of the same size do not meet.\<close>

lemma overlaps_same_prefix [ipv4]:
  assumes "net_wf m" and "net_wf n" and "net_prefix m = net_prefix n"
  shows "overlaps m n \<longleftrightarrow> m = n"
proof
  let ?s = "net_size n"
  assume ov: "overlaps m n"
  have eq: "a div ?s = net_addr k div ?s" if "ip_in_net a k" "net_wf k" "net_size k = ?s" for a k
  proof -
    from that obtain q where q: "net_addr k = q * ?s" by (auto simp: net_wf_def)
    with that(1,3) have "q * ?s \<le> a" "a < q * ?s + ?s" by (simp_all add: ip_in_net_iff)
    then have "a div ?s = q" by (simp add: div_nat_eqI mult.commute)
    with q show ?thesis by simp
  qed
  from ov net_ends eq assms have "net_addr m div ?s = net_addr n div ?s"
    unfolding overlaps_def by metis
  with assms have "net_addr m = net_addr n"
    unfolding net_wf_def by (metis div_mult_mod_eq)
  with assms(3) show "m = n" by simp
next
  assume "m = n"
  then show "overlaps m n"
    by (simp add: overlaps_def net_ends)
qed

lemma overlaps_iff_common [ipv4]: "overlaps m n \<longleftrightarrow> (\<exists>a. ip_in_net a m \<and> ip_in_net a n)"
proof
  assume "overlaps m n"
  with net_ends show "\<exists>a. ip_in_net a m \<and> ip_in_net a n" unfolding overlaps_def by blast
next
  assume "\<exists>a. ip_in_net a m \<and> ip_in_net a n"
  then show "overlaps m n" unfolding overlaps_def ip_in_net_def by auto
qed

lemma subnets24_wf [ipv4]:
  assumes "net_wf n" and "net_prefix n \<le> 24" and "m \<in> set (subnets24 n)"
  shows "net_wf m \<and> net_prefix m = 24 \<and> net_addr n \<le> net_addr m \<and> net_broadcast m \<le> net_broadcast n"
proof -
  from assms(3) obtain i where i: "i < 2 ^ (24 - net_prefix n)"
    and m: "m = \<lparr>net_addr = net_addr n + i * 256, net_prefix = 24\<rparr>"
    by (auto simp: subnets24_def)
  have size: "net_size n = 2 ^ (24 - net_prefix n) * 256"
  proof -
    have "32 - net_prefix n = (24 - net_prefix n) + 8" using assms(2) by linarith
    then have "net_size n = 2 ^ ((24 - net_prefix n) + 8)" by (simp only:)
    also have "\<dots> = 2 ^ (24 - net_prefix n) * 2 ^ 8" by (rule power_add)
    finally show ?thesis by simp
  qed
  from i have "(i + 1) * 256 \<le> 2 ^ (24 - net_prefix n) * 256" by (intro mult_le_mono1) simp
  with size have "i * 256 + 256 \<le> net_size n" by (simp only: add_mult_distrib mult_1)
  then have bc: "net_broadcast m \<le> net_broadcast n" unfolding net_broadcast_def m by simp
  have "net_addr n mod 256 = 0"
    using assms(1) size unfolding net_wf_def
    by (metis dvd_mult dvd_refl mod_0_imp_dvd dvd_imp_mod_0 dvd_trans)
  then have "net_addr m mod 256 = 0" using m by simp
  moreover have "net_addr m < 2 ^ 32"
    using bc net_broadcast_bound [OF assms(1)] m by (simp add: net_broadcast_def)
  ultimately show ?thesis using m bc by (simp add: net_wf_def)
qed

lemma subnets24_distinct [simp]: "distinct (subnets24 n)"
  by (simp add: subnets24_def distinct_map inj_on_def)

lemma length_subnets24 [simp]: "length (subnets24 n) = 2 ^ (24 - net_prefix n)"
  by (simp add: subnets24_def)

end
