(* ===== verification/Topology_Allocator.thy ===== *)
theory Topology_Allocator
  imports Ipv4
begin

text \<open>
  The address and subnet allocators (\<open>decnet/topology/allocator.py\<close>). Both classes are records
  whose methods return the outcome and the next state. The locale \<open>allocator\<close> is the contract
  their clients rely on (\<open>next_free\<close> hands out a free value exactly once, and raises
  \<open>AllocatorExhausted\<close> exactly when nothing is free); it is interpreted on both classes.
  \<open>reserving\<close> extends it with \<open>reserve\<close>, \<open>release\<close> and \<open>is_free\<close>.
\<close>

section \<open>The contract\<close>

fun alloc_many :: "('s \<Rightarrow> 'a result \<times> 's) \<Rightarrow> nat \<Rightarrow> 's \<Rightarrow> 'a list result \<times> 's" where
  "alloc_many nf 0 s = (Inr [], s)"
| "alloc_many nf (Suc n) s =
     (case nf s of
        (Inl e, s') \<Rightarrow> (Inl e, s')
      | (Inr x, s') \<Rightarrow>
          (case alloc_many nf n s' of
             (Inl e, s'') \<Rightarrow> (Inl e, s'')
           | (Inr xs, s'') \<Rightarrow> (Inr (x # xs), s'')))"

locale allocator =
  fixes next_free :: "'s \<Rightarrow> 'a result \<times> 's"
    and free :: "'s \<Rightarrow> 'a set"
    and invar :: "'s \<Rightarrow> bool"
  assumes finite_free: "invar s \<Longrightarrow> finite (free s)"
    and next_free_some: "invar s \<Longrightarrow> free s \<noteq> {} \<Longrightarrow>
      \<exists>x s'. next_free s = (Inr x, s') \<and> x \<in> free s \<and> free s' = free s - {x} \<and> invar s'"
    and next_free_none: "invar s \<Longrightarrow> free s = {} \<Longrightarrow>
      \<exists>s'. next_free s = (Inl AllocatorExhausted, s') \<and> free s' = {} \<and> invar s'"
begin

lemma next_free_InrD:
  "invar s \<Longrightarrow> next_free s = (Inr x, s') \<Longrightarrow> x \<in> free s \<and> free s' = free s - {x} \<and> invar s'"
  using next_free_some [of s] next_free_none [of s] by (cases "free s = {}") auto

lemma next_free_InlD:
  "invar s \<Longrightarrow> next_free s = (Inl e, s') \<Longrightarrow> e = AllocatorExhausted \<and> free s = {} \<and> invar s'"
  using next_free_some [of s] next_free_none [of s] by (cases "free s = {}") auto

lemma alloc_many_succeeds:
  assumes "invar s" and "n \<le> card (free s)"
  shows "\<exists>xs s'. alloc_many next_free n s = (Inr xs, s') \<and> length xs = n \<and> distinct xs
    \<and> set xs \<subseteq> free s \<and> free s' = free s - set xs \<and> invar s'"
  using assms
proof (induction n arbitrary: s)
  case (Suc n)
  then have "free s \<noteq> {}" by auto
  with Suc.prems next_free_some obtain x s' where x: "next_free s = (Inr x, s')" "x \<in> free s"
    "free s' = free s - {x}" "invar s'" by blast
  from x Suc.prems finite_free [of s] have "n \<le> card (free s')" by simp
  from Suc.IH [OF x(4) this] obtain xs s'' where "alloc_many next_free n s' = (Inr xs, s'')"
    "length xs = n" "distinct xs" "set xs \<subseteq> free s'" "free s'' = free s' - set xs" "invar s''"
    by blast
  with x show ?case by auto
qed simp

lemma alloc_many_exhausts:
  assumes "invar s" and "card (free s) < n"
  shows "\<exists>s'. alloc_many next_free n s = (Inl AllocatorExhausted, s')"
  using assms
proof (induction n arbitrary: s)
  case (Suc n)
  show ?case
  proof (cases "free s = {}")
    case True
    with next_free_none [OF Suc.prems(1)] show ?thesis by auto
  next
    case False
    with next_free_some [OF Suc.prems(1)] obtain x s' where x: "next_free s = (Inr x, s')"
      "x \<in> free s" "free s' = free s - {x}" "invar s'" by blast
    have "card (free s) = Suc (card (free s'))"
      unfolding x(3) using card.remove [OF finite_free [OF Suc.prems(1)] x(2)] by simp
    with Suc.prems(2) have "card (free s') < n" by simp
    from Suc.IH [OF x(4) this] x(1) show ?thesis by auto
  qed
qed simp

end

locale reserving = allocator next_free free invar
  for next_free :: "'s \<Rightarrow> 'a result \<times> 's" and free :: "'s \<Rightarrow> 'a set" and invar :: "'s \<Rightarrow> bool" +
  fixes reserve :: "'a \<Rightarrow> 's \<Rightarrow> unit result \<times> 's"
    and release :: "'a \<Rightarrow> 's \<Rightarrow> 's"
    and is_free :: "'a \<Rightarrow> 's \<Rightarrow> bool"
    and range :: "'s \<Rightarrow> 'a set"
  assumes is_free_iff: "invar s \<Longrightarrow> is_free x s \<longleftrightarrow> x \<in> free s"
    and free_in_range: "invar s \<Longrightarrow> free s \<subseteq> range s"
    and reserve_ok: "invar s \<Longrightarrow> x \<in> range s \<Longrightarrow>
      \<exists>s'. reserve x s = (Inr (), s') \<and> free s' = free s - {x} \<and> range s' = range s \<and> invar s'"
    and reserve_bad: "invar s \<Longrightarrow> x \<notin> range s \<Longrightarrow> reserve x s = (Inl ValueError, s)"
    and release_free: "invar s \<Longrightarrow> x \<in> range s \<Longrightarrow> free (release x s) = insert x (free s)"
    and release_other: "invar s \<Longrightarrow> x \<notin> range s \<Longrightarrow> free (release x s) = free s"
    and release_invar: "invar s \<Longrightarrow> range (release x s) = range s \<and> invar (release x s)"
    and range_next_free: "invar s \<Longrightarrow> range (snd (next_free s)) = range s"
begin

lemma reserve_then_not_free:
  "invar s \<Longrightarrow> reserve x s = (Inr (), s') \<Longrightarrow> \<not> is_free x s' \<and> invar s'"
  using reserve_ok [of s x] reserve_bad [of s x] is_free_iff [of s'] by (cases "x \<in> range s") auto

text \<open>A value handed out can be handed out again only after it was released.\<close>

lemma release_reuses:
  assumes "invar s" and "next_free s = (Inr x, s')"
  shows "\<not> is_free x s' \<and> is_free x (release x s')"
proof -
  from assms next_free_InrD have s': "x \<in> free s" "free s' = free s - {x}" "invar s'" by blast+
  moreover have "range s' = range s" using range_next_free [OF assms(1)] assms(2) by simp
  ultimately have "x \<in> range s'" using free_in_range assms(1) by blast
  then show ?thesis using s' is_free_iff release_free release_invar by auto
qed

end

section \<open>\<open>IPAllocator\<close>\<close>

record ip_allocator =
  ia_net :: ipv4_network
  ia_gateway :: string
  ia_pool :: "string list"
  ia_host_set :: "string set"
  ia_taken :: "string set"
  ia_cursor :: nat

definition IPAllocator_init :: "string \<Rightarrow> ip_allocator result" where
  "IPAllocator_init subnet =
     bindE (parse_net False subnet) (\<lambda>net.
       let hs = map ip_str (hosts net);
           gw = hd hs
       in Inr \<lparr>ia_net = net, ia_gateway = gw,
               ia_pool = filter (\<lambda>ip. ip \<noteq> gw) hs,
               ia_host_set = set hs, ia_taken = {}, ia_cursor = 0\<rparr>)"

text \<open>The \<open>while\<close> loop of \<open>next_free\<close>: the first untaken address at or after the cursor, and
  where the cursor stops.\<close>

function scan_cursor :: "string list \<Rightarrow> string set \<Rightarrow> nat \<Rightarrow> string option \<times> nat" where
  "scan_cursor pool taken cur =
     (if cur < length pool
      then (if pool ! cur \<notin> taken then (Some (pool ! cur), Suc cur)
            else scan_cursor pool taken (Suc cur))
      else (None, cur))"
  by pat_completeness auto
termination
  by (relation "measure (\<lambda>(pool, taken, cur). length pool - cur)") auto

declare scan_cursor.simps [simp del]

definition IPAllocator_next_free :: "ip_allocator \<Rightarrow> string result \<times> ip_allocator" where
  "IPAllocator_next_free a =
     (case scan_cursor (ia_pool a) (ia_taken a) (ia_cursor a) of
        (Some ip, c) \<Rightarrow> (Inr ip, a\<lparr>ia_cursor := c, ia_taken := insert ip (ia_taken a)\<rparr>)
      | (None, c) \<Rightarrow>
          (case find (\<lambda>ip. ip \<notin> ia_taken a) (ia_pool a) of
             Some ip \<Rightarrow> (Inr ip, a\<lparr>ia_cursor := c, ia_taken := insert ip (ia_taken a)\<rparr>)
           | None \<Rightarrow> (Inl AllocatorExhausted, a\<lparr>ia_cursor := c\<rparr>)))"

definition IPAllocator_reserve :: "string \<Rightarrow> ip_allocator \<Rightarrow> unit result \<times> ip_allocator" where
  "IPAllocator_reserve ip a =
     (if ip = ia_gateway a then (Inl ValueError, a)
      else if ip \<notin> ia_host_set a then (Inl ValueError, a)
      else (Inr (), a\<lparr>ia_taken := insert ip (ia_taken a)\<rparr>))"

definition IPAllocator_release :: "string \<Rightarrow> ip_allocator \<Rightarrow> ip_allocator" where
  "IPAllocator_release ip a = a\<lparr>ia_taken := ia_taken a - {ip}\<rparr>"

definition IPAllocator_is_free :: "string \<Rightarrow> ip_allocator \<Rightarrow> bool" where
  "IPAllocator_is_free ip a \<longleftrightarrow>
     ip \<notin> ia_taken a \<and> ip \<in> ia_host_set a \<and> ip \<noteq> ia_gateway a"

definition ia_free :: "ip_allocator \<Rightarrow> string set" where
  "ia_free a = set (ia_pool a) - ia_taken a"

definition ia_invar :: "ip_allocator \<Rightarrow> bool" where
  "ia_invar a \<longleftrightarrow>
     net_wf (ia_net a) \<and>
     ia_host_set a = ip_str ` set (hosts (ia_net a)) \<and>
     ia_gateway a = ip_str (hd (hosts (ia_net a))) \<and>
     set (ia_pool a) = ia_host_set a - {ia_gateway a} \<and>
     distinct (ia_pool a)"

lemma scan_cursor_Some:
  "scan_cursor pool taken cur = (Some ip, c) \<Longrightarrow> ip \<in> set pool - taken"
proof (induction pool taken cur rule: scan_cursor.induct)
  case (1 pool taken cur)
  then show ?case
    by (subst (asm) (2) scan_cursor.simps) (auto split: if_splits)
qed

lemma ip_str_hosts_distinct:
  assumes "net_wf n"
  shows "distinct (map ip_str (hosts n))"
  using hosts_in_net [OF assms] by (auto simp: distinct_map intro!: inj_onI)

lemma IPAllocator_init_invar:
  assumes "IPAllocator_init subnet = Inr a"
  shows "ia_invar a \<and> ia_taken a = {} \<and> parse_net False subnet = Inr (ia_net a)"
proof -
  from assms obtain net where net: "parse_net False subnet = Inr net"
    and a: "a = \<lparr>ia_net = net, ia_gateway = hd (map ip_str (hosts net)),
      ia_pool = filter (\<lambda>ip. ip \<noteq> hd (map ip_str (hosts net))) (map ip_str (hosts net)),
      ia_host_set = set (map ip_str (hosts net)), ia_taken = {}, ia_cursor = 0\<rparr>"
    by (auto simp: IPAllocator_init_def Let_def)
  from net have "net_wf net" by (rule parse_net_wf)
  with net hosts_nonempty [of net] ip_str_hosts_distinct [of net] show ?thesis
    unfolding a ia_invar_def by (auto simp: hd_map simp flip: distinct_map)
qed

lemma ia_free_bounds:
  assumes "ia_invar a" and "ip \<in> ia_free a"
  shows "\<exists>x. ip = ip_str x \<and> x \<in> set (hosts (ia_net a)) \<and> ip \<noteq> ia_gateway a"
  using assms by (auto simp: ia_free_def ia_invar_def)

lemma next_free_frame:
  "snd (IPAllocator_next_free a) =
     a\<lparr>ia_cursor := ia_cursor (snd (IPAllocator_next_free a)),
       ia_taken := ia_taken (snd (IPAllocator_next_free a))\<rparr>"
  by (auto simp: IPAllocator_next_free_def split: prod.splits option.splits)

interpretation ipalloc: reserving IPAllocator_next_free ia_free ia_invar
  IPAllocator_reserve IPAllocator_release IPAllocator_is_free "\<lambda>a. set (ia_pool a)"
proof
  fix a :: ip_allocator assume "ia_free a \<noteq> {}" and inv: "ia_invar a"
  then have find: "find (\<lambda>ip. ip \<notin> ia_taken a) (ia_pool a) \<noteq> None"
    by (auto simp: ia_free_def find_None_iff)
  obtain o' c where sc: "scan_cursor (ia_pool a) (ia_taken a) (ia_cursor a) = (o', c)"
    by (cases "scan_cursor (ia_pool a) (ia_taken a) (ia_cursor a)")
  obtain ip where ip: "IPAllocator_next_free a =
      (Inr ip, a\<lparr>ia_cursor := c, ia_taken := insert ip (ia_taken a)\<rparr>)" "ip \<in> ia_free a"
  proof (cases o')
    case None
    from find obtain ip where "find (\<lambda>ip. ip \<notin> ia_taken a) (ia_pool a) = Some ip" by auto
    with None sc show ?thesis
      by (intro that) (auto simp: IPAllocator_next_free_def ia_free_def dest: find_Some_set)
  next
    case (Some ip)
    with sc show ?thesis
      by (intro that) (auto simp: IPAllocator_next_free_def ia_free_def dest: scan_cursor_Some)
  qed
  with inv show "\<exists>x s'. IPAllocator_next_free a = (Inr x, s') \<and> x \<in> ia_free a \<and>
      ia_free s' = ia_free a - {x} \<and> ia_invar s'"
    by (auto simp: ia_free_def ia_invar_def)
next
  fix a :: ip_allocator assume none: "ia_free a = {}" and inv: "ia_invar a"
  then have "find (\<lambda>ip. ip \<notin> ia_taken a) (ia_pool a) = None"
    by (auto simp: ia_free_def find_None_iff)
  moreover have "fst (scan_cursor (ia_pool a) (ia_taken a) (ia_cursor a)) = None"
  proof (cases "scan_cursor (ia_pool a) (ia_taken a) (ia_cursor a)")
    case (Pair o' c)
    with none show ?thesis
      using scan_cursor_Some [of "ia_pool a" "ia_taken a" "ia_cursor a"]
      by (cases o') (auto simp: ia_free_def)
  qed
  ultimately show "\<exists>s'. IPAllocator_next_free a = (Inl AllocatorExhausted, s') \<and>
      ia_free s' = {} \<and> ia_invar s'"
    using none inv
    by (auto simp: IPAllocator_next_free_def ia_free_def ia_invar_def split: prod.splits option.splits)
next
  fix a :: ip_allocator assume "ia_invar a"
  show "set (ia_pool (snd (IPAllocator_next_free a))) = set (ia_pool a)"
    by (subst next_free_frame) simp
qed (auto simp: ia_free_def ia_invar_def IPAllocator_is_free_def IPAllocator_reserve_def
    IPAllocator_release_def)

section \<open>\<open>SubnetAllocator\<close>\<close>

record subnet_allocator =
  sa_parent :: ipv4_network
  sa_iter :: "ipv4_network list"
  sa_reserved :: "string set"

definition parse_base :: "string \<Rightarrow> ipv4_network result" where
  "parse_base base_prefix =
     (let stripped = rstrip_by (\<lambda>c. c = CHR ''.'') (strip base_prefix) in
      if CHR ''/'' \<in> set stripped then parse_net False stripped
      else (let octets = split_on CHR ''.'' stripped in
        if length octets = 2 then parse_net False (stripped @ ''.0.0/16'')
        else if length octets = 4 then parse_net False (stripped @ ''/24'')
        else Inl ValueError))"

definition SubnetAllocator_init :: "string \<Rightarrow> string set \<Rightarrow> subnet_allocator result" where
  "SubnetAllocator_init base_prefix reserved =
     bindE (parse_base base_prefix) (\<lambda>parent.
       if 24 < net_prefix parent then Inl ValueError
       else Inr \<lparr>sa_parent = parent,
                 sa_iter = (if net_prefix parent < 24 then subnets24 parent else [parent]),
                 sa_reserved = reserved\<rparr>)"

text \<open>The \<open>for\<close> loop of \<open>next_free\<close> over the shared generator: what it returns and what is left
  of the generator.\<close>

fun scan_subnets :: "ipv4_network list \<Rightarrow> string set \<Rightarrow> string option \<times> ipv4_network list" where
  "scan_subnets [] reserved = (None, [])"
| "scan_subnets (n # ns) reserved =
     (if net_str n \<notin> reserved then (Some (net_str n), ns) else scan_subnets ns reserved)"

definition SubnetAllocator_next_free :: "subnet_allocator \<Rightarrow> string result \<times> subnet_allocator" where
  "SubnetAllocator_next_free a =
     (case scan_subnets (sa_iter a) (sa_reserved a) of
        (Some s, rest) \<Rightarrow> (Inr s, a\<lparr>sa_iter := rest, sa_reserved := insert s (sa_reserved a)\<rparr>)
      | (None, rest) \<Rightarrow> (Inl AllocatorExhausted, a\<lparr>sa_iter := rest\<rparr>))"

definition SubnetAllocator_reserve :: "string \<Rightarrow> subnet_allocator \<Rightarrow> subnet_allocator" where
  "SubnetAllocator_reserve subnet a = a\<lparr>sa_reserved := insert subnet (sa_reserved a)\<rparr>"

definition SubnetAllocator_is_free :: "string \<Rightarrow> subnet_allocator \<Rightarrow> bool" where
  "SubnetAllocator_is_free subnet a \<longleftrightarrow> subnet \<notin> sa_reserved a"

definition sa_free :: "subnet_allocator \<Rightarrow> string set" where
  "sa_free a = net_str ` set (sa_iter a) - sa_reserved a"

definition slash24_in :: "ipv4_network \<Rightarrow> ipv4_network \<Rightarrow> bool" where
  "slash24_in p n \<longleftrightarrow> net_wf n \<and> net_prefix n = 24 \<and>
     net_addr p \<le> net_addr n \<and> net_broadcast n \<le> net_broadcast p"

definition sa_invar :: "subnet_allocator \<Rightarrow> bool" where
  "sa_invar a \<longleftrightarrow> distinct (sa_iter a) \<and> (\<forall>n \<in> set (sa_iter a). slash24_in (sa_parent a) n)"

lemma scan_subnets_Some:
  "scan_subnets ns reserved = (Some s, rest) \<Longrightarrow>
   \<exists>skipped n. ns = skipped @ n # rest \<and> s = net_str n \<and> s \<notin> reserved \<and>
     net_str ` set skipped \<subseteq> reserved"
proof (induction ns)
  case (Cons m ns)
  show ?case
  proof (cases "net_str m \<in> reserved")
    case True
    with Cons obtain skipped n where "ns = skipped @ n # rest" "s = net_str n" "s \<notin> reserved"
      "net_str ` set skipped \<subseteq> reserved" by auto
    with True show ?thesis by (intro exI [of _ "m # skipped"]) auto
  next
    case False
    with Cons.prems show ?thesis by (intro exI [of _ "[]"]) auto
  qed
qed simp

lemma scan_subnets_None:
  "scan_subnets ns reserved = (None, rest) \<Longrightarrow> rest = [] \<and> net_str ` set ns \<subseteq> reserved"
  by (induction ns) (auto split: if_splits)

interpretation subnets: allocator SubnetAllocator_next_free sa_free sa_invar
proof
  fix a :: subnet_allocator assume inv: "sa_invar a"
  obtain o' rest where sc: "scan_subnets (sa_iter a) (sa_reserved a) = (o', rest)"
    by (cases "scan_subnets (sa_iter a) (sa_reserved a)")
  show "finite (sa_free a)" by (simp add: sa_free_def)
  show "\<exists>x s'. SubnetAllocator_next_free a = (Inr x, s') \<and> x \<in> sa_free a \<and>
      sa_free s' = sa_free a - {x} \<and> sa_invar s'" if "sa_free a \<noteq> {}"
  proof -
    have "o' \<noteq> None" using that sc scan_subnets_None [of "sa_iter a" "sa_reserved a" rest] by (auto simp: sa_free_def)
    then obtain s where s: "o' = Some s" by auto
    with sc scan_subnets_Some obtain skipped n where it: "sa_iter a = skipped @ n # rest"
      and n: "s = net_str n" "s \<notin> sa_reserved a" "net_str ` set skipped \<subseteq> sa_reserved a" by metis
    have "net_str m \<noteq> net_str n" if "m \<in> set rest" for m
      using that inv it by (auto simp: sa_invar_def slash24_in_def)
    with n it have "sa_free (a\<lparr>sa_iter := rest, sa_reserved := insert s (sa_reserved a)\<rparr>) = sa_free a - {s}"
      by (auto simp: sa_free_def)
    with sc s n it inv show ?thesis
      by (auto simp: SubnetAllocator_next_free_def sa_invar_def sa_free_def)
  qed
  show "\<exists>s'. SubnetAllocator_next_free a = (Inl AllocatorExhausted, s') \<and> sa_free s' = {} \<and> sa_invar s'"
    if "sa_free a = {}"
  proof -
    have "o' = None"
      using that sc scan_subnets_Some [of "sa_iter a" "sa_reserved a"]
      by (cases o') (fastforce simp: sa_free_def)+
    with sc scan_subnets_None show ?thesis
      by (fastforce simp: SubnetAllocator_next_free_def sa_free_def sa_invar_def)
  qed
qed

lemma SubnetAllocator_init_invar:
  assumes "SubnetAllocator_init b reserved = Inr a"
  shows "sa_invar a \<and> sa_reserved a = reserved \<and> length (sa_iter a) = 2 ^ (24 - net_prefix (sa_parent a))"
proof -
  from assms obtain p where p: "parse_base b = Inr p" "net_prefix p \<le> 24"
    and a: "a = \<lparr>sa_parent = p, sa_iter = (if net_prefix p < 24 then subnets24 p else [p]),
      sa_reserved = reserved\<rparr>"
    by (auto simp: SubnetAllocator_init_def split: if_splits)
  from p have "net_wf p"
    by (auto simp: parse_base_def Let_def intro: parse_net_wf split: if_splits)
  with p subnets24_wf [of p] show ?thesis
    by (auto simp: a sa_invar_def slash24_in_def)
qed

lemma sa_free_init:
  assumes "SubnetAllocator_init b {} = Inr a"
  shows "card (sa_free a) = 2 ^ (24 - net_prefix (sa_parent a))"
proof -
  from SubnetAllocator_init_invar [OF assms] have inv: "sa_invar a" "sa_reserved a = {}"
    and len: "length (sa_iter a) = 2 ^ (24 - net_prefix (sa_parent a))" by auto
  then have "inj_on net_str (set (sa_iter a))"
    by (auto simp: sa_invar_def slash24_in_def intro!: inj_onI)
  with inv len show ?thesis
    by (simp add: sa_free_def card_image sa_invar_def distinct_card)
qed

lemma next_free_parent: "sa_parent (snd (SubnetAllocator_next_free a)) = sa_parent a"
  by (auto simp: SubnetAllocator_next_free_def split: prod.splits option.splits)

lemma sa_free_slash24:
  "sa_invar a \<Longrightarrow> s \<in> sa_free a \<Longrightarrow> \<exists>n. s = net_str n \<and> slash24_in (sa_parent a) n"
  by (auto simp: sa_free_def sa_invar_def)

end
