(* ===== verification/Py_Random.thy ===== *)
theory Py_Random
  imports Complex_Main Decnet_Prelude
begin

text \<open>
  Python's \<open>random.Random\<close> as a source of draws. A generator is a position in an arbitrary
  sequence of natural numbers; every method consumes draws and maps them into its range. A
  statement that holds for every sequence holds for every seed of the Mersenne twister.
  \<open>random()\<close> is a multiple of \<open>2 ^ -53\<close> in \<open>[0, 1)\<close>, as in CPython.
\<close>

record rng =
  rng_pos :: nat
  rng_seq :: "nat \<Rightarrow> nat"

definition draw :: "rng \<Rightarrow> nat \<times> rng" where
  "draw r = (rng_seq r (rng_pos r), r\<lparr>rng_pos := Suc (rng_pos r)\<rparr>)"

definition randint :: "nat \<Rightarrow> nat \<Rightarrow> rng \<Rightarrow> exn + (nat \<times> rng)" where
  "randint a b r =
     (if b < a then Inl ValueError
      else (let (k, r') = draw r in Inr (a + k mod (b - a + 1), r')))"

definition random_unit :: "rng \<Rightarrow> rat \<times> rng" where
  "random_unit r = (let (k, r') = draw r in (of_nat (k mod 2 ^ 53) / 2 ^ 53, r'))"

definition choice :: "'a list \<Rightarrow> rng \<Rightarrow> exn + ('a \<times> rng)" where
  "choice xs r =
     (if xs = [] then Inl IndexError
      else (let (k, r') = draw r in Inr (xs ! (k mod length xs), r')))"

text \<open>\<open>sample(pool, n)\<close>: \<open>n\<close> picks at distinct positions.\<close>

fun sample :: "'a list \<Rightarrow> nat \<Rightarrow> rng \<Rightarrow> exn + ('a list \<times> rng)" where
  "sample pool 0 r = Inr ([], r)"
| "sample pool (Suc n) r =
     (if pool = [] then Inl ValueError
      else (let (k, r') = draw r; i = k mod length pool in
        bindE (sample (take i pool @ drop (Suc i) pool) n r')
          (\<lambda>(xs, r''). Inr (pool ! i # xs, r''))))"

lemma randint_Inr:
  assumes "randint a b r = Inr (n, r')"
  shows "a \<le> n \<and> n \<le> b"
proof -
  from assms obtain k where le: "a \<le> b" and n: "n = a + k mod (b - a + 1)"
    by (auto simp: randint_def Let_def split: if_splits prod.splits)
  have "k mod (b - a + 1) < b - a + 1" by (rule mod_less_divisor) simp
  with le n show ?thesis by linarith
qed

lemma randint_total: "a \<le> b \<Longrightarrow> \<exists>n r'. randint a b r = Inr (n, r')"
  by (auto simp: randint_def Let_def split: prod.splits)

lemma choice_Inr: "choice xs r = Inr (x, r') \<Longrightarrow> x \<in> set xs"
  by (auto simp: choice_def Let_def split: if_splits prod.splits)

lemma choice_total: "xs \<noteq> [] \<Longrightarrow> \<exists>x r'. choice xs r = Inr (x, r')"
  by (auto simp: choice_def Let_def split: prod.splits)

lemma random_unit_range: "0 \<le> fst (random_unit r) \<and> fst (random_unit r) < 1"
proof -
  have "(of_nat (k mod 2 ^ 53) :: rat) < 2 ^ 53" for k :: nat
  proof -
    have "k mod 2 ^ 53 < 2 ^ 53" by simp
    then have "(of_nat (k mod 2 ^ 53) :: rat) < of_nat (2 ^ 53)" by (simp only: of_nat_less_iff)
    then show ?thesis by simp
  qed
  then show ?thesis by (simp add: random_unit_def Let_def split: prod.splits)
qed

lemma sample_total:
  "n \<le> length pool \<Longrightarrow> \<exists>xs r'. sample pool n r = Inr (xs, r')"
proof (induction n arbitrary: pool r)
  case (Suc n)
  obtain k r' where d: "draw r = (k, r')" by (cases "draw r")
  let ?i = "k mod length pool"
  from Suc.prems have "?i < length pool" by (intro mod_less_divisor) auto
  with Suc.prems have "n \<le> length (take ?i pool @ drop (Suc ?i) pool)" by simp
  from Suc.IH [OF this, of r'] Suc.prems d show ?case by (auto simp: Let_def)
qed simp

lemma sample_subset: "sample pool n r = Inr (xs, r') \<Longrightarrow> set xs \<subseteq> set pool"
proof (induction n arbitrary: pool r xs r')
  case (Suc n)
  obtain k s where d: "draw r = (k, s)" by (cases "draw r")
  let ?i = "k mod length pool"
  let ?rest = "take ?i pool @ drop (Suc ?i) pool"
  from Suc.prems(1) d obtain ys r'' where ne: "pool \<noteq> []" and ys: "sample ?rest n s = Inr (ys, r'')"
    and xs: "xs = pool ! ?i # ys"
    by (auto simp: Let_def split: if_splits)
  have "set ?rest \<subseteq> set pool" using set_take_subset set_drop_subset by fastforce
  with Suc.IH [OF ys] xs ne show ?case by auto
qed simp

lemma sample_length: "sample pool n r = Inr (xs, r') \<Longrightarrow> length xs = n"
  by (induction n arbitrary: pool r xs r') (auto simp: Let_def split: if_splits prod.splits)

lemma sample_sound:
  "sample pool n r = Inr (xs, r') \<Longrightarrow> distinct pool \<Longrightarrow> set xs \<subseteq> set pool \<and> distinct xs \<and> length xs = n"
proof (induction n arbitrary: pool r xs r')
  case (Suc n)
  obtain k s where d: "draw r = (k, s)" by (cases "draw r")
  let ?i = "k mod length pool"
  let ?rest = "take ?i pool @ drop (Suc ?i) pool"
  from Suc.prems(1) d obtain ys r'' where ne: "pool \<noteq> []" and ys: "sample ?rest n s = Inr (ys, r'')"
    and xs: "xs = pool ! ?i # ys"
    by (auto simp: Let_def split: if_splits)
  have i: "?i < length pool" using ne by simp
  have pool: "pool = take ?i pool @ pool ! ?i # drop (Suc ?i) pool"
    using i by (simp add: id_take_nth_drop)
  have "distinct (take ?i pool @ pool ! ?i # drop (Suc ?i) pool)"
    using Suc.prems(2) pool by simp
  then have dr: "distinct ?rest" "pool ! ?i \<notin> set ?rest" by auto
  have sub: "set ?rest \<subseteq> set pool" using set_take_subset set_drop_subset by fastforce
  from Suc.IH [OF ys dr(1)] dr(2) sub xs i show ?case by auto
qed simp

end
