(* ===== verification/Topology_Config.thy ===== *)
theory Topology_Config
  imports Py_Random Ipv4
begin

text \<open>
  The parameters of a topology and the in-memory plan the generator emits
  (\<open>decnet/topology/config.py\<close>). The dataclasses are records; \<open>TopologyConfig\<close> is a record with
  \<open>check_config\<close> for the field constraints and the model validator. Probabilities are rationals
  (a Python float is one). A decky's \<open>ips_by_lan\<close> is a dict: its first key is the home LAN.
\<close>

type_synonym svc_cfg = "(string, string) dict"

record topology_config =
  cfg_name :: string
  cfg_mode :: string
  cfg_depth :: nat
  cfg_branching_factor :: nat
  cfg_deckies_per_lan_min :: nat
  cfg_deckies_per_lan_max :: nat
  cfg_bridge_forward_probability :: rat
  cfg_cross_edge_probability :: rat
  cfg_subnet_base_prefix :: string
  cfg_randomize_services :: bool
  cfg_services_explicit :: "string list option"
  cfg_seed :: "nat option"

definition digits_between :: "nat \<Rightarrow> nat \<Rightarrow> string \<Rightarrow> bool" where
  "digits_between lo hi s \<longleftrightarrow> lo \<le> length s \<and> length s \<le> hi \<and> list_all is_digit s"

text \<open>The field pattern: two groups of one to three digits, or four groups and a prefix.\<close>

definition base_prefix_pattern :: "string \<Rightarrow> bool" where
  "base_prefix_pattern s \<longleftrightarrow>
     (case split_on CHR ''.'' s of
        [a, b] \<Rightarrow> digits_between 1 3 a \<and> digits_between 1 3 b
      | [a, b, c, rest] \<Rightarrow>
          digits_between 1 3 a \<and> digits_between 1 3 b \<and> digits_between 1 3 c \<and>
          (case split_on CHR ''/'' rest of
             [d, m] \<Rightarrow> digits_between 1 3 d \<and> digits_between 1 2 m
           | _ \<Rightarrow> False)
      | _ \<Rightarrow> False)"

definition services_given :: "topology_config \<Rightarrow> bool" where
  "services_given c \<longleftrightarrow> cfg_services_explicit c \<noteq> None \<and> cfg_services_explicit c \<noteq> Some []"

definition check_min_max :: "topology_config \<Rightarrow> unit result" where
  "check_min_max c =
     (if cfg_deckies_per_lan_min c > cfg_deckies_per_lan_max c then Inl ValueError
      else if \<not> cfg_randomize_services c \<and> \<not> services_given c then Inl ValueError
      else Inr ())"

definition check_config :: "topology_config \<Rightarrow> unit result" where
  "check_config c =
     (if 1 \<le> length (cfg_name c) \<and> length (cfg_name c) \<le> 64
       \<and> cfg_mode c \<in> {''unihost'', ''agent''}
       \<and> 1 \<le> cfg_depth c \<and> cfg_depth c \<le> 16
       \<and> 1 \<le> cfg_branching_factor c \<and> cfg_branching_factor c \<le> 8
       \<and> cfg_deckies_per_lan_min c \<le> 32
       \<and> 1 \<le> cfg_deckies_per_lan_max c \<and> cfg_deckies_per_lan_max c \<le> 32
       \<and> 0 \<le> cfg_bridge_forward_probability c \<and> cfg_bridge_forward_probability c \<le> 1
       \<and> 0 \<le> cfg_cross_edge_probability c \<and> cfg_cross_edge_probability c \<le> 1
       \<and> base_prefix_pattern (cfg_subnet_base_prefix c)
      then check_min_max c else Inl ValueError)"

record planned_lan =
  pl_name :: string
  pl_subnet :: string
  pl_is_dmz :: bool
  pl_parent :: "string option"
  pl_x :: "rat option"
  pl_y :: "rat option"

record planned_decky =
  pd_name :: string
  pd_services :: "string list"
  pd_ips_by_lan :: "(string, string) dict"
  pd_forwards_l3 :: bool
  pd_service_config :: "(string, svc_cfg) dict"
  pd_x :: "rat option"
  pd_y :: "rat option"

record planned_edge =
  pe_decky_name :: string
  pe_lan_name :: string
  pe_is_bridge :: bool
  pe_forwards_l3 :: bool

record generated_topology =
  gt_config :: topology_config
  gt_lans :: "planned_lan list"
  gt_deckies :: "planned_decky list"
  gt_edges :: "planned_edge list"

lemma check_config_bounds:
  assumes "check_config c = Inr ()"
  shows "1 \<le> cfg_depth c" "cfg_depth c \<le> 16" "1 \<le> cfg_branching_factor c" "cfg_branching_factor c \<le> 8"
    "cfg_deckies_per_lan_min c \<le> cfg_deckies_per_lan_max c" "cfg_deckies_per_lan_max c \<le> 32"
    "cfg_randomize_services c \<or> services_given c"
  using assms by (simp_all add: check_config_def check_min_max_def split: if_splits)

end
