(* ===== verification/Topology_Generator.thy ===== *)
theory Topology_Generator
  imports Topology_Allocator Topology_Config
begin

text \<open>
  The topology generator (\<open>decnet/topology/generator.py\<close>), a deterministic function of the
  configuration, the registry's service names, the reserved subnets and the draws of the random
  generator. The LAN tree is grown level by level (\<open>plan_lans\<close>), every LAN is populated
  (\<open>populate_lan\<close>), every LAN but the DMZ is bridged to its parent (\<open>bridge_lan\<close>) and cross
  edges are added (\<open>cross_lan\<close>); \<open>generate\<close> composes them. Python mutates decky and edge objects
  shared between lists; decky names are unique, so the model updates the one list by name.

  \<open>lans_wf\<close> is the invariant of the LAN tree and \<open>gen_wf\<close> that of the decky placement; each
  phase preserves them, and \<open>plan_wf\<close> is what every generated plan satisfies.
\<close>

section \<open>Planning the LAN tree\<close>

definition lan_name :: "nat \<Rightarrow> string" where
  "lan_name i = ''LAN-'' @ zfill 2 (nat_str i)"

definition decky_name :: "nat \<Rightarrow> string" where
  "decky_name i = ''decky-'' @ zfill 3 (nat_str i)"

fun plan_children ::
  "nat \<Rightarrow> string \<Rightarrow> planned_lan list \<Rightarrow> planned_lan list \<Rightarrow> subnet_allocator \<Rightarrow>
   exn + (planned_lan list \<times> planned_lan list \<times> subnet_allocator)" where
  "plan_children 0 parent lans next_frontier sa = Inr (lans, next_frontier, sa)"
| "plan_children (Suc n) parent lans next_frontier sa =
     (case SubnetAllocator_next_free sa of
        (Inl e, _) \<Rightarrow> Inl e
      | (Inr subnet, sa') \<Rightarrow>
          let child = \<lparr>pl_name = lan_name (length lans), pl_subnet = subnet, pl_is_dmz = False,
                       pl_parent = Some parent, pl_x = None, pl_y = None\<rparr>
          in plan_children n parent (lans @ [child]) (next_frontier @ [child]) sa')"

fun plan_level ::
  "nat \<Rightarrow> planned_lan list \<Rightarrow> planned_lan list \<Rightarrow> planned_lan list \<Rightarrow> rng \<Rightarrow> subnet_allocator \<Rightarrow>
   exn + (planned_lan list \<times> planned_lan list \<times> rng \<times> subnet_allocator)" where
  "plan_level bf [] lans next_frontier r sa = Inr (lans, next_frontier, r, sa)"
| "plan_level bf (parent # frontier) lans next_frontier r sa =
     bindE (randint 1 bf r) (\<lambda>(n_children, r').
     bindE (plan_children n_children (pl_name parent) lans next_frontier sa) (\<lambda>(lans', nf', sa').
       plan_level bf frontier lans' nf' r' sa'))"

fun plan_levels ::
  "nat \<Rightarrow> nat \<Rightarrow> planned_lan list \<Rightarrow> planned_lan list \<Rightarrow> rng \<Rightarrow> subnet_allocator \<Rightarrow>
   exn + (planned_lan list \<times> rng \<times> subnet_allocator)" where
  "plan_levels 0 bf frontier lans r sa = Inr (lans, r, sa)"
| "plan_levels (Suc d) bf frontier lans r sa =
     bindE (plan_level bf frontier lans [] r sa) (\<lambda>(lans', nf, r', sa').
       if nf = [] then Inr (lans', r', sa') else plan_levels d bf nf lans' r' sa')"

definition plan_lans ::
  "topology_config \<Rightarrow> rng \<Rightarrow> subnet_allocator \<Rightarrow>
   exn + (planned_lan list \<times> rng \<times> subnet_allocator)" where
  "plan_lans c r sa =
     (case SubnetAllocator_next_free sa of
        (Inl e, _) \<Rightarrow> Inl e
      | (Inr subnet, sa') \<Rightarrow>
          let dmz = \<lparr>pl_name = ''LAN-00'', pl_subnet = subnet, pl_is_dmz = True,
                     pl_parent = None, pl_x = None, pl_y = None\<rparr>
          in plan_levels (cfg_depth c) (cfg_branching_factor c) [dmz] [dmz] r sa')"

section \<open>Deckies\<close>

record gen_state =
  g_rng :: rng
  g_counter :: nat
  g_seen :: "string set set"
  g_allocs :: "(string, ip_allocator) dict"
  g_deckies :: "planned_decky list"
  g_edges :: "planned_edge list"

definition SVC_MIN :: nat where "SVC_MIN = 1"
definition SVC_MAX :: nat where "SVC_MAX = 3"

text \<open>The \<open>while True\<close> loop of \<open>_pick_services\<close>: it stops at an unseen combination or after
  more than twenty attempts.\<close>

function pick_loop ::
  "string list \<Rightarrow> string set set \<Rightarrow> nat \<Rightarrow> rng \<Rightarrow> exn + (string list \<times> rng)" where
  "pick_loop pool seen attempts r =
     bindE (randint SVC_MIN (min SVC_MAX (length pool)) r) (\<lambda>(count, r1).
     bindE (sample pool count r1) (\<lambda>(chosen, r2).
       if set chosen \<notin> seen \<or> attempts + 1 > 20 then Inr (remdups chosen, r2)
       else pick_loop pool seen (attempts + 1) r2))"
  by pat_completeness auto
termination
  by (relation "measure (\<lambda>(pool, seen, attempts, r). 21 - attempts)") auto

declare pick_loop.simps [simp del]

definition pick_services ::
  "string list option \<Rightarrow> string list \<Rightarrow> gen_state \<Rightarrow> exn + (string list \<times> gen_state)" where
  "pick_services services_explicit pool st =
     (case services_explicit of
        Some (s # ss) \<Rightarrow> Inr (s # ss, st)
      | _ \<Rightarrow>
         if pool = [] then Inr ([], st)
         else bindE (pick_loop pool (g_seen st) 0 (g_rng st)) (\<lambda>(chosen, r').
           Inr (chosen, st\<lparr>g_rng := r', g_seen := insert (set chosen) (g_seen st)\<rparr>)))"

definition take_ip :: "string \<Rightarrow> gen_state \<Rightarrow> exn + (string \<times> gen_state)" where
  "take_ip lan st =
     (case map_of (g_allocs st) lan of
        None \<Rightarrow> Inl KeyError
      | Some a \<Rightarrow>
          (case IPAllocator_next_free a of
             (Inl e, _) \<Rightarrow> Inl e
           | (Inr ip, a') \<Rightarrow> Inr (ip, st\<lparr>g_allocs := AList.update lan a' (g_allocs st)\<rparr>)))"

definition new_decky ::
  "string \<Rightarrow> topology_config \<Rightarrow> string list \<Rightarrow> gen_state \<Rightarrow> exn + (planned_decky \<times> gen_state)" where
  "new_decky home_lan c svc_pool st =
     (let st1 = st\<lparr>g_counter := g_counter st + 1\<rparr> in
      bindE (pick_services (cfg_services_explicit c) svc_pool st1) (\<lambda>(services, st2).
      bindE (take_ip home_lan st2) (\<lambda>(ip, st3).
        let decky = \<lparr>pd_name = decky_name (g_counter st1), pd_services = services,
                     pd_ips_by_lan = [(home_lan, ip)], pd_forwards_l3 = False,
                     pd_service_config = [], pd_x = None, pd_y = None\<rparr>
        in Inr (decky, st3\<lparr>g_deckies := g_deckies st3 @ [decky]\<rparr>))))"

definition place_decky ::
  "string \<Rightarrow> topology_config \<Rightarrow> string list \<Rightarrow> gen_state \<Rightarrow> exn + gen_state" where
  "place_decky lan c svc_pool st =
     bindE (new_decky lan c svc_pool st) (\<lambda>(decky, st').
       Inr (st'\<lparr>g_edges := g_edges st' @
         [\<lparr>pe_decky_name = pd_name decky, pe_lan_name = lan,
           pe_is_bridge = False, pe_forwards_l3 = False\<rparr>]\<rparr>))"

definition populate_lan ::
  "topology_config \<Rightarrow> string list \<Rightarrow> planned_lan \<Rightarrow> gen_state \<Rightarrow> exn + gen_state" where
  "populate_lan c svc_pool lan st =
     bindE (if pl_is_dmz lan then Inr (1, g_rng st)
            else bindE (randint (cfg_deckies_per_lan_min c) (cfg_deckies_per_lan_max c) (g_rng st))
              (\<lambda>(count, r'). Inr (if count < 1 then 1 else count, r')))
       (\<lambda>(count, r'). foldE (\<lambda>_. place_decky (pl_name lan) c svc_pool) [0..<count] (st\<lparr>g_rng := r'\<rparr>))"

section \<open>Bridges and cross edges\<close>

text \<open>\<open>deckies_by_lan\<close>: the deckies of every LAN at the time it is built, by name.\<close>

definition deckies_by_lan ::
  "planned_lan list \<Rightarrow> planned_decky list \<Rightarrow> planned_edge list \<Rightarrow> exn + (string, string list) dict" where
  "deckies_by_lan lans deckies edges =
     foldE (\<lambda>e d.
       case map_of d (pe_lan_name e) of
         None \<Rightarrow> Inl KeyError
       | Some ds \<Rightarrow>
           (case find (\<lambda>x. pd_name x = pe_decky_name e) deckies of
              None \<Rightarrow> Inl StopIteration
            | Some x \<Rightarrow> Inr (AList.update (pe_lan_name e) (ds @ [pd_name x]) d)))
       edges (dict_of pl_name (\<lambda>_. []) lans)"

definition update_named ::
  "string \<Rightarrow> (planned_decky \<Rightarrow> planned_decky) \<Rightarrow> planned_decky list \<Rightarrow> planned_decky list" where
  "update_named name f ds = map (\<lambda>d. if pd_name d = name then f d else d) ds"

text \<open>Multi-home the decky \<open>name\<close> to \<open>lan\<close>: take an address, draw the forwarding flag, mark all
  its edges as bridge edges and append the new one. The two places of \<open>generate\<close> that do this
  have the same body.\<close>

definition multi_home :: "topology_config \<Rightarrow> string \<Rightarrow> string \<Rightarrow> gen_state \<Rightarrow> exn + gen_state" where
  "multi_home c name lan st =
     bindE (take_ip lan st) (\<lambda>(ip, st1).
       let (u, r') = random_unit (g_rng st1);
           forwards = (u < cfg_bridge_forward_probability c);
           fwd = (case find (\<lambda>d. pd_name d = name) (g_deckies st1) of
                    Some d \<Rightarrow> pd_forwards_l3 d \<or> forwards | None \<Rightarrow> forwards);
           deckies' = update_named name
             (\<lambda>d. d\<lparr>pd_ips_by_lan := AList.update lan ip (pd_ips_by_lan d), pd_forwards_l3 := fwd\<rparr>)
             (g_deckies st1);
           edges' = map (\<lambda>e. if pe_decky_name e = name
             then e\<lparr>pe_is_bridge := True, pe_forwards_l3 := fwd\<rparr> else e) (g_edges st1)
       in Inr (st1\<lparr>g_rng := r', g_deckies := deckies',
            g_edges := edges' @ [\<lparr>pe_decky_name = name, pe_lan_name = lan,
              pe_is_bridge = True, pe_forwards_l3 = fwd\<rparr>]\<rparr>))"


definition bridge_lan ::
  "topology_config \<Rightarrow> (string, string list) dict \<Rightarrow> planned_lan \<Rightarrow> gen_state \<Rightarrow> exn + gen_state" where
  "bridge_lan c by_lan lan st =
     (case pl_parent lan of
        None \<Rightarrow> Inr st
      | Some parent \<Rightarrow>
         if pl_is_dmz lan then Inr st
         else bindE (dict_index by_lan (pl_name lan)) (\<lambda>candidates.
           bindE (choice candidates (g_rng st)) (\<lambda>(bridge, r').
             multi_home c bridge parent (st\<lparr>g_rng := r'\<rparr>))))"

definition cross_peers :: "planned_lan list \<Rightarrow> planned_lan \<Rightarrow> planned_lan list" where
  "cross_peers lans lan =
     (let forbidden = {Some (pl_name lan), pl_parent lan}
            \<union> set (map (Some \<circ> pl_name) (filter (\<lambda>k. pl_parent k = Some (pl_name lan)) lans))
      in filter (\<lambda>p. Some (pl_name p) \<notin> forbidden) lans)"

definition cross_lan ::
  "topology_config \<Rightarrow> planned_lan list \<Rightarrow> (string, string list) dict \<Rightarrow> planned_lan \<Rightarrow> gen_state \<Rightarrow>
   exn + gen_state" where
  "cross_lan c lans by_lan lan st =
     (if pl_is_dmz lan then Inr st
      else (let (u, r1) = random_unit (g_rng st); st1 = st\<lparr>g_rng := r1\<rparr> in
        if u \<ge> cfg_cross_edge_probability c then Inr st1
        else (let peers = cross_peers lans lan in
          if peers = [] then Inr st1
          else bindE (choice peers (g_rng st1)) (\<lambda>(peer, r2).
            bindE (dict_index by_lan (pl_name lan)) (\<lambda>candidates.
            bindE (choice candidates r2) (\<lambda>(decky, r3).
              let st3 = st1\<lparr>g_rng := r3\<rparr> in
              if (\<exists>d \<in> set (g_deckies st3). pd_name d = decky \<and> pl_name peer \<in> fst ` set (pd_ips_by_lan d))
              then Inr st3
              else multi_home c decky (pl_name peer) st3))))))"

fun make_allocs :: "planned_lan list \<Rightarrow> (string, ip_allocator) dict \<Rightarrow> exn + (string, ip_allocator) dict" where
  "make_allocs [] d = Inr d"
| "make_allocs (lan # lans) d =
     bindE (IPAllocator_init (pl_subnet lan)) (\<lambda>a. make_allocs lans (AList.update (pl_name lan) a d))"

definition generate ::
  "string list \<Rightarrow> topology_config \<Rightarrow> string set \<Rightarrow> rng \<Rightarrow> generated_topology result" where
  "generate all_service_names c reserved_subnets rng =
     (let svc_pool = (if cfg_randomize_services c then all_service_names else []) in
      bindE (SubnetAllocator_init (cfg_subnet_base_prefix c) reserved_subnets) (\<lambda>subnets.
      bindE (plan_lans c rng subnets) (\<lambda>(lans, r1, _).
      bindE (make_allocs lans []) (\<lambda>allocs.
      bindE (foldE (populate_lan c svc_pool) lans
              \<lparr>g_rng = r1, g_counter = 0, g_seen = {}, g_allocs = allocs, g_deckies = [], g_edges = []\<rparr>)
        (\<lambda>st1.
      bindE (deckies_by_lan lans (g_deckies st1) (g_edges st1)) (\<lambda>by_lan.
      bindE (foldE (bridge_lan c by_lan) lans st1) (\<lambda>st2.
      bindE (if cfg_cross_edge_probability c > 0 then foldE (cross_lan c lans by_lan) lans st2
             else Inr st2) (\<lambda>st3.
        Inr \<lparr>gt_config = c, gt_lans = lans, gt_deckies = g_deckies st3, gt_edges = g_edges st3\<rparr>))))))))"

section \<open>The LAN tree is well formed\<close>

definition lans_wf :: "string set \<Rightarrow> planned_lan list \<Rightarrow> bool" where
  "lans_wf reserved lans \<longleftrightarrow>
     lans \<noteq> [] \<and>
     map pl_name lans = map lan_name [0..<length lans] \<and>
     pl_is_dmz (lans ! 0) \<and>
     (\<forall>i. 0 < i \<and> i < length lans \<longrightarrow>
        \<not> pl_is_dmz (lans ! i) \<and> (\<exists>j < i. pl_parent (lans ! i) = Some (lan_name j))) \<and>
     distinct (map pl_subnet lans) \<and>
     (\<forall>l \<in> set lans. pl_subnet l \<notin> reserved \<and>
        (\<exists>n. net_wf n \<and> net_prefix n = 24 \<and> pl_subnet l = net_str n))"

definition plan_inv :: "string set \<Rightarrow> planned_lan list \<Rightarrow> subnet_allocator \<Rightarrow> bool" where
  "plan_inv reserved lans sa \<longleftrightarrow>
     lans_wf reserved lans \<and> sa_invar sa \<and>
     sa_free sa \<inter> (reserved \<union> set (map pl_subnet lans)) = {}"

lemma lan_name_inject [simp]: "lan_name i = lan_name j \<longleftrightarrow> i = j"
  by (simp add: lan_name_def)

lemma decky_name_inject [simp]: "decky_name i = decky_name j \<longleftrightarrow> i = j"
  by (simp add: decky_name_def)

lemma lans_wf_names: "lans_wf R lans \<Longrightarrow> distinct (map pl_name lans)"
  by (simp add: lans_wf_def distinct_map inj_on_def)

lemma lans_wf_nth_name: "lans_wf R lans \<Longrightarrow> i < length lans \<Longrightarrow> pl_name (lans ! i) = lan_name i"
  unfolding lans_wf_def by (metis add_0 diff_zero length_map length_upt nth_map nth_upt)

lemma sa_free_net24:
  assumes "sa_invar sa" and "s \<in> sa_free sa"
  shows "\<exists>n. net_wf n \<and> net_prefix n = 24 \<and> s = net_str n"
  using sa_free_slash24 [OF assms] by (auto simp: slash24_in_def)

lemma plan_inv_snoc:
  assumes inv: "plan_inv R lans sa" and nf: "SubnetAllocator_next_free sa = (Inr s, sa')"
    and child: "pl_name child = lan_name (length lans)" "pl_subnet child = s"
      "\<not> pl_is_dmz child" "pl_parent child = Some (lan_name j)" "j < length lans"
  shows "plan_inv R (lans @ [child]) sa'"
proof -
  from inv have wf: "lans_wf R lans" and sa: "sa_invar sa"
    and disj: "sa_free sa \<inter> (R \<union> set (map pl_subnet lans)) = {}"
    by (simp_all add: plan_inv_def)
  from subnets.next_free_InrD [OF sa nf] have s: "s \<in> sa_free sa" "sa_free sa' = sa_free sa - {s}"
    "sa_invar sa'" by simp_all
  have "s \<notin> R" "s \<notin> set (map pl_subnet lans)" using s(1) disj by auto
  moreover have "\<exists>n. net_wf n \<and> net_prefix n = 24 \<and> s = net_str n"
    using sa_free_net24 [OF sa s(1)] .
  moreover have "\<not> pl_is_dmz ((lans @ [child]) ! i) \<and> (\<exists>j<i. pl_parent ((lans @ [child]) ! i) = Some (lan_name j))"
    if "0 < i" "i < length (lans @ [child])" for i
    using that wf child by (cases "i < length lans") (auto simp: lans_wf_def nth_append less_Suc_eq)
  ultimately have "lans_wf R (lans @ [child])"
    using wf child by (auto simp: lans_wf_def nth_append)
  with s disj child show ?thesis by (auto simp: plan_inv_def)
qed

definition names_in :: "planned_lan list \<Rightarrow> planned_lan list \<Rightarrow> bool" where
  "names_in xs lans \<longleftrightarrow> (\<forall>x \<in> set xs. \<exists>j < length lans. pl_name x = lan_name j)"

lemma names_in_append: "names_in xs lans \<Longrightarrow> names_in xs (lans @ ys)"
  unfolding names_in_def by (metis length_append trans_less_add1)

lemma plan_children_inv:
  assumes "plan_children n parent lans nf sa = Inr (lans', nf', sa')"
    and "plan_inv R lans sa" and "parent = lan_name j" "j < length lans" and "names_in nf lans"
  shows "plan_inv R lans' sa' \<and> (\<exists>new. lans' = lans @ new) \<and> names_in nf' lans'"
  using assms
proof (induction n arbitrary: lans nf sa)
  case (Suc n)
  let ?child = "\<lambda>s. \<lparr>pl_name = lan_name (length lans), pl_subnet = s, pl_is_dmz = False,
     pl_parent = Some parent, pl_x = None, pl_y = None\<rparr>"
  from Suc.prems(1) obtain s sb where nf: "SubnetAllocator_next_free sa = (Inr s, sb)"
    and rec: "plan_children n parent (lans @ [?child s]) (nf @ [?child s]) sb = Inr (lans', nf', sa')"
    by (auto simp: Let_def split: prod.splits sum.splits)
  have inv: "plan_inv R (lans @ [?child s]) sb"
    by (rule plan_inv_snoc [OF Suc.prems(2) nf _ _ _ _ Suc.prems(4)]) (simp_all add: Suc.prems(3))
  have "names_in (nf @ [?child s]) (lans @ [?child s])"
    using Suc.prems(5) by (auto simp: names_in_def intro: less_SucI)
  from Suc.IH [OF rec inv Suc.prems(3) _ this] Suc.prems(4) show ?case by auto
qed simp

lemma plan_level_inv:
  assumes "plan_level bf frontier lans nf r sa = Inr (lans', nf', r', sa')"
    and "plan_inv R lans sa" and "names_in frontier lans" and "names_in nf lans"
  shows "plan_inv R lans' sa' \<and> (\<exists>new. lans' = lans @ new) \<and> names_in nf' lans'"
  using assms
proof (induction bf frontier lans nf r sa rule: plan_level.induct)
  case (2 bf p frontier lans nf r sa)
  from "2.prems"(1) obtain n r1 lans1 nf1 sa1 where
    ch: "randint 1 bf r = Inr (n, r1)" "plan_children n (pl_name p) lans nf sa = Inr (lans1, nf1, sa1)"
    and rec: "plan_level bf frontier lans1 nf1 r1 sa1 = Inr (lans', nf', r', sa')"
    by auto
  from "2.prems"(3) obtain j where "pl_name p = lan_name j" "j < length lans"
    by (auto simp: names_in_def)
  from plan_children_inv [OF ch(2) "2.prems"(2) this "2.prems"(4)] obtain new where
    one: "plan_inv R lans1 sa1" "lans1 = lans @ new" "names_in nf1 lans1" by blast
  have "names_in frontier lans1"
    using "2.prems"(3) one(2) names_in_append [of frontier lans new] by (auto simp: names_in_def)
  from "2.IH" [OF rec one(1) this one(3)] one(2) show ?case by auto
qed simp

lemma plan_levels_inv:
  assumes "plan_levels d bf frontier lans r sa = Inr (lans', r', sa')"
    and "plan_inv R lans sa" and "names_in frontier lans"
  shows "plan_inv R lans' sa'"
  using assms
proof (induction d bf frontier lans r sa rule: plan_levels.induct)
  case (2 d bf frontier lans r sa)
  from "2.prems"(1) obtain lans1 nf r1 sa1 where
    lv: "plan_level bf frontier lans [] r sa = Inr (lans1, nf, r1, sa1)"
    and rest: "(if nf = [] then Inr (lans1, r1, sa1) else plan_levels d bf nf lans1 r1 sa1) = Inr (lans', r', sa')"
    by auto
  from plan_level_inv [OF lv "2.prems"(2,3)] have
    one: "plan_inv R lans1 sa1" "names_in nf lans1" by (auto simp: names_in_def)
  show ?case
  proof (cases "nf = []")
    case True
    with rest one show ?thesis by simp
  next
    case False
    with rest "2.IH" [OF False _ one] show ?thesis by simp
  qed
qed simp

lemma plan_lans_inv:
  assumes "plan_lans c r sa = Inr (lans, r', sa')"
    and "sa_invar sa" and "sa_free sa \<inter> R = {}"
  shows "plan_inv R lans sa'"
proof -
  let ?dmz = "\<lambda>s. \<lparr>pl_name = ''LAN-00'', pl_subnet = s, pl_is_dmz = True,
     pl_parent = None, pl_x = None, pl_y = None\<rparr>"
  from assms(1) obtain s sb where nf: "SubnetAllocator_next_free sa = (Inr s, sb)"
    and rec: "plan_levels (cfg_depth c) (cfg_branching_factor c) [?dmz s] [?dmz s] r sb = Inr (lans, r', sa')"
    by (auto simp: plan_lans_def Let_def split: prod.splits sum.splits)
  from subnets.next_free_InrD [OF assms(2) nf] have s: "s \<in> sa_free sa" "sa_free sb = sa_free sa - {s}"
    "sa_invar sb" by simp_all
  have "''LAN-00'' = lan_name 0" by code_simp
  with s assms(3) sa_free_net24 [OF assms(2) s(1)] have "plan_inv R [?dmz s] sb"
    by (auto simp: plan_inv_def lans_wf_def)
  with plan_levels_inv [OF rec this] show ?thesis
    using \<open>''LAN-00'' = lan_name 0\<close> by (simp add: names_in_def)
qed

section \<open>The decky placement is well formed\<close>

definition used :: "(string, ip_allocator) dict \<Rightarrow> string \<Rightarrow> string \<Rightarrow> bool" where
  "used allocs k ip \<longleftrightarrow> (\<exists>a. map_of allocs k = Some a \<and> ip \<in> set (ia_pool a) - ia_free a)"

definition memb :: "planned_edge list \<Rightarrow> (string \<times> string) set" where
  "memb es = (\<lambda>e. (pe_decky_name e, pe_lan_name e)) ` set es"

definition allocs_ok :: "planned_lan list \<Rightarrow> (string, ip_allocator) dict \<Rightarrow> bool" where
  "allocs_ok lans allocs \<longleftrightarrow>
     fst ` set allocs = pl_name ` set lans \<and>
     (\<forall>l \<in> set lans. \<exists>a. map_of allocs (pl_name l) = Some a \<and> ia_invar a \<and>
        parse_net False (pl_subnet l) = Inr (ia_net a))"

definition decky_ok :: "string set \<Rightarrow> (string, ip_allocator) dict \<Rightarrow> planned_edge list \<Rightarrow> planned_decky \<Rightarrow> bool" where
  "decky_ok S allocs es d \<longleftrightarrow>
     pd_ips_by_lan d \<noteq> [] \<and> distinct (map fst (pd_ips_by_lan d)) \<and>
     (\<forall>(k, ip) \<in> set (pd_ips_by_lan d). used allocs k ip) \<and>
     (\<forall>k. k \<in> fst ` set (pd_ips_by_lan d) \<longleftrightarrow> (pd_name d, k) \<in> memb es) \<and>
     set (pd_services d) \<subseteq> S \<and> pd_service_config d = []"

definition ips_unique :: "planned_decky list \<Rightarrow> bool" where
  "ips_unique ds \<longleftrightarrow> (\<forall>d \<in> set ds. \<forall>d' \<in> set ds. \<forall>k ip.
     (k, ip) \<in> set (pd_ips_by_lan d) \<longrightarrow> (k, ip) \<in> set (pd_ips_by_lan d') \<longrightarrow> pd_name d = pd_name d')"

definition gen_wf :: "string set \<Rightarrow> planned_lan list \<Rightarrow> gen_state \<Rightarrow> bool" where
  "gen_wf S lans st \<longleftrightarrow>
     map pd_name (g_deckies st) = map decky_name [1..<Suc (g_counter st)] \<and>
     allocs_ok lans (g_allocs st) \<and>
     (\<forall>d \<in> set (g_deckies st). decky_ok S (g_allocs st) (g_edges st) d) \<and>
     ips_unique (g_deckies st) \<and>
     fst ` memb (g_edges st) \<subseteq> pd_name ` set (g_deckies st)"

lemmas gen_wf_defs = gen_wf_def decky_ok_def ips_unique_def

lemma gen_wf_rng [simp]: "gen_wf S lans (st\<lparr>g_rng := r\<rparr>) = gen_wf S lans st"
  by (simp add: gen_wf_def)

lemma gen_wf_seen [simp]: "gen_wf S lans (st\<lparr>g_rng := r, g_seen := x\<rparr>) = gen_wf S lans st"
  by (simp add: gen_wf_def)

lemma memb_append [simp]: "memb (es @ fs) = memb es \<union> memb fs"
  by (auto simp: memb_def)

lemma memb_single [simp]: "memb [e] = {(pe_decky_name e, pe_lan_name e)}"
  by (simp add: memb_def)

lemma memb_flags [simp]:
  "memb (map (\<lambda>e. if P e then e\<lparr>pe_is_bridge := b e, pe_forwards_l3 := f e\<rparr> else e) es) = memb es"
  unfolding memb_def set_map image_image by (intro image_cong) auto

text \<open>Taking an address: it is new in its LAN, and everything used stays used.\<close>

lemma take_ip_step:
  assumes "take_ip k st = Inr (ip, st')" and "allocs_ok lans (g_allocs st)"
  shows "\<exists>allocs. st' = st\<lparr>g_allocs := allocs\<rparr> \<and> allocs_ok lans allocs \<and> used allocs k ip \<and>
    \<not> used (g_allocs st) k ip \<and> (\<forall>k' ip'. used (g_allocs st) k' ip' \<longrightarrow> used allocs k' ip') \<and>
    k \<in> pl_name ` set lans"
proof -
  from assms(1) obtain a a' where a: "map_of (g_allocs st) k = Some a"
    "IPAllocator_next_free a = (Inr ip, a')"
    and st': "st' = st\<lparr>g_allocs := AList.update k a' (g_allocs st)\<rparr>"
    by (auto simp: take_ip_def split: option.splits prod.splits sum.splits)
  from a(1) have "k \<in> fst ` set (g_allocs st)" by (metis map_of_eq_None_iff option.distinct(1))
  with assms(2) have k: "k \<in> pl_name ` set lans" by (simp add: allocs_ok_def)
  with assms(2) a(1) have inv: "ia_invar a" by (auto simp: allocs_ok_def)
  from ipalloc.next_free_InrD [OF inv a(2)] have ip: "ip \<in> ia_free a" "ia_free a' = ia_free a - {ip}"
    "ia_invar a'" by simp_all
  have pool: "set (ia_pool a') = set (ia_pool a)" using ipalloc.range_next_free [OF inv] a(2) by simp
  have net: "ia_net a' = ia_net a" using next_free_frame [of a] a(2) by (metis (no_types, lifting)
      ip_allocator.select_convs(1) ip_allocator.surjective ip_allocator.update_convs(5,6) snd_conv)
  have "allocs_ok lans (AList.update k a' (g_allocs st))"
    unfolding allocs_ok_def
  proof (intro conjI ballI)
    show "fst ` set (AList.update k a' (g_allocs st)) = pl_name ` set lans"
      using assms(2) k by (auto simp: allocs_ok_def dom_update)
    fix l assume "l \<in> set lans"
    with assms(2) obtain b where "map_of (g_allocs st) (pl_name l) = Some b" "ia_invar b"
      "parse_net False (pl_subnet l) = Inr (ia_net b)" by (auto simp: allocs_ok_def)
    with a(1) ip(3) net show "\<exists>a. map_of (AList.update k a' (g_allocs st)) (pl_name l) = Some a \<and>
        ia_invar a \<and> parse_net False (pl_subnet l) = Inr (ia_net a)"
      by (cases "pl_name l = k") auto
  qed
  moreover have "used (AList.update k a' (g_allocs st)) k ip"
    using ip pool by (auto simp: used_def ia_free_def)
  moreover have "\<not> used (g_allocs st) k ip" using ip a(1) by (auto simp: used_def)
  moreover have "used (AList.update k a' (g_allocs st)) k' ip'" if "used (g_allocs st) k' ip'" for k' ip'
    using that a(1) ip pool by (auto simp: used_def)
  ultimately show ?thesis using st' k by blast
qed

text \<open>The loop picks one to three different services of the pool.\<close>

lemma pick_loop_sound:
  assumes "pick_loop pool seen n r = Inr (svcs, r')"
  shows "set svcs \<subseteq> set pool \<and> distinct svcs \<and> svcs \<noteq> [] \<and> length svcs \<le> SVC_MAX"
  using assms
proof (induction pool seen n r rule: pick_loop.induct)
  case (1 pool seen n r)
  from "1.prems" obtain cnt r1 ch r2 where rs: "randint SVC_MIN (min SVC_MAX (length pool)) r = Inr (cnt, r1)"
    "sample pool cnt r1 = Inr (ch, r2)"
    and res: "(if set ch \<notin> seen \<or> 20 < n + 1 then Inr (remdups ch, r2)
      else pick_loop pool seen (n + 1) r2) = Inr (svcs, r')"
    by (subst (asm) pick_loop.simps) auto
  show ?case
  proof (cases "set ch \<notin> seen \<or> 20 < n + 1")
    case True
    from randint_Inr [OF rs(1)] sample_length [OF rs(2)] have "ch \<noteq> []" "length ch \<le> SVC_MAX" by (auto simp: SVC_MIN_def)
    with True res sample_subset [OF rs(2)] length_remdups_leq [of ch] show ?thesis by auto
  next
    case False
    with res "1.IH" rs show ?thesis by auto
  qed
qed

lemma pick_services_step:
  assumes "pick_services ex pool st = Inr (svcs, st')"
    and "set pool \<subseteq> S" and "\<And>xs. ex = Some xs \<Longrightarrow> set xs \<subseteq> S"
  shows "set svcs \<subseteq> S \<and> (\<exists>r x. st' = st\<lparr>g_rng := r, g_seen := x\<rparr>)"
proof -
  show ?thesis
  proof (cases "ex = None \<or> ex = Some []")
    case False
    then obtain s ss where ex: "ex = Some (s # ss)" by (cases ex) (auto simp: neq_Nil_conv)
    with assms(1) have "svcs = s # ss" "st' = st" by (simp_all add: pick_services_def)
    moreover have "st = st\<lparr>g_rng := g_rng st, g_seen := g_seen st\<rparr>" by simp
    ultimately show ?thesis using assms(3) [OF ex] by metis
  next
    case True
    show ?thesis
    proof (cases "pool = []")
      case True
      with \<open>ex = None \<or> ex = Some []\<close> assms(1) have "svcs = []" "st' = st"
        by (auto simp: pick_services_def)
      moreover have "st = st\<lparr>g_rng := g_rng st, g_seen := g_seen st\<rparr>" by simp
      ultimately show ?thesis by (metis empty_set empty_subsetI)
    next
      case False
      with True assms(1) obtain r' where "pick_loop pool (g_seen st) 0 (g_rng st) = Inr (svcs, r')"
        and "st' = st\<lparr>g_rng := r', g_seen := insert (set svcs) (g_seen st)\<rparr>"
        by (auto simp: pick_services_def)
      with pick_loop_sound assms(2) show ?thesis by blast
    qed
  qed
qed

lemma ips_unique_snoc:
  assumes "ips_unique ds" and "\<And>e. e \<in> set ds \<Longrightarrow> set (pd_ips_by_lan e) \<inter> set (pd_ips_by_lan d) = {}"
  shows "ips_unique (ds @ [d])"
  unfolding ips_unique_def
proof (intro ballI allI impI)
  fix x y k ip
  assume "x \<in> set (ds @ [d])" "y \<in> set (ds @ [d])"
    and mem: "(k, ip) \<in> set (pd_ips_by_lan x)" "(k, ip) \<in> set (pd_ips_by_lan y)"
  then consider "x = d" "y = d" | "x = d" "y \<in> set ds" | "x \<in> set ds" "y = d" | "x \<in> set ds" "y \<in> set ds"
    by auto
  then show "pd_name x = pd_name y"
    using assms mem unfolding ips_unique_def by cases blast+
qed

lemma place_decky_step:
  assumes "place_decky k c pool st = Inr st'" and wf: "gen_wf S lans st"
    and S: "set pool \<subseteq> S" "\<And>xs. cfg_services_explicit c = Some xs \<Longrightarrow> set xs \<subseteq> S"
  shows "gen_wf S lans st' \<and>
    memb (g_edges st') = insert (decky_name (Suc (g_counter st)), k) (memb (g_edges st))"
proof -
  define n where "n = decky_name (Suc (g_counter st))"
  from assms(1) obtain svcs st2 ip st3 where
    pick: "pick_services (cfg_services_explicit c) pool (st\<lparr>g_counter := g_counter st + 1\<rparr>) = Inr (svcs, st2)"
    and take: "take_ip k st2 = Inr (ip, st3)"
    and st': "st' = st3\<lparr>g_deckies := g_deckies st3 @ [\<lparr>pd_name = n, pd_services = svcs,
        pd_ips_by_lan = [(k, ip)], pd_forwards_l3 = False, pd_service_config = [], pd_x = None, pd_y = None\<rparr>],
      g_edges := g_edges st3 @ [\<lparr>pe_decky_name = n, pe_lan_name = k, pe_is_bridge = False, pe_forwards_l3 = False\<rparr>]\<rparr>"
    by (auto simp: place_decky_def new_decky_def Let_def n_def)
  from pick_services_step [OF pick S] obtain r x where svcs: "set svcs \<subseteq> S"
    and st2: "st2 = st\<lparr>g_counter := g_counter st + 1, g_rng := r, g_seen := x\<rparr>" by auto
  from take_ip_step [OF take, of lans] wf st2 obtain allocs where
    st3: "st3 = st2\<lparr>g_allocs := allocs\<rparr>" and al: "allocs_ok lans allocs" "used allocs k ip"
    "\<not> used (g_allocs st) k ip" "\<And>k' ip'. used (g_allocs st) k' ip' \<Longrightarrow> used allocs k' ip'"
    by (auto simp: gen_wf_def)
  have names: "pd_name ` set (g_deckies st) = decky_name ` {1..<Suc (g_counter st)}"
    using wf unfolding gen_wf_def by (metis list.set_map set_upt)
  then have fresh: "n \<notin> pd_name ` set (g_deckies st)" by (auto simp: n_def)
  then have "n \<notin> fst ` memb (g_edges st)" using wf by (auto simp: gen_wf_def)
  then have noedge: "(n, l) \<notin> memb (g_edges st)" for l by force
  have old: "decky_ok S allocs (g_edges st') d" if "d \<in> set (g_deckies st)" for d
    using that wf al(4) fresh st' st3 st2 by (fastforce simp: gen_wf_def decky_ok_def)
  have "ips_unique (g_deckies st')"
  proof -
    have "(k, ip) \<notin> set (pd_ips_by_lan d)" if "d \<in> set (g_deckies st)" for d
      using that wf al(3) by (auto simp: gen_wf_def decky_ok_def)
    with wf st' st3 st2 show ?thesis by (auto simp: gen_wf_def intro!: ips_unique_snoc)
  qed
  moreover have "\<forall>d \<in> set (g_deckies st'). decky_ok S (g_allocs st') (g_edges st') d"
    using old al(2) svcs noedge st' st3 st2 by (auto simp: decky_ok_def)
  ultimately have "gen_wf S lans st'"
    using wf al(1) st' st3 st2 by (auto simp: gen_wf_def n_def)
  with st' st3 st2 show ?thesis by (simp add: n_def)
qed

lemma multi_home_step:
  assumes "multi_home c name k st = Inr st'" and wf: "gen_wf S lans st"
    and name: "name \<in> pd_name ` set (g_deckies st)"
  shows "gen_wf S lans st' \<and> memb (g_edges st') = insert (name, k) (memb (g_edges st)) \<and>
    map pd_name (g_deckies st') = map pd_name (g_deckies st)"
proof -
  from assms(1) obtain ip st1 where take: "take_ip k st = Inr (ip, st1)"
    by (auto simp: multi_home_def)
  obtain u r where ru: "random_unit (g_rng st1) = (u, r)" by fastforce
  define fwd where "fwd = (case find (\<lambda>d. pd_name d = name) (g_deckies st1) of
    Some d \<Rightarrow> pd_forwards_l3 d \<or> u < cfg_bridge_forward_probability c
    | None \<Rightarrow> u < cfg_bridge_forward_probability c)"
  from assms(1) take ru have st': "st' = st1\<lparr>g_rng := r, g_deckies := update_named name
        (\<lambda>d. d\<lparr>pd_ips_by_lan := AList.update k ip (pd_ips_by_lan d), pd_forwards_l3 := fwd\<rparr>) (g_deckies st1),
      g_edges := map (\<lambda>e. if pe_decky_name e = name then e\<lparr>pe_is_bridge := True, pe_forwards_l3 := fwd\<rparr> else e)
        (g_edges st1) @ [\<lparr>pe_decky_name = name, pe_lan_name = k, pe_is_bridge = True, pe_forwards_l3 = fwd\<rparr>]\<rparr>"
    by (simp add: multi_home_def Let_def flip: fwd_def cong: if_cong)
  from take_ip_step [OF take, of lans] wf obtain allocs where
    st1: "st1 = st\<lparr>g_allocs := allocs\<rparr>" and al: "allocs_ok lans allocs" "used allocs k ip"
    "\<not> used (g_allocs st) k ip" "\<And>k' ip'. used (g_allocs st) k' ip' \<Longrightarrow> used allocs k' ip'"
    by (auto simp: gen_wf_def)
  let ?f = "\<lambda>d. if pd_name d = name
    then d\<lparr>pd_ips_by_lan := AList.update k ip (pd_ips_by_lan d), pd_forwards_l3 := fwd\<rparr> else d"
  have ds: "g_deckies st' = map ?f (g_deckies st)" using st' st1 by (simp add: update_named_def)
  have nm: "pd_name (?f d) = pd_name d" for d by simp
  have names: "map pd_name (g_deckies st') = map pd_name (g_deckies st)" unfolding ds by simp
  have mb: "memb (g_edges st') = insert (name, k) (memb (g_edges st))" using st' st1 by simp
  have new: "(k', ip') \<in> set (AList.update k ip xs) \<Longrightarrow> (k', ip') = (k, ip) \<or> (k', ip') \<in> set xs" for k' ip' xs
    using update_conv' [of k ip xs] by (induction xs) (auto split: if_splits)
  have not_k: "(k, ip) \<notin> set (pd_ips_by_lan d)" if "d \<in> set (g_deckies st)" for d
    using that wf al(3) by (auto simp: gen_wf_def decky_ok_def)
  have "decky_ok S allocs (g_edges st') (?f d)" if "d \<in> set (g_deckies st)" for d
  proof -
    from that wf have d: "decky_ok S (g_allocs st) (g_edges st) d" by (simp add: gen_wf_def)
    then have "used allocs k' ip'" if "(k', ip') \<in> set (pd_ips_by_lan d)" for k' ip'
      using that al(4) by (auto simp: decky_ok_def)
    with d al(2) show ?thesis
      unfolding decky_ok_def mb by (auto simp: dom_update distinct_update dest!: new)
  qed
  then have "\<forall>d \<in> set (g_deckies st'). decky_ok S allocs (g_edges st') d"
    unfolding ds set_map ball_simps by blast
  moreover have "ips_unique (g_deckies st')"
    unfolding ds ips_unique_def
  proof (intro ballI allI impI)
    fix d1 d2 k' ip'
    assume mem: "d1 \<in> set (map ?f (g_deckies st))" "d2 \<in> set (map ?f (g_deckies st))"
      "(k', ip') \<in> set (pd_ips_by_lan d1)" "(k', ip') \<in> set (pd_ips_by_lan d2)"
    from mem(1,2) obtain e1 e2 where e: "e1 \<in> set (g_deckies st)" "d1 = ?f e1"
      "e2 \<in> set (g_deckies st)" "d2 = ?f e2" by auto
    have "(k', ip') \<in> set (pd_ips_by_lan e) \<or> (k', ip') = (k, ip) \<and> pd_name e = name"
      if "(k', ip') \<in> set (pd_ips_by_lan (?f e))" for e
      using that by (auto split: if_splits dest!: new)
    with mem(3,4) e have "((k', ip') \<in> set (pd_ips_by_lan e1) \<or> (k', ip') = (k, ip) \<and> pd_name e1 = name) \<and>
        ((k', ip') \<in> set (pd_ips_by_lan e2) \<or> (k', ip') = (k, ip) \<and> pd_name e2 = name)" by blast
    with not_k e wf have "pd_name e1 = pd_name e2"
      unfolding gen_wf_def ips_unique_def by (metis prod.inject)
    with e show "pd_name d1 = pd_name d2" by simp
  qed
  moreover have "fst ` memb (g_edges st') \<subseteq> pd_name ` set (g_deckies st')"
    using wf name names unfolding mb gen_wf_def by (metis image_insert insert_subset fst_conv list.set_map)
  moreover have "g_allocs st' = allocs" "g_counter st' = g_counter st" using st' st1 by simp_all
  ultimately have "gen_wf S lans st'"
    using wf al(1) names unfolding gen_wf_def by (simp only: simp_thms)
  with mb names show ?thesis by simp
qed

section \<open>Every generated plan is well formed\<close>

definition lan_of :: "planned_lan list \<Rightarrow> string \<Rightarrow> planned_lan option" where
  "lan_of lans k = find (\<lambda>l. pl_name l = k) lans"

text \<open>An address of a plan is a host of its LAN's subnet other than the gateway.\<close>

definition good_ip :: "string \<Rightarrow> string \<Rightarrow> bool" where
  "good_ip subnet ip \<longleftrightarrow> (\<exists>n x. net_wf n \<and> subnet = net_str n \<and> x \<in> set (hosts n) \<and>
     ip = ip_str x \<and> ip \<noteq> ip_str (hd (hosts n)))"

definition plan_wf :: "string set \<Rightarrow> string set \<Rightarrow> generated_topology \<Rightarrow> bool" where
  "plan_wf S reserved p \<longleftrightarrow>
     lans_wf reserved (gt_lans p) \<and>
     distinct (map pd_name (gt_deckies p)) \<and>
     (\<forall>d \<in> set (gt_deckies p).
        pd_ips_by_lan d \<noteq> [] \<and> distinct (map fst (pd_ips_by_lan d)) \<and>
        (\<forall>(k, ip) \<in> set (pd_ips_by_lan d). \<exists>l \<in> set (gt_lans p). pl_name l = k \<and> good_ip (pl_subnet l) ip) \<and>
        (\<forall>k. k \<in> fst ` set (pd_ips_by_lan d) \<longleftrightarrow> (pd_name d, k) \<in> memb (gt_edges p)) \<and>
        set (pd_services d) \<subseteq> S \<and> pd_service_config d = []) \<and>
     ips_unique (gt_deckies p) \<and>
     fst ` memb (gt_edges p) \<subseteq> pd_name ` set (gt_deckies p) \<and>
     (\<forall>l \<in> set (gt_lans p). \<exists>d. (d, pl_name l) \<in> memb (gt_edges p)) \<and>
     (\<forall>l \<in> set (gt_lans p). \<forall>q. pl_parent l = Some q \<and> \<not> pl_is_dmz l \<longrightarrow>
        (\<exists>d. (d, pl_name l) \<in> memb (gt_edges p) \<and> (d, q) \<in> memb (gt_edges p)))"

lemma make_allocs_step:
  "make_allocs lans d = Inr d' \<Longrightarrow> distinct (map pl_name lans) \<Longrightarrow>
   fst ` set d' = fst ` set d \<union> pl_name ` set lans \<and>
   (\<forall>k. k \<notin> pl_name ` set lans \<longrightarrow> map_of d' k = map_of d k) \<and>
   (\<forall>l \<in> set lans. \<exists>a. map_of d' (pl_name l) = Some a \<and> ia_invar a \<and>
      parse_net False (pl_subnet l) = Inr (ia_net a))"
proof (induction lans arbitrary: d)
  case (Cons l lans)
  from Cons.prems obtain a where a: "IPAllocator_init (pl_subnet l) = Inr a"
    and rec: "make_allocs lans (AList.update (pl_name l) a d) = Inr d'" by auto
  from IPAllocator_init_invar [OF a] have "ia_invar a" "parse_net False (pl_subnet l) = Inr (ia_net a)"
    by simp_all
  with Cons.IH [OF rec] Cons.prems(2) show ?case by (auto simp: dom_update)
qed simp

lemma populate_lan_step:
  assumes "populate_lan c pool lan st = Inr st'" and wf: "gen_wf S lans st"
    and S: "set pool \<subseteq> S" "\<And>xs. cfg_services_explicit c = Some xs \<Longrightarrow> set xs \<subseteq> S"
  shows "gen_wf S lans st' \<and> memb (g_edges st) \<subseteq> memb (g_edges st') \<and>
    (\<exists>d. (d, pl_name lan) \<in> memb (g_edges st'))"
proof -
  from assms(1) obtain count r where
    cnt: "(if pl_is_dmz lan then Inr (1, g_rng st)
       else bindE (randint (cfg_deckies_per_lan_min c) (cfg_deckies_per_lan_max c) (g_rng st))
         (\<lambda>(count, r'). Inr (if count < 1 then 1 else count, r'))) = Inr (count, r)"
    and fold: "foldE (\<lambda>_. place_decky (pl_name lan) c pool) [0..<count] (st\<lparr>g_rng := r\<rparr>) = Inr st'"
    by (auto simp: populate_lan_def simp del: foldE.simps elim!: bindE_InrE [of "If _ _ _"])
  from cnt have pos: "0 < count" by (auto split: if_splits)
  let ?P = "\<lambda>xs t. gen_wf S lans t \<and> memb (g_edges st) \<subseteq> memb (g_edges t) \<and>
    (xs \<noteq> [] \<longrightarrow> (\<exists>d. (d, pl_name lan) \<in> memb (g_edges t)))"
  have "?P [0..<count] st'"
    by (rule foldE_invariant [OF fold, where P = ?P])
      (use wf in simp, use place_decky_step [OF _ _ S] in blast)
  with pos show ?thesis by simp
qed

lemma populate_all:
  assumes "foldE (populate_lan c pool) lans st = Inr st'" and wf: "gen_wf S lans st"
    and S: "set pool \<subseteq> S" "\<And>xs. cfg_services_explicit c = Some xs \<Longrightarrow> set xs \<subseteq> S"
  shows "gen_wf S lans st' \<and> (\<forall>l \<in> set lans. \<exists>d. (d, pl_name l) \<in> memb (g_edges st'))"
proof -
  let ?P = "\<lambda>xs t. gen_wf S lans t \<and> (\<forall>l \<in> set xs. \<exists>d. (d, pl_name l) \<in> memb (g_edges t))"
  have "?P lans st'"
  proof (rule foldE_invariant [OF assms(1), where P = ?P])
    show "?P (ys @ [x]) t'" if "?P ys t" "populate_lan c pool x t = Inr t'" for ys x t t'
      using populate_lan_step [OF that(2) _ S] that(1) by fastforce
  qed (use wf in simp)
  then show ?thesis .
qed

definition cands_in :: "(string, string list) dict \<Rightarrow> planned_edge list \<Rightarrow> bool" where
  "cands_in by_lan es \<longleftrightarrow>
     (\<forall>k xs. map_of by_lan k = Some xs \<longrightarrow> (\<forall>x \<in> set xs. (x, k) \<in> memb es))"

lemma cands_in_mono: "cands_in by_lan es \<Longrightarrow> memb es \<subseteq> memb fs \<Longrightarrow> cands_in by_lan fs"
  unfolding cands_in_def by blast

lemma deckies_by_lan_sound:
  assumes "deckies_by_lan lans ds es = Inr by_lan" and "distinct (map pl_name lans)"
  shows "cands_in by_lan es"
proof -
  let ?P = "\<lambda>es' d. \<forall>k xs. map_of d k = Some xs \<longrightarrow> (\<forall>x \<in> set xs. (x, k) \<in> memb es')"
  have "?P es by_lan"
  proof (rule foldE_invariant [OF assms(1) [unfolded deckies_by_lan_def], where P = ?P])
    show "?P [] (dict_of pl_name (\<lambda>_. []) lans)"
      using assms(2) by (auto simp: dict_of_distinct dest!: map_of_SomeD)
  next
    fix ys zs d d' and e :: planned_edge
    assume P: "?P ys d" and step: "(case map_of d (pe_lan_name e) of None \<Rightarrow> Inl KeyError
       | Some xs \<Rightarrow> (case find (\<lambda>x. pd_name x = pe_decky_name e) ds of None \<Rightarrow> Inl StopIteration
           | Some x \<Rightarrow> Inr (AList.update (pe_lan_name e) (xs @ [pd_name x]) d))) = Inr d'"
    from step obtain xs y where xs: "map_of d (pe_lan_name e) = Some xs"
      and y: "find (\<lambda>x. pd_name x = pe_decky_name e) ds = Some y"
      and d': "d' = AList.update (pe_lan_name e) (xs @ [pd_name y]) d"
      by (auto split: option.splits)
    from find_Some_set [OF y] have "pd_name y = pe_decky_name e" by simp
    with P xs d' show "?P (ys @ [e]) d'" by (auto split: if_splits)
  qed
  then show ?thesis by (simp add: cands_in_def)
qed

lemma bridge_lan_step:
  assumes "bridge_lan c by_lan lan st = Inr st'" and wf: "gen_wf S lans st"
    and by_lan: "cands_in by_lan (g_edges st)"
  shows "gen_wf S lans st' \<and> memb (g_edges st) \<subseteq> memb (g_edges st') \<and>
    (\<forall>q. pl_parent lan = Some q \<and> \<not> pl_is_dmz lan \<longrightarrow>
       (\<exists>d. (d, pl_name lan) \<in> memb (g_edges st') \<and> (d, q) \<in> memb (g_edges st')))"
proof (cases "pl_parent lan = None \<or> pl_is_dmz lan")
  case True
  with assms(1) have "st' = st" by (auto simp: bridge_lan_def split: option.splits)
  with True wf show ?thesis by auto
next
  case False
  then obtain q where q: "pl_parent lan = Some q" "\<not> pl_is_dmz lan" by auto
  with assms(1) obtain cands b r where c: "map_of by_lan (pl_name lan) = Some cands"
    "choice cands (g_rng st) = Inr (b, r)" and mh: "multi_home c b q (st\<lparr>g_rng := r\<rparr>) = Inr st'"
    by (auto simp: bridge_lan_def dict_index_def split: option.splits)
  from by_lan c(1) choice_Inr [OF c(2)] have b: "(b, pl_name lan) \<in> memb (g_edges st)"
    unfolding cands_in_def by blast
  then have "b \<in> pd_name ` set (g_deckies st)" using wf by (force simp: gen_wf_def)
  with multi_home_step [OF mh, of S lans] wf b q show ?thesis by auto
qed

lemma cross_lan_step:
  assumes "cross_lan c lans by_lan lan st = Inr st'" and wf: "gen_wf S lans st"
    and by_lan: "cands_in by_lan (g_edges st)"
  shows "gen_wf S lans st' \<and> memb (g_edges st) \<subseteq> memb (g_edges st')"
proof -
  have "(\<exists>r. st' = st\<lparr>g_rng := r\<rparr>) \<or> (\<exists>cands b r r' (peer :: planned_lan). map_of by_lan (pl_name lan) = Some cands \<and>
      choice cands r = Inr (b, r') \<and> multi_home c b (pl_name peer) (st\<lparr>g_rng := r'\<rparr>) = Inr st')"
  proof (cases "pl_is_dmz lan")
    case True
    with assms(1) have "st' = st\<lparr>g_rng := g_rng st\<rparr>" by (simp add: cross_lan_def)
    then show ?thesis by blast
  next
    case False
    obtain u r1 where ru: "random_unit (g_rng st) = (u, r1)" by fastforce
    show ?thesis
    proof (cases "u \<ge> cfg_cross_edge_probability c \<or> cross_peers lans lan = []")
      case True
      with False ru assms(1) have "st' = st\<lparr>g_rng := r1\<rparr>"
        by (auto simp: cross_lan_def Let_def split: if_splits)
      then show ?thesis by blast
    next
      case no: False
      define last where "last = (\<lambda>(peer :: planned_lan) b r3. if \<exists>d \<in> set (g_deckies st). pd_name d = b \<and>
          pl_name peer \<in> fst ` set (pd_ips_by_lan d)
        then Inr (st\<lparr>g_rng := r3\<rparr>) else multi_home c b (pl_name peer) (st\<lparr>g_rng := r3\<rparr>))"
      from no False ru assms(1) have "bindE (choice (cross_peers lans lan) r1) (\<lambda>(peer, r2).
          bindE (dict_index by_lan (pl_name lan)) (\<lambda>cands.
            bindE (choice cands r2) (\<lambda>(b, r3). last peer b r3))) = Inr st'"
        by (simp add: cross_lan_def Let_def last_def cong: if_cong)
      then have "\<exists>peer r2 cands b r3. dict_index by_lan (pl_name lan) = Inr cands \<and>
          choice cands r2 = Inr (b, r3) \<and> last peer b r3 = Inr st'"
        by (elim bindE_InrE) (clarsimp, blast)
      then obtain peer r2 cands b r3 where ch: "map_of by_lan (pl_name lan) = Some cands"
        "choice cands r2 = Inr (b, r3)" and la: "last peer b r3 = Inr st'"
        unfolding dict_index_Inr by blast
      from la consider "st' = st\<lparr>g_rng := r3\<rparr>" | "multi_home c b (pl_name peer) (st\<lparr>g_rng := r3\<rparr>) = Inr st'"
        unfolding last_def by (metis Inr_inject)
      then show ?thesis using ch by cases blast+
    qed
  qed
  then consider r where "st' = st\<lparr>g_rng := r\<rparr>"
    | cands b r r' and peer :: planned_lan where "map_of by_lan (pl_name lan) = Some cands" "choice cands r = Inr (b, r')"
        "multi_home c b (pl_name peer) (st\<lparr>g_rng := r'\<rparr>) = Inr st'"
    by blast
  then show ?thesis
  proof cases
    case 1
    with wf show ?thesis by simp
  next
    case 2
    from by_lan 2(1) choice_Inr [OF 2(2)] have "(b, pl_name lan) \<in> memb (g_edges st)"
      unfolding cands_in_def by blast
    then have "b \<in> pd_name ` set (g_deckies st)" using wf by (force simp: gen_wf_def)
    with multi_home_step [OF 2(3), of S lans] wf show ?thesis by auto
  qed
qed

lemma used_good_ip:
  assumes "allocs_ok lans allocs" and "used allocs k ip"
    and "\<forall>l \<in> set lans. \<exists>n. net_wf n \<and> net_prefix n = 24 \<and> pl_subnet l = net_str n"
  shows "\<exists>l \<in> set lans. pl_name l = k \<and> good_ip (pl_subnet l) ip"
proof -
  from assms(2) obtain a where a: "map_of allocs k = Some a" "ip \<in> set (ia_pool a)"
    by (auto simp: used_def)
  then have "k \<in> fst ` set allocs" by (metis map_of_eq_None_iff option.distinct(1))
  with assms(1) obtain l where l: "l \<in> set lans" "pl_name l = k" by (auto simp: allocs_ok_def)
  with assms(1) a(1) have inv: "ia_invar a" and net: "parse_net False (pl_subnet l) = Inr (ia_net a)"
    by (auto simp: allocs_ok_def)
  from assms(3) l obtain n where n: "net_wf n" "pl_subnet l = net_str n" by blast
  with net have "ia_net a = n" by simp
  with inv a(2) n l show ?thesis by (auto simp: ia_invar_def good_ip_def)
qed

lemma generate_plan_wf:
  assumes "generate names c reserved r = Inr p"
    and "cfg_randomize_services c \<Longrightarrow> set names \<subseteq> S"
    and "\<And>xs. cfg_services_explicit c = Some xs \<Longrightarrow> set xs \<subseteq> S"
  shows "plan_wf S reserved p"
proof -
  define pool where "pool = (if cfg_randomize_services c then names else [])"
  let ?st0 = "\<lambda>r1 allocs. \<lparr>g_rng = r1, g_counter = 0, g_seen = {}, g_allocs = allocs, g_deckies = [], g_edges = []\<rparr>"
  from assms(1) obtain sa lans r1 sb allocs st1 by_lan st2 st3 where
    sa: "SubnetAllocator_init (cfg_subnet_base_prefix c) reserved = Inr sa"
    and lans: "plan_lans c r sa = Inr (lans, r1, sb)"
    and allocs: "make_allocs lans [] = Inr allocs"
    and pop: "foldE (populate_lan c pool) lans (?st0 r1 allocs) = Inr st1"
    and by_lan: "deckies_by_lan lans (g_deckies st1) (g_edges st1) = Inr by_lan"
    and br: "foldE (bridge_lan c by_lan) lans st1 = Inr st2"
    and cr: "(if cfg_cross_edge_probability c > 0 then foldE (cross_lan c lans by_lan) lans st2 else Inr st2) = Inr st3"
    and p: "p = \<lparr>gt_config = c, gt_lans = lans, gt_deckies = g_deckies st3, gt_edges = g_edges st3\<rparr>"
    unfolding generate_def Let_def pool_def by (auto simp del: foldE.simps)
  have S: "set pool \<subseteq> S" using assms(2) by (auto simp: pool_def)
  from SubnetAllocator_init_invar [OF sa] have "sa_invar sa" "sa_reserved sa = reserved" by simp_all
  then have "plan_inv reserved lans sb" by (intro plan_lans_inv [OF lans]) (auto simp: sa_free_def)
  then have lwf: "lans_wf reserved lans" by (simp add: plan_inv_def)
  from make_allocs_step [OF allocs lans_wf_names [OF lwf]] have "gen_wf S lans (?st0 r1 allocs)"
    by (auto simp: gen_wf_def allocs_ok_def ips_unique_def memb_def)
  from populate_all [OF pop this S assms(3)] have w1: "gen_wf S lans st1"
    and home: "\<forall>l \<in> set lans. \<exists>d. (d, pl_name l) \<in> memb (g_edges st1)" by blast+
  have bl: "cands_in by_lan (g_edges st1)"
    using deckies_by_lan_sound [OF by_lan lans_wf_names [OF lwf]] .
  let ?B = "\<lambda>xs t. gen_wf S lans t \<and> memb (g_edges st1) \<subseteq> memb (g_edges t) \<and>
    (\<forall>l \<in> set xs. \<forall>q. pl_parent l = Some q \<and> \<not> pl_is_dmz l \<longrightarrow>
       (\<exists>d. (d, pl_name l) \<in> memb (g_edges t) \<and> (d, q) \<in> memb (g_edges t)))"
  have w2: "?B lans st2"
  proof (rule foldE_invariant [OF br, where P = ?B])
    show "?B (ys @ [x]) t'" if "?B ys t" "bridge_lan c by_lan x t = Inr t'" for ys x t t'
    proof -
      from that(1) bl have *: "cands_in by_lan (g_edges t)" by (blast intro: cands_in_mono)
      from bridge_lan_step [OF that(2) _ *, of S lans] that(1)
      have n: "gen_wf S lans t'" "memb (g_edges t) \<subseteq> memb (g_edges t')"
        "\<forall>q. pl_parent x = Some q \<and> \<not> pl_is_dmz x \<longrightarrow>
          (\<exists>d. (d, pl_name x) \<in> memb (g_edges t') \<and> (d, q) \<in> memb (g_edges t'))" by blast+
      show ?thesis
      proof (intro conjI ballI allI impI)
        fix l q assume "l \<in> set (ys @ [x])" "pl_parent l = Some q \<and> \<not> pl_is_dmz l"
        then show "\<exists>d. (d, pl_name l) \<in> memb (g_edges t') \<and> (d, q) \<in> memb (g_edges t')"
          using that(1) n by (cases "l = x") (simp, metis (no_types, lifting) UnE empty_iff in_mono
              insert_iff list.set(1,2) set_append)
      qed (use that(1) n in auto)
    qed
  qed (use w1 in simp)
  have w3: "?B lans st3"
  proof (cases "cfg_cross_edge_probability c > 0")
    case True
    with cr have cr: "foldE (cross_lan c lans by_lan) lans st2 = Inr st3" by simp
    show ?thesis
    proof (rule foldE_invariant [OF cr, where P = "\<lambda>_. ?B lans"])
      show "?B lans t'" if "?B lans t" "cross_lan c lans by_lan x t = Inr t'" for x t t'
      proof -
        from that(1) bl have *: "cands_in by_lan (g_edges t)" by (blast intro: cands_in_mono)
        from cross_lan_step [OF that(2) _ *, of S] that(1)
        have "gen_wf S lans t'" "memb (g_edges t) \<subseteq> memb (g_edges t')" by blast+
        with that(1) show ?thesis by (meson subset_iff)
      qed
    qed (rule w2)
  qed (use cr w2 in simp)
  have subs: "\<forall>l \<in> set lans. \<exists>n. net_wf n \<and> net_prefix n = 24 \<and> pl_subnet l = net_str n"
    using lwf by (auto simp: lans_wf_def)
  have g3: "gen_wf S lans st3" using w3 by blast
  have ok: "decky_ok S (g_allocs st3) (g_edges st3) d" if "d \<in> set (g_deckies st3)" for d
    using that g3 by (simp add: gen_wf_def)
  have ips: "\<exists>l \<in> set lans. pl_name l = k \<and> good_ip (pl_subnet l) ip"
    if "d \<in> set (g_deckies st3)" "(k, ip) \<in> set (pd_ips_by_lan d)" for d k ip
  proof (rule used_good_ip [OF _ _ subs])
    show "allocs_ok lans (g_allocs st3)" using g3 by (simp add: gen_wf_def)
    show "used (g_allocs st3) k ip" using ok [OF that(1)] that(2) by (auto simp: decky_ok_def)
  qed
  show ?thesis
    unfolding plan_wf_def p generated_topology.simps
  proof (intro conjI)
    show "lans_wf reserved lans" by (fact lwf)
    show "distinct (map pd_name (g_deckies st3))" using g3 by (simp add: gen_wf_def distinct_map inj_on_def)
    show "\<forall>d \<in> set (g_deckies st3). pd_ips_by_lan d \<noteq> [] \<and> distinct (map fst (pd_ips_by_lan d)) \<and>
        (\<forall>(k, ip) \<in> set (pd_ips_by_lan d). \<exists>l \<in> set lans. pl_name l = k \<and> good_ip (pl_subnet l) ip) \<and>
        (\<forall>k. k \<in> fst ` set (pd_ips_by_lan d) \<longleftrightarrow> (pd_name d, k) \<in> memb (g_edges st3)) \<and>
        set (pd_services d) \<subseteq> S \<and> pd_service_config d = []"
    proof
      fix d assume d: "d \<in> set (g_deckies st3)"
      from ips [OF d] ok [OF d, unfolded decky_ok_def] show "pd_ips_by_lan d \<noteq> [] \<and> distinct (map fst (pd_ips_by_lan d)) \<and>
        (\<forall>(k, ip) \<in> set (pd_ips_by_lan d). \<exists>l \<in> set lans. pl_name l = k \<and> good_ip (pl_subnet l) ip) \<and>
        (\<forall>k. k \<in> fst ` set (pd_ips_by_lan d) \<longleftrightarrow> (pd_name d, k) \<in> memb (g_edges st3)) \<and>
        set (pd_services d) \<subseteq> S \<and> pd_service_config d = []" by blast
    qed
    show "ips_unique (g_deckies st3)" "fst ` memb (g_edges st3) \<subseteq> pd_name ` set (g_deckies st3)"
      using g3 by (simp_all add: gen_wf_def)
    show "\<forall>l \<in> set lans. \<exists>d. (d, pl_name l) \<in> memb (g_edges st3)" using home w3 by blast
  qed (use w3 in blast)
qed

end
