(* ===== verification/Topology_Status.thy ===== *)
theory Topology_Status
  imports Decnet_Prelude
begin

text \<open>
  The status state machine of a MazeNET topology (\<open>decnet/topology/status.py\<close>). Statuses are
  strings, as in the source. \<open>status_step\<close> is the step relation that \<open>assert_transition\<close>
  accepts; the lemmas characterise it, show that \<open>torn_down\<close> is its only terminal state and that
  every known status can be torn down.
\<close>

abbreviation PENDING :: string where "PENDING \<equiv> ''pending''"
abbreviation DEPLOYING :: string where "DEPLOYING \<equiv> ''deploying''"
abbreviation ACTIVE :: string where "ACTIVE \<equiv> ''active''"
abbreviation DEGRADED :: string where "DEGRADED \<equiv> ''degraded''"
abbreviation FAILED :: string where "FAILED \<equiv> ''failed''"
abbreviation TEARING_DOWN :: string where "TEARING_DOWN \<equiv> ''tearing_down''"
abbreviation TORN_DOWN :: string where "TORN_DOWN \<equiv> ''torn_down''"

definition TopologyStatus_ALL :: "string list" where
  "TopologyStatus_ALL =
     [PENDING, DEPLOYING, ACTIVE, DEGRADED, FAILED, TEARING_DOWN, TORN_DOWN]"

definition LEGAL :: "(string, string list) dict" where
  "LEGAL =
     [(PENDING, [DEPLOYING, TORN_DOWN]),
      (DEPLOYING, [ACTIVE, FAILED, DEGRADED, TEARING_DOWN]),
      (ACTIVE, [DEGRADED, TEARING_DOWN]),
      (DEGRADED, [ACTIVE, TEARING_DOWN]),
      (FAILED, [TEARING_DOWN]),
      (TEARING_DOWN, [TORN_DOWN, DEGRADED]),
      (TORN_DOWN, [])]"

definition assert_transition :: "string \<Rightarrow> string \<Rightarrow> unit result" where
  "assert_transition current new =
     (if current \<notin> set TopologyStatus_ALL then Inl TopologyStatusError
      else if new \<notin> set TopologyStatus_ALL then Inl TopologyStatusError
      else (case map_of LEGAL current of
              None \<Rightarrow> Inl KeyError
            | Some next' \<Rightarrow> if new \<notin> set next' then Inl TopologyStatusError else Inr ()))"

definition legal_next :: "string \<Rightarrow> string list result" where
  "legal_next current =
     (case map_of LEGAL current of
        None \<Rightarrow> Inl TopologyStatusError
      | Some next' \<Rightarrow> Inr next')"

inductive status_step :: "string \<Rightarrow> string \<Rightarrow> bool" where
  step: "assert_transition s t = Inr () \<Longrightarrow> status_step s t"

inductive_simps status_step_iff: "status_step s t"

lemma LEGAL_dom: "map_of LEGAL s = None \<longleftrightarrow> s \<notin> set TopologyStatus_ALL"
  by (auto simp: LEGAL_def TopologyStatus_ALL_def)

lemma LEGAL_closed: "map_of LEGAL s = Some ns \<Longrightarrow> set ns \<subseteq> set TopologyStatus_ALL"
  by (auto simp: LEGAL_def TopologyStatus_ALL_def split: if_splits)

lemma status_step_legal_next:
  "status_step s t \<longleftrightarrow> (\<exists>ns. legal_next s = Inr ns \<and> t \<in> set ns)"
  using LEGAL_dom [of s] LEGAL_closed [of s]
  by (auto simp: status_step_iff assert_transition_def legal_next_def split: option.splits if_splits)

text \<open>The transition table as a closed fact: the thirteen legal pairs and no other.\<close>

lemma status_step_table:
  "status_step s t \<longleftrightarrow> (s, t) \<in>
     {(PENDING, DEPLOYING), (PENDING, TORN_DOWN),
      (DEPLOYING, ACTIVE), (DEPLOYING, FAILED), (DEPLOYING, DEGRADED), (DEPLOYING, TEARING_DOWN),
      (ACTIVE, DEGRADED), (ACTIVE, TEARING_DOWN), (DEGRADED, ACTIVE), (DEGRADED, TEARING_DOWN),
      (FAILED, TEARING_DOWN), (TEARING_DOWN, TORN_DOWN), (TEARING_DOWN, DEGRADED)}"
  unfolding status_step_legal_next legal_next_def LEGAL_def by auto

lemma assert_transition_cases:
  "assert_transition s t = Inr () \<or> assert_transition s t = Inl TopologyStatusError"
  using LEGAL_dom [of s] by (auto simp: assert_transition_def split: option.splits)

lemma status_step_iff_Inr: "assert_transition s t = Inr () \<longleftrightarrow> status_step s t"
  by (simp add: status_step_iff)

lemma status_step_iff_Inl: "assert_transition s t = Inl TopologyStatusError \<longleftrightarrow> \<not> status_step s t"
  using assert_transition_cases [of s t] by (auto simp flip: status_step_iff_Inr)

lemma status_step_chain_ALL:
  "status_step\<^sup>*\<^sup>* s t \<Longrightarrow> s \<in> set TopologyStatus_ALL \<Longrightarrow> t \<in> set TopologyStatus_ALL"
  by (induction rule: rtranclp_induct) (auto simp: status_step_table TopologyStatus_ALL_def)

lemma teardown_reachable:
  assumes "s \<in> set TopologyStatus_ALL"
  shows "status_step\<^sup>*\<^sup>* s TORN_DOWN"
proof -
  have td: "status_step\<^sup>*\<^sup>* TEARING_DOWN TORN_DOWN" "status_step\<^sup>*\<^sup>* PENDING TORN_DOWN"
    by (simp_all add: r_into_rtranclp status_step_table)
  have via: "status_step\<^sup>*\<^sup>* x TORN_DOWN" if "status_step x TEARING_DOWN" for x
    using that td(1) by (rule converse_rtranclp_into_rtranclp)
  have "status_step\<^sup>*\<^sup>* DEPLOYING TORN_DOWN" "status_step\<^sup>*\<^sup>* ACTIVE TORN_DOWN"
    "status_step\<^sup>*\<^sup>* DEGRADED TORN_DOWN" "status_step\<^sup>*\<^sup>* FAILED TORN_DOWN"
    by (rule via, simp add: status_step_table)+
  with td have "list_all (\<lambda>s. status_step\<^sup>*\<^sup>* s TORN_DOWN) TopologyStatus_ALL"
    unfolding TopologyStatus_ALL_def by (simp add: rtranclp.rtrancl_refl)
  with assms show ?thesis by (simp add: list_all_iff)
qed

text \<open>No legal history returns to \<open>pending\<close>.\<close>

lemma never_back_to_pending: "status_step\<^sup>+\<^sup>+ s t \<Longrightarrow> t \<noteq> PENDING"
  by (induction rule: tranclp_induct) (auto simp: status_step_table)

end
