(* ===== verification/Topology_Repo.thy ===== *)
theory Topology_Repo
  imports Topology_Status Topology_Config
begin

text \<open>
  The topology tables (\<open>web/db/models/topology.py\<close>) and the repository mixins that read and
  write them (\<open>web/db/sqlmodel_repo/topology/\<close>).

  The database is the record \<open>repo\<close>: one list of rows per table, in insertion order.  Primary
  keys come from \<open>uuid4\<close>, which is modelled as a supply of identifiers that were never used
  before (\<open>r_next_id\<close>).  Every method is one transaction (\<open>session\<close>), so an exception leaves
  the tables as they were.  Foreign keys are not enforced (the SQLite engine never switches them
  on), the unique constraints are.  The clock is an argument \<open>now\<close> of the operations that read it.
\<close>

section \<open>Rows\<close>

record decky_config =
  dc_name :: "string option"
  dc_services :: "string list option"
  dc_ips_by_lan :: "(string, string) dict option"
  dc_forwards_l3 :: "bool option"
  dc_service_config :: "(string, svc_cfg) dict option"
  dc_archetype :: "string option"

record topology_row =
  t_id :: nat
  t_name :: string
  t_mode :: string
  t_target_host_uuid :: "string option"
  t_config_snapshot :: "topology_config option"
  t_status :: string
  t_status_changed_at :: nat
  t_created_at :: nat
  t_version :: int
  t_needs_resync :: bool
  t_email_personas :: string
  t_language_default :: string

record lan_row =
  l_id :: nat
  l_topology_id :: nat
  l_name :: string
  l_docker_network_id :: "string option"
  l_subnet :: string
  l_is_dmz :: bool
  l_x :: "rat option"
  l_y :: "rat option"

record decky_row =
  d_uuid :: nat
  d_topology_id :: nat
  d_name :: string
  d_services :: "string list"
  d_decky_config :: "decky_config option"
  d_ip :: "string option"
  d_state :: string
  d_last_error :: "string option"
  d_compose_hash :: "string option"
  d_last_seen :: "nat option"
  d_updated_at :: nat
  d_x :: "rat option"
  d_y :: "rat option"

record edge_row =
  e_id :: nat
  e_topology_id :: nat
  e_decky_uuid :: nat
  e_lan_id :: nat
  e_is_bridge :: bool
  e_forwards_l3 :: bool

record status_event =
  s_id :: nat
  s_topology_id :: nat
  s_from_status :: string
  s_to_status :: string
  s_at :: nat
  s_reason :: "string option"

text \<open>The payload of a mutation: every key one of the eight operations reads.  A key that may
  be present with the value \<open>null\<close> has two option layers.\<close>

record mutation_payload =
  mp_name :: "string option"
  mp_decky :: "string option"
  mp_lan :: "string option"
  mp_subnet :: "string option"
  mp_is_dmz :: bool
  mp_services :: "string list option"
  mp_archetype :: "string option"
  mp_forwards_l3 :: bool
  mp_ip :: "string option"
  mp_force :: bool
  mp_x :: "rat option option"
  mp_y :: "rat option option"
  mp_patch_config :: "decky_config option"
  mp_patch_name :: "string option"
  mp_patch_subnet :: "string option"
  mp_patch_is_dmz :: "bool option"

record mutation_row =
  m_id :: nat
  m_topology_id :: nat
  m_op :: string
  m_payload :: mutation_payload
  m_state :: string
  m_requested_at :: nat
  m_applied_at :: "nat option"
  m_reason :: "string option"

record repo =
  r_topologies :: "topology_row list"
  r_lans :: "lan_row list"
  r_deckies :: "decky_row list"
  r_edges :: "edge_row list"
  r_events :: "status_event list"
  r_mutations :: "mutation_row list"
  r_next_id :: nat

definition empty_repo :: repo where
  "empty_repo = \<lparr>r_topologies = [], r_lans = [], r_deckies = [], r_edges = [], r_events = [],
     r_mutations = [], r_next_id = 0\<rparr>"

abbreviation M_PENDING :: string where "M_PENDING \<equiv> ''pending''"
abbreviation M_APPLYING :: string where "M_APPLYING \<equiv> ''applying''"
abbreviation M_APPLIED :: string where "M_APPLIED \<equiv> ''applied''"
abbreviation M_FAILED :: string where "M_FAILED \<equiv> ''failed''"

section \<open>Topologies (\<open>_core.py\<close>)\<close>

definition find_topology :: "nat \<Rightarrow> repo \<Rightarrow> topology_row option" where
  "find_topology tid r = find (\<lambda>t. t_id t = tid) (r_topologies r)"

definition update_topology :: "nat \<Rightarrow> (topology_row \<Rightarrow> topology_row) \<Rightarrow> repo \<Rightarrow> repo" where
  "update_topology tid f r =
     r\<lparr>r_topologies := map (\<lambda>t. if t_id t = tid then f t else t) (r_topologies r)\<rparr>"

definition create_topology ::
  "nat \<Rightarrow> string \<Rightarrow> string \<Rightarrow> string option \<Rightarrow> topology_config option \<Rightarrow> (nat, repo) op" where
  "create_topology now name mode target snapshot = session (\<lambda>r.
     if name \<in> t_name ` set (r_topologies r) then Inl IntegrityError
     else
       let tid = r_next_id r;
           row = \<lparr>t_id = tid, t_name = name, t_mode = mode, t_target_host_uuid = target,
             t_config_snapshot = snapshot, t_status = PENDING, t_status_changed_at = now,
             t_created_at = now, t_version = 1, t_needs_resync = False,
             t_email_personas = ''[]'', t_language_default = ''en''\<rparr>
       in Inr (tid, r\<lparr>r_topologies := r_topologies r @ [row], r_next_id := Suc tid\<rparr>))"

definition get_topology :: "nat \<Rightarrow> (topology_row option, repo) op" where
  "get_topology tid = session (\<lambda>r. Inr (find_topology tid r, r))"

definition list_topologies ::
  "string option \<Rightarrow> nat option \<Rightarrow> nat option \<Rightarrow> repo \<Rightarrow> topology_row list" where
  "list_topologies status limit offset r =
     (let rows = rev (sort_key t_created_at (r_topologies r));
          rows = (case status of None \<Rightarrow> rows | Some s \<Rightarrow> if s = [] then rows else filter (\<lambda>t. t_status t = s) rows);
          rows = (case offset of None \<Rightarrow> rows | Some k \<Rightarrow> drop k rows)
      in case limit of None \<Rightarrow> rows | Some k \<Rightarrow> take k rows)"

definition count_topologies :: "string option \<Rightarrow> repo \<Rightarrow> nat" where
  "count_topologies status r =
     length (case status of None \<Rightarrow> r_topologies r
       | Some s \<Rightarrow> if s = [] then r_topologies r else filter (\<lambda>t. t_status t = s) (r_topologies r))"

definition update_topology_status :: "nat \<Rightarrow> nat \<Rightarrow> string \<Rightarrow> string option \<Rightarrow> (unit, repo) op" where
  "update_topology_status now tid new_status reason = session (\<lambda>r.
     case find_topology tid r of
       None \<Rightarrow> Inr ((), r)
     | Some topo \<Rightarrow>
         let ev = \<lparr>s_id = r_next_id r, s_topology_id = tid, s_from_status = t_status topo,
               s_to_status = new_status, s_at = now, s_reason = reason\<rparr>;
             r' = update_topology tid (\<lambda>t. t\<lparr>t_status := new_status, t_status_changed_at := now\<rparr>) r
         in Inr ((), r'\<lparr>r_events := r_events r @ [ev], r_next_id := Suc (r_next_id r)\<rparr>))"

definition set_topology_resync :: "nat \<Rightarrow> bool \<Rightarrow> (unit, repo) op" where
  "set_topology_resync tid v = session (\<lambda>r.
     case find_topology tid r of
       None \<Rightarrow> Inr ((), r)
     | Some _ \<Rightarrow> Inr ((), update_topology tid (\<lambda>t. t\<lparr>t_needs_resync := v\<rparr>) r))"

definition set_topology_email_personas :: "nat \<Rightarrow> string \<Rightarrow> (bool, repo) op" where
  "set_topology_email_personas tid js = session (\<lambda>r.
     case find_topology tid r of
       None \<Rightarrow> Inr (False, r)
     | Some _ \<Rightarrow> Inr (True, update_topology tid (\<lambda>t. t\<lparr>t_email_personas := js\<rparr>) r))"

definition list_topologies_needing_resync :: "repo \<Rightarrow> topology_row list" where
  "list_topologies_needing_resync r = filter t_needs_resync (r_topologies r)"

definition delete_topology_cascade :: "nat \<Rightarrow> (bool, repo) op" where
  "delete_topology_cascade tid = session (\<lambda>r.
     let r1 = r\<lparr>r_events := filter (\<lambda>s. s_topology_id s \<noteq> tid) (r_events r)\<rparr>;
         r2 = r1\<lparr>r_edges := filter (\<lambda>e. e_topology_id e \<noteq> tid) (r_edges r1)\<rparr>;
         r3 = r2\<lparr>r_deckies := filter (\<lambda>d. d_topology_id d \<noteq> tid) (r_deckies r2)\<rparr>;
         r4 = r3\<lparr>r_lans := filter (\<lambda>l. l_topology_id l \<noteq> tid) (r_lans r3)\<rparr>;
         r5 = r4\<lparr>r_mutations := filter (\<lambda>m. m_topology_id m \<noteq> tid) (r_mutations r4)\<rparr>
     in case find_topology tid r5 of
          None \<Rightarrow> Inr (False, r5)
        | Some _ \<Rightarrow> Inr (True, r5\<lparr>r_topologies := filter (\<lambda>t. t_id t \<noteq> tid) (r_topologies r5)\<rparr>))"

definition list_live_topology_ids :: "repo \<Rightarrow> nat list" where
  "list_live_topology_ids r =
     map t_id (filter (\<lambda>t. t_status t \<in> {ACTIVE, DEGRADED}) (r_topologies r))"

definition assert_pending :: "nat \<Rightarrow> repo \<Rightarrow> unit result" where
  "assert_pending tid r =
     (case find_topology tid r of
        None \<Rightarrow> Inl ValueError
      | Some topo \<Rightarrow> if t_status topo \<noteq> PENDING then Inl (TopologyNotEditable (t_status topo)) else Inr ())"

definition check_and_bump_version :: "nat \<Rightarrow> int option \<Rightarrow> repo \<Rightarrow> repo result" where
  "check_and_bump_version tid expected r =
     (case expected of
        None \<Rightarrow> Inr r
      | Some v \<Rightarrow>
          (case find_topology tid r of
             None \<Rightarrow> Inl ValueError
           | Some topo \<Rightarrow>
               if t_version topo \<noteq> v then Inl (VersionConflict (t_version topo) v)
               else Inr (update_topology tid (\<lambda>t. t\<lparr>t_version := t_version t + 1\<rparr>) r)))"

section \<open>LANs (\<open>lans.py\<close>)\<close>

definition lan_name_taken :: "nat \<Rightarrow> string \<Rightarrow> lan_row list \<Rightarrow> bool" where
  "lan_name_taken tid name lans \<longleftrightarrow> (\<exists>l \<in> set lans. l_topology_id l = tid \<and> l_name l = name)"

definition add_lan ::
  "nat \<Rightarrow> string \<Rightarrow> string \<Rightarrow> bool \<Rightarrow> rat option \<Rightarrow> rat option \<Rightarrow> int option \<Rightarrow> (nat, repo) op" where
  "add_lan tid name subnet is_dmz x y expected = session (\<lambda>r.
     bindE (check_and_bump_version tid expected r) (\<lambda>r.
       if lan_name_taken tid name (r_lans r) then Inl IntegrityError
       else
         let row = \<lparr>l_id = r_next_id r, l_topology_id = tid, l_name = name, l_docker_network_id = None,
               l_subnet = subnet, l_is_dmz = is_dmz, l_x = x, l_y = y\<rparr>
         in Inr (r_next_id r, r\<lparr>r_lans := r_lans r @ [row], r_next_id := Suc (r_next_id r)\<rparr>)))"

record lan_fields =
  lf_name :: "string option"
  lf_subnet :: "string option"
  lf_is_dmz :: "bool option"
  lf_docker_network_id :: "string option option"
  lf_x :: "rat option option"
  lf_y :: "rat option option"

definition no_lan_fields :: lan_fields where
  "no_lan_fields = \<lparr>lf_name = None, lf_subnet = None, lf_is_dmz = None, lf_docker_network_id = None,
     lf_x = None, lf_y = None\<rparr>"

definition with_default :: "'a \<Rightarrow> 'a option \<Rightarrow> 'a" where
  "with_default d opt = (case opt of None \<Rightarrow> d | Some v \<Rightarrow> v)"

lemma with_default_simps [simp]: "with_default d None = d" "with_default d (Some v) = v"
  by (simp_all add: with_default_def)

definition set_lan_fields :: "lan_fields \<Rightarrow> lan_row \<Rightarrow> lan_row" where
  "set_lan_fields f l = l\<lparr>
     l_name := with_default (l_name l) (lf_name f),
     l_subnet := with_default (l_subnet l) (lf_subnet f),
     l_is_dmz := with_default (l_is_dmz l) (lf_is_dmz f),
     l_docker_network_id := with_default (l_docker_network_id l) (lf_docker_network_id f),
     l_x := with_default (l_x l) (lf_x f),
     l_y := with_default (l_y l) (lf_y f)\<rparr>"

definition find_lan :: "nat \<Rightarrow> repo \<Rightarrow> lan_row option" where
  "find_lan lid r = find (\<lambda>l. l_id l = lid) (r_lans r)"

definition update_lan :: "nat \<Rightarrow> lan_fields \<Rightarrow> int option \<Rightarrow> bool \<Rightarrow> (unit, repo) op" where
  "update_lan lid flds expected enforce_pending =
     (if flds = no_lan_fields then returnS ()
      else session (\<lambda>r.
        case find_lan lid r of
          None \<Rightarrow> Inl ValueError
        | Some lan \<Rightarrow>
            bindE (if enforce_pending then assert_pending (l_topology_id lan) r else Inr ()) (\<lambda>_.
            bindE (check_and_bump_version (l_topology_id lan) expected r) (\<lambda>r.
              let lan' = set_lan_fields flds lan
              in if \<exists>l \<in> set (r_lans r). l_id l \<noteq> lid \<and> l_topology_id l = l_topology_id lan' \<and> l_name l = l_name lan'
                 then Inl IntegrityError
                 else Inr ((), r\<lparr>r_lans := map (\<lambda>l. if l_id l = lid then set_lan_fields flds l else l) (r_lans r)\<rparr>)))))"

definition delete_lan :: "nat \<Rightarrow> int option \<Rightarrow> bool \<Rightarrow> (unit, repo) op" where
  "delete_lan lid expected enforce_pending = session (\<lambda>r.
     case find_lan lid r of
       None \<Rightarrow> Inr ((), r)
     | Some lan \<Rightarrow>
         bindE (if enforce_pending then assert_pending (l_topology_id lan) r else Inr ()) (\<lambda>_.
           let edges_here = filter (\<lambda>e. e_lan_id e = lid) (r_edges r)
           in if \<exists>du \<in> set (map e_decky_uuid edges_here).
                \<not> (\<exists>e \<in> set (r_edges r). e_decky_uuid e = du \<and> e_lan_id e \<noteq> lid)
              then Inl ValueError
              else
                bindE (check_and_bump_version (l_topology_id lan) expected r) (\<lambda>r.
                  Inr ((), r\<lparr>r_edges := filter (\<lambda>e. e_lan_id e \<noteq> lid) (r_edges r),
                              r_lans := filter (\<lambda>l. l_id l \<noteq> lid) (r_lans r)\<rparr>))))"

definition list_lans_for_topology :: "nat \<Rightarrow> repo \<Rightarrow> lan_row list" where
  "list_lans_for_topology tid r = sort_key l_name (filter (\<lambda>l. l_topology_id l = tid) (r_lans r))"

section \<open>Deckies (\<open>deckies.py\<close>)\<close>

definition decky_name_taken :: "nat \<Rightarrow> string \<Rightarrow> decky_row list \<Rightarrow> bool" where
  "decky_name_taken tid name ds \<longleftrightarrow> (\<exists>d \<in> set ds. d_topology_id d = tid \<and> d_name d = name)"

definition add_topology_decky ::
  "nat \<Rightarrow> nat \<Rightarrow> string \<Rightarrow> string list \<Rightarrow> decky_config option \<Rightarrow> string option \<Rightarrow>
   rat option \<Rightarrow> rat option \<Rightarrow> int option \<Rightarrow> (nat, repo) op" where
  "add_topology_decky now tid name services cfg ip x y expected = session (\<lambda>r.
     bindE (check_and_bump_version tid expected r) (\<lambda>r.
       if decky_name_taken tid name (r_deckies r) then Inl IntegrityError
       else
         let row = \<lparr>d_uuid = r_next_id r, d_topology_id = tid, d_name = name, d_services = services,
               d_decky_config = cfg, d_ip = ip, d_state = ''pending'', d_last_error = None,
               d_compose_hash = None, d_last_seen = None, d_updated_at = now, d_x = x, d_y = y\<rparr>
         in Inr (r_next_id r, r\<lparr>r_deckies := r_deckies r @ [row], r_next_id := Suc (r_next_id r)\<rparr>)))"

record decky_fields =
  df_name :: "string option"
  df_services :: "string list option"
  df_decky_config :: "decky_config option option"
  df_ip :: "string option option"
  df_state :: "string option"
  df_last_error :: "string option option"
  df_x :: "rat option option"
  df_y :: "rat option option"

definition no_decky_fields :: decky_fields where
  "no_decky_fields = \<lparr>df_name = None, df_services = None, df_decky_config = None, df_ip = None,
     df_state = None, df_last_error = None, df_x = None, df_y = None\<rparr>"

definition set_decky_fields :: "nat \<Rightarrow> decky_fields \<Rightarrow> decky_row \<Rightarrow> decky_row" where
  "set_decky_fields now f d = d\<lparr>
     d_name := with_default (d_name d) (df_name f),
     d_services := with_default (d_services d) (df_services f),
     d_decky_config := with_default (d_decky_config d) (df_decky_config f),
     d_ip := with_default (d_ip d) (df_ip f),
     d_state := with_default (d_state d) (df_state f),
     d_last_error := with_default (d_last_error d) (df_last_error f),
     d_updated_at := now,
     d_x := with_default (d_x d) (df_x f),
     d_y := with_default (d_y d) (df_y f)\<rparr>"

definition find_decky :: "nat \<Rightarrow> repo \<Rightarrow> decky_row option" where
  "find_decky du r = find (\<lambda>d. d_uuid d = du) (r_deckies r)"

definition update_topology_decky ::
  "nat \<Rightarrow> nat \<Rightarrow> decky_fields \<Rightarrow> int option \<Rightarrow> bool \<Rightarrow> (unit, repo) op" where
  "update_topology_decky now du flds expected enforce_pending =
     (if flds = no_decky_fields then returnS ()
      else session (\<lambda>r.
        case find_decky du r of
          None \<Rightarrow> Inl ValueError
        | Some d \<Rightarrow>
            bindE (if enforce_pending then assert_pending (d_topology_id d) r else Inr ()) (\<lambda>_.
            bindE (check_and_bump_version (d_topology_id d) expected r) (\<lambda>r.
              let d' = set_decky_fields now flds d
              in if \<exists>x \<in> set (r_deckies r). d_uuid x \<noteq> du \<and> d_topology_id x = d_topology_id d' \<and> d_name x = d_name d'
                 then Inl IntegrityError
                 else Inr ((), r\<lparr>r_deckies :=
                   map (\<lambda>x. if d_uuid x = du then set_decky_fields now flds x else x) (r_deckies r)\<rparr>)))))"

definition delete_topology_decky :: "nat \<Rightarrow> int option \<Rightarrow> bool \<Rightarrow> (unit, repo) op" where
  "delete_topology_decky du expected enforce_pending = session (\<lambda>r.
     case find_decky du r of
       None \<Rightarrow> Inr ((), r)
     | Some d \<Rightarrow>
         bindE (if enforce_pending then assert_pending (d_topology_id d) r else Inr ()) (\<lambda>_.
         bindE (check_and_bump_version (d_topology_id d) expected r) (\<lambda>r.
           Inr ((), r\<lparr>r_edges := filter (\<lambda>e. e_decky_uuid e \<noteq> du) (r_edges r),
                       r_deckies := filter (\<lambda>d. d_uuid d \<noteq> du) (r_deckies r)\<rparr>))))"

definition list_topology_deckies :: "nat \<Rightarrow> repo \<Rightarrow> decky_row list" where
  "list_topology_deckies tid r = sort_key d_name (filter (\<lambda>d. d_topology_id d = tid) (r_deckies r))"

definition list_running_topology_deckies :: "repo \<Rightarrow> decky_row list" where
  "list_running_topology_deckies r = filter (\<lambda>d. d_state d = ''running'') (r_deckies r)"

section \<open>Edges and the status log (\<open>edges.py\<close>)\<close>

definition add_topology_edge ::
  "nat \<Rightarrow> nat \<Rightarrow> nat \<Rightarrow> bool \<Rightarrow> bool \<Rightarrow> int option \<Rightarrow> (nat, repo) op" where
  "add_topology_edge tid du lid is_bridge forwards_l3 expected = session (\<lambda>r.
     bindE (check_and_bump_version tid expected r) (\<lambda>r.
       let row = \<lparr>e_id = r_next_id r, e_topology_id = tid, e_decky_uuid = du, e_lan_id = lid,
             e_is_bridge = is_bridge, e_forwards_l3 = forwards_l3\<rparr>
       in Inr (r_next_id r, r\<lparr>r_edges := r_edges r @ [row], r_next_id := Suc (r_next_id r)\<rparr>)))"

definition find_edge :: "nat \<Rightarrow> repo \<Rightarrow> edge_row option" where
  "find_edge eid r = find (\<lambda>e. e_id e = eid) (r_edges r)"

definition delete_topology_edge :: "nat \<Rightarrow> int option \<Rightarrow> bool \<Rightarrow> (unit, repo) op" where
  "delete_topology_edge eid expected enforce_pending = session (\<lambda>r.
     case find_edge eid r of
       None \<Rightarrow> Inr ((), r)
     | Some edge \<Rightarrow>
         bindE (if enforce_pending then assert_pending (e_topology_id edge) r else Inr ()) (\<lambda>_.
         bindE (check_and_bump_version (e_topology_id edge) expected r) (\<lambda>r.
           Inr ((), r\<lparr>r_edges := filter (\<lambda>e. e_id e \<noteq> eid) (r_edges r)\<rparr>))))"

definition list_topology_edges :: "nat \<Rightarrow> repo \<Rightarrow> edge_row list" where
  "list_topology_edges tid r = filter (\<lambda>e. e_topology_id e = tid) (r_edges r)"

definition list_topology_status_events :: "nat \<Rightarrow> nat \<Rightarrow> repo \<Rightarrow> status_event list" where
  "list_topology_status_events tid limit r =
     take limit (rev (sort_key s_at (filter (\<lambda>s. s_topology_id s = tid) (r_events r))))"

section \<open>The mutation queue (\<open>mutations.py\<close>)\<close>

definition enqueue_topology_mutation ::
  "nat \<Rightarrow> nat \<Rightarrow> string \<Rightarrow> mutation_payload \<Rightarrow> int option \<Rightarrow> (nat, repo) op" where
  "enqueue_topology_mutation now tid opn payload expected = session (\<lambda>r.
     bindE (check_and_bump_version tid expected r) (\<lambda>r.
       let row = \<lparr>m_id = r_next_id r, m_topology_id = tid, m_op = opn, m_payload = payload,
             m_state = M_PENDING, m_requested_at = now, m_applied_at = None, m_reason = None\<rparr>
       in Inr (r_next_id r, r\<lparr>r_mutations := r_mutations r @ [row], r_next_id := Suc (r_next_id r)\<rparr>)))"

definition oldest_mutation :: "nat \<Rightarrow> string \<Rightarrow> repo \<Rightarrow> mutation_row option" where
  "oldest_mutation tid state r =
     (case sort_key m_requested_at (filter (\<lambda>m. m_topology_id m = tid \<and> m_state m = state) (r_mutations r)) of
        [] \<Rightarrow> None | m # _ \<Rightarrow> Some m)"

text \<open>The atomic \<open>UPDATE\<close> and, in the same session, the read that follows it: the read does not
  name the identifier that was just claimed.\<close>

definition claim_next_mutation :: "nat \<Rightarrow> (mutation_row option, repo) op" where
  "claim_next_mutation tid = session (\<lambda>r.
     case oldest_mutation tid M_PENDING r of
       None \<Rightarrow> Inr (None, r)
     | Some nxt \<Rightarrow>
         let r' = r\<lparr>r_mutations := map (\<lambda>m. if m_id m = m_id nxt \<and> m_state m = M_PENDING
                     then m\<lparr>m_state := M_APPLYING\<rparr> else m) (r_mutations r)\<rparr>
         in Inr (oldest_mutation tid M_APPLYING r', r'))"

definition mark_mutation_applied :: "nat \<Rightarrow> nat \<Rightarrow> (unit, repo) op" where
  "mark_mutation_applied now mid = session (\<lambda>r.
     Inr ((), r\<lparr>r_mutations := map (\<lambda>m. if m_id m = mid
       then m\<lparr>m_state := M_APPLIED, m_applied_at := Some now\<rparr> else m) (r_mutations r)\<rparr>))"

definition mark_mutation_failed :: "nat \<Rightarrow> nat \<Rightarrow> string \<Rightarrow> (unit, repo) op" where
  "mark_mutation_failed now mid reason = session (\<lambda>r.
     Inr ((), r\<lparr>r_mutations := map (\<lambda>m. if m_id m = mid
       then m\<lparr>m_state := M_FAILED, m_applied_at := Some now, m_reason := Some reason\<rparr> else m) (r_mutations r)\<rparr>))"

definition list_topology_mutations :: "nat \<Rightarrow> string option \<Rightarrow> repo \<Rightarrow> mutation_row list" where
  "list_topology_mutations tid state r =
     rev (sort_key m_requested_at (filter (\<lambda>m. m_topology_id m = tid \<and>
       (case state of None \<Rightarrow> True | Some s \<Rightarrow> m_state m = s)) (r_mutations r)))"

definition has_pending_topology_mutation :: "repo \<Rightarrow> bool" where
  "has_pending_topology_mutation r \<longleftrightarrow>
     (\<exists>m \<in> set (r_mutations r). m_state m = M_PENDING \<and>
        (\<exists>t \<in> set (r_topologies r). t_id t = m_topology_id m \<and> t_status t \<in> {ACTIVE, DEGRADED}))"

section \<open>Claimed subnets (\<open>allocator.py\<close>)\<close>

definition SUBNET_CLAIMING_STATES :: "string list" where
  "SUBNET_CLAIMING_STATES = [PENDING, DEPLOYING, ACTIVE, DEGRADED, FAILED, TEARING_DOWN]"

definition reserved_subnets :: "repo \<Rightarrow> string set" where
  "reserved_subnets r =
     set (concat (map (\<lambda>status. concat (map (\<lambda>topo.
       filter (\<lambda>s. s \<noteq> []) (map l_subnet (list_lans_for_topology (t_id topo) r)))
         (list_topologies (Some status) None None r))) SUBNET_CLAIMING_STATES))"

end
