(* ===== verification/Topology_Repo_Inv.thy ===== *)
theory Topology_Repo_Inv
  imports Topology_Repo
begin

text \<open>
  The invariant of the topology tables and its preservation by every repository method.

  \<open>repo_wf\<close> says that primary keys are unique and below the identifier supply, that the three
  unique constraints hold, and that every row refers to rows that exist (which the database does
  not check).  The locale \<open>versioned_write\<close> is the contract of the methods that take an
  \<open>expected_version\<close>; it is interpreted on each of them, and its client lemma is that two writers
  that read the same version cannot both succeed.
\<close>

section \<open>Tables with a primary key\<close>

definition rows_ok :: "('a \<Rightarrow> nat) \<Rightarrow> nat \<Rightarrow> 'a list \<Rightarrow> bool" where
  "rows_ok key n xs \<longleftrightarrow> distinct (map key xs) \<and> (\<forall>x \<in> set xs. key x < n)"

lemma rows_ok_Nil [simp]: "rows_ok key n []"
  by (simp add: rows_ok_def)

lemma rows_ok_append [simp]: "rows_ok key n xs \<Longrightarrow> key x = n \<Longrightarrow> rows_ok key (Suc n) (xs @ [x])"
  by (auto simp: rows_ok_def)

lemma rows_ok_Suc [simp]: "rows_ok key n xs \<Longrightarrow> rows_ok key (Suc n) xs"
  by (auto simp: rows_ok_def)

lemma rows_ok_filter [simp]: "rows_ok key n xs \<Longrightarrow> rows_ok key n (filter P xs)"
  by (auto simp: rows_ok_def distinct_map_filter)

lemma rows_ok_map [simp]: "(\<And>x. key (f x) = key x) \<Longrightarrow> rows_ok key n (map f xs) = rows_ok key n xs"
  by (simp add: rows_ok_def comp_def)

lemma distinct_map_update:
  assumes "distinct (map key xs)" "distinct (map nm xs)"
    and "y \<in> set xs" "key y = i"
    and "\<And>x. x \<in> set xs \<Longrightarrow> key x \<noteq> i \<Longrightarrow> nm x \<noteq> nm (f y)"
  shows "distinct (map nm (map (\<lambda>x. if key x = i then f x else x) xs))"
proof -
  have inj: "inj_on nm (set xs)" "inj_on key (set xs)" "distinct xs"
    using assms(1,2) by (simp_all add: distinct_map)
  then have "x = y" if "x \<in> set xs" "key x = i" for x
    using that assms(3,4) by (auto dest: inj_onD)
  then have "inj_on (\<lambda>x. nm (if key x = i then f x else x)) (set xs)"
    using inj(1) assms(4,5) by (smt (verit, best) inj_on_def)
  with inj(3) show ?thesis by (simp add: distinct_map comp_def inj_on_def)
qed

lemma find_key_iff:
  assumes "distinct (map key xs)"
  shows "find (\<lambda>x. key x = i) xs = Some x \<longleftrightarrow> x \<in> set xs \<and> key x = i"
  using assms by (induction xs) auto

lemma find_key_SomeD: "find (\<lambda>x. key x = i) xs = Some x \<Longrightarrow> x \<in> set xs \<and> key x = i"
  by (auto simp: find_Some_iff)

lemma find_key_None: "find (\<lambda>x. key x = i) xs = None \<longleftrightarrow> i \<notin> key ` set xs"
  by (auto simp: find_None_iff)

lemma find_map_key:
  "(\<And>x. key (f x) = key x) \<Longrightarrow> find (\<lambda>x. key x = i) (map f xs) = map_option f (find (\<lambda>x. key x = i) xs)"
  by (induction xs) auto

section \<open>The invariant\<close>

definition keys_ok :: "repo \<Rightarrow> bool" where
  "keys_ok r \<longleftrightarrow> rows_ok t_id (r_next_id r) (r_topologies r) \<and> rows_ok l_id (r_next_id r) (r_lans r) \<and>
     rows_ok d_uuid (r_next_id r) (r_deckies r) \<and> rows_ok e_id (r_next_id r) (r_edges r) \<and>
     rows_ok s_id (r_next_id r) (r_events r) \<and> rows_ok m_id (r_next_id r) (r_mutations r)"

abbreviation lan_key :: "lan_row \<Rightarrow> nat \<times> string" where "lan_key l \<equiv> (l_topology_id l, l_name l)"
abbreviation decky_key :: "decky_row \<Rightarrow> nat \<times> string" where "decky_key d \<equiv> (d_topology_id d, d_name d)"

definition names_ok :: "repo \<Rightarrow> bool" where
  "names_ok r \<longleftrightarrow> distinct (map t_name (r_topologies r)) \<and> distinct (map lan_key (r_lans r)) \<and>
     distinct (map decky_key (r_deckies r))"

definition refs_ok :: "repo \<Rightarrow> bool" where
  "refs_ok r \<longleftrightarrow>
     (\<forall>l \<in> set (r_lans r). l_topology_id l \<in> t_id ` set (r_topologies r)) \<and>
     (\<forall>d \<in> set (r_deckies r). d_topology_id d \<in> t_id ` set (r_topologies r)) \<and>
     (\<forall>s \<in> set (r_events r). s_topology_id s \<in> t_id ` set (r_topologies r)) \<and>
     (\<forall>m \<in> set (r_mutations r). m_topology_id m \<in> t_id ` set (r_topologies r)) \<and>
     (\<forall>e \<in> set (r_edges r).
        (\<exists>d \<in> set (r_deckies r). d_uuid d = e_decky_uuid e \<and> d_topology_id d = e_topology_id e) \<and>
        (\<exists>l \<in> set (r_lans r). l_id l = e_lan_id e \<and> l_topology_id l = e_topology_id e))"

definition repo_wf :: "repo \<Rightarrow> bool" where
  "repo_wf r \<longleftrightarrow> keys_ok r \<and> names_ok r \<and> refs_ok r"

lemmas repo_wf_defs = repo_wf_def keys_ok_def names_ok_def refs_ok_def

lemma repo_wf_empty [simp]: "repo_wf empty_repo"
  by (simp add: repo_wf_defs empty_repo_def)

lemma repo_wf_same_topologies:
  assumes "map t_id ts = map t_id (r_topologies r)" "map t_name ts = map t_name (r_topologies r)"
  shows "repo_wf (r\<lparr>r_topologies := ts\<rparr>) = repo_wf r"
proof -
  have "t_id ` set ts = t_id ` set (r_topologies r)" using assms(1) by (metis list.set_map)
  moreover have "rows_ok t_id n ts = rows_ok t_id n (r_topologies r)" for n
    using calculation assms(1) by (auto simp: rows_ok_def) (metis image_iff)+
  ultimately show ?thesis using assms(2) by (simp add: repo_wf_defs)
qed

lemma repo_wf_update_topology:
  assumes "\<And>t. t_id (f t) = t_id t" "\<And>t. t_name (f t) = t_name t"
  shows "repo_wf (update_topology tid f r) = repo_wf r"
  unfolding update_topology_def by (rule repo_wf_same_topologies) (auto simp: assms)

lemma find_update_topology:
  assumes "\<And>t. t_id (f t) = t_id t"
  shows "find_topology k (update_topology tid f r) =
    map_option (\<lambda>t. if t_id t = tid then f t else t) (find_topology k r)"
  unfolding find_topology_def update_topology_def by (simp add: find_map_key assms)

lemma update_topology_tables [simp]:
  "r_lans (update_topology tid f r) = r_lans r" "r_deckies (update_topology tid f r) = r_deckies r"
  "r_edges (update_topology tid f r) = r_edges r" "r_events (update_topology tid f r) = r_events r"
  "r_mutations (update_topology tid f r) = r_mutations r" "r_next_id (update_topology tid f r) = r_next_id r"
  by (simp_all add: update_topology_def)

lemma update_topology_ids:
  assumes "\<And>t. t_id (f t) = t_id t"
  shows "t_id ` set (r_topologies (update_topology tid f r)) = t_id ` set (r_topologies r)"
proof -
  have "map t_id (r_topologies (update_topology tid f r)) = map t_id (r_topologies r)"
    by (simp add: update_topology_def assms)
  then show ?thesis by (metis list.set_map)
qed

lemma check_and_bump_cases:
  assumes "check_and_bump_version tid ev r = Inr r'"
  obtains "ev = None" "r' = r"
  | v t where "ev = Some v" "find_topology tid r = Some t" "t_version t = v"
      "r' = update_topology tid (\<lambda>t. t\<lparr>t_version := t_version t + 1\<rparr>) r"
  using assms by (auto simp: check_and_bump_version_def split: option.splits if_splits)

lemma check_and_bump_frame:
  assumes "check_and_bump_version tid ev r = Inr r'"
  shows "r_lans r' = r_lans r" "r_deckies r' = r_deckies r" "r_edges r' = r_edges r"
    "r_events r' = r_events r" "r_mutations r' = r_mutations r" "r_next_id r' = r_next_id r"
    "repo_wf r' = repo_wf r" "t_id ` set (r_topologies r') = t_id ` set (r_topologies r)"
  using assms by (rule check_and_bump_cases; simp add: repo_wf_update_topology update_topology_ids)+

lemma session_snd:
  assumes "P s" and "\<And>x s'. body s = Inr (x, s') \<Longrightarrow> P s'"
  shows "P (snd (session body s))"
  using assms by (auto simp: session_def split: sum.splits)

section \<open>Outcomes of the guarded writes\<close>

text \<open>A method that raises leaves the tables unchanged; one that returns either found nothing to
  do or passed the pending guard and the version check, and then wrote.\<close>

lemma guarded_Inl:
  "add_lan tid name subnet is_dmz x y ev r = (Inl e, r') \<Longrightarrow> r' = r"
  "add_topology_decky now tid name svcs cfg ip x y ev r = (Inl e, r') \<Longrightarrow> r' = r"
  "add_topology_edge tid du lid br fwd ev r = (Inl e, r') \<Longrightarrow> r' = r"
  "enqueue_topology_mutation now tid opn payload ev r = (Inl e, r') \<Longrightarrow> r' = r"
  "update_lan lid lf ev p r = (Inl e, r') \<Longrightarrow> r' = r"
  "delete_lan lid ev p r = (Inl e, r') \<Longrightarrow> r' = r"
  "update_topology_decky now du df ev p r = (Inl e, r') \<Longrightarrow> r' = r"
  "delete_topology_decky du ev p r = (Inl e, r') \<Longrightarrow> r' = r"
  "delete_topology_edge eid ev p r = (Inl e, r') \<Longrightarrow> r' = r"
  unfolding add_lan_def add_topology_decky_def add_topology_edge_def enqueue_topology_mutation_def
    update_lan_def delete_lan_def update_topology_decky_def delete_topology_decky_def
    delete_topology_edge_def
  by (simp_all split: if_splits)

lemma add_lan_InrE:
  assumes "add_lan tid name subnet is_dmz x y ev r = (Inr i, r')"
  obtains r1 where "check_and_bump_version tid ev r = Inr r1" "\<not> lan_name_taken tid name (r_lans r1)"
    "i = r_next_id r1"
    "r' = r1\<lparr>r_lans := r_lans r1 @ [\<lparr>l_id = i, l_topology_id = tid, l_name = name, l_docker_network_id = None,
       l_subnet = subnet, l_is_dmz = is_dmz, l_x = x, l_y = y\<rparr>], r_next_id := Suc i\<rparr>"
  using assms by (auto simp: add_lan_def Let_def split: if_splits)

lemma add_topology_decky_InrE:
  assumes "add_topology_decky now tid name svcs cfg ip x y ev r = (Inr i, r')"
  obtains r1 where "check_and_bump_version tid ev r = Inr r1" "\<not> decky_name_taken tid name (r_deckies r1)"
    "i = r_next_id r1"
    "r' = r1\<lparr>r_deckies := r_deckies r1 @ [\<lparr>d_uuid = i, d_topology_id = tid, d_name = name, d_services = svcs,
       d_decky_config = cfg, d_ip = ip, d_state = ''pending'', d_last_error = None, d_compose_hash = None,
       d_last_seen = None, d_updated_at = now, d_x = x, d_y = y\<rparr>], r_next_id := Suc i\<rparr>"
  using assms by (auto simp: add_topology_decky_def Let_def split: if_splits)

lemma add_topology_edge_InrE:
  assumes "add_topology_edge tid du lid br fwd ev r = (Inr i, r')"
  obtains r1 where "check_and_bump_version tid ev r = Inr r1" "i = r_next_id r1"
    "r' = r1\<lparr>r_edges := r_edges r1 @ [\<lparr>e_id = i, e_topology_id = tid, e_decky_uuid = du, e_lan_id = lid,
       e_is_bridge = br, e_forwards_l3 = fwd\<rparr>], r_next_id := Suc i\<rparr>"
  using assms by (auto simp: add_topology_edge_def Let_def)

lemma enqueue_topology_mutation_InrE:
  assumes "enqueue_topology_mutation now tid opn payload ev r = (Inr i, r')"
  obtains r1 where "check_and_bump_version tid ev r = Inr r1" "i = r_next_id r1"
    "r' = r1\<lparr>r_mutations := r_mutations r1 @ [\<lparr>m_id = i, m_topology_id = tid, m_op = opn, m_payload = payload,
       m_state = M_PENDING, m_requested_at = now, m_applied_at = None, m_reason = None\<rparr>], r_next_id := Suc i\<rparr>"
  using assms by (auto simp: enqueue_topology_mutation_def Let_def)

lemma update_lan_InrE:
  assumes "update_lan lid lf ev p r = (Inr u, r')"
  obtains "lf = no_lan_fields" "r' = r"
  | lan r1 where "lf \<noteq> no_lan_fields" "find_lan lid r = Some lan" "p \<longrightarrow> assert_pending (l_topology_id lan) r = Inr ()"
      "check_and_bump_version (l_topology_id lan) ev r = Inr r1"
      "\<forall>l \<in> set (r_lans r1). l_id l \<noteq> lid \<longrightarrow> lan_key l \<noteq> lan_key (set_lan_fields lf lan)"
      "r' = r1\<lparr>r_lans := map (\<lambda>l. if l_id l = lid then set_lan_fields lf l else l) (r_lans r1)\<rparr>"
  using assms that by (cases "find_lan lid r") (auto simp: update_lan_def Let_def split: if_splits)

lemma delete_lan_InrE:
  assumes "delete_lan lid ev p r = (Inr u, r')"
  obtains "find_lan lid r = None" "r' = r"
  | lan r1 where "find_lan lid r = Some lan" "p \<longrightarrow> assert_pending (l_topology_id lan) r = Inr ()"
      "\<forall>e \<in> set (r_edges r). e_lan_id e = lid \<longrightarrow>
         (\<exists>e' \<in> set (r_edges r). e_decky_uuid e' = e_decky_uuid e \<and> e_lan_id e' \<noteq> lid)"
      "check_and_bump_version (l_topology_id lan) ev r = Inr r1"
      "r' = r1\<lparr>r_edges := filter (\<lambda>e. e_lan_id e \<noteq> lid) (r_edges r1), r_lans := filter (\<lambda>l. l_id l \<noteq> lid) (r_lans r1)\<rparr>"
proof (cases "find_lan lid r")
  case None
  with assms have "r' = r" by (simp add: delete_lan_def)
  with None show ?thesis by (rule that(1))
next
  case (Some lan)
  with assms show ?thesis
    by (auto simp: delete_lan_def Let_def split: if_splits intro: that(2))
qed

lemma update_topology_decky_InrE:
  assumes "update_topology_decky now du df ev p r = (Inr u, r')"
  obtains "df = no_decky_fields" "r' = r"
  | d r1 where "df \<noteq> no_decky_fields" "find_decky du r = Some d" "p \<longrightarrow> assert_pending (d_topology_id d) r = Inr ()"
      "check_and_bump_version (d_topology_id d) ev r = Inr r1"
      "\<forall>x \<in> set (r_deckies r1). d_uuid x \<noteq> du \<longrightarrow> decky_key x \<noteq> decky_key (set_decky_fields now df d)"
      "r' = r1\<lparr>r_deckies := map (\<lambda>x. if d_uuid x = du then set_decky_fields now df x else x) (r_deckies r1)\<rparr>"
  using assms that by (cases "find_decky du r") (auto simp: update_topology_decky_def Let_def split: if_splits)

lemma delete_topology_decky_InrE:
  assumes "delete_topology_decky du ev p r = (Inr u, r')"
  obtains "find_decky du r = None" "r' = r"
  | d r1 where "find_decky du r = Some d" "p \<longrightarrow> assert_pending (d_topology_id d) r = Inr ()"
      "check_and_bump_version (d_topology_id d) ev r = Inr r1"
      "r' = r1\<lparr>r_edges := filter (\<lambda>e. e_decky_uuid e \<noteq> du) (r_edges r1),
         r_deckies := filter (\<lambda>d. d_uuid d \<noteq> du) (r_deckies r1)\<rparr>"
proof (cases "find_decky du r")
  case None
  with assms have "r' = r" by (simp add: delete_topology_decky_def)
  with None show ?thesis by (rule that(1))
next
  case (Some d)
  with assms show ?thesis
    by (auto simp: delete_topology_decky_def Let_def split: if_splits intro: that(2))
qed

lemma delete_topology_edge_InrE:
  assumes "delete_topology_edge eid ev p r = (Inr u, r')"
  obtains "find_edge eid r = None" "r' = r"
  | e r1 where "find_edge eid r = Some e" "p \<longrightarrow> assert_pending (e_topology_id e) r = Inr ()"
      "check_and_bump_version (e_topology_id e) ev r = Inr r1"
      "r' = r1\<lparr>r_edges := filter (\<lambda>e. e_id e \<noteq> eid) (r_edges r1)\<rparr>"
proof (cases "find_edge eid r")
  case None
  with assms have "r' = r" by (simp add: delete_topology_edge_def)
  with None show ?thesis by (rule that(1))
next
  case (Some e)
  with assms show ?thesis
    by (auto simp: delete_topology_edge_def Let_def split: if_splits intro: that(2))
qed

section \<open>Preservation\<close>

lemma create_topology_wf [simp]:
  "repo_wf r \<Longrightarrow> repo_wf (snd (create_topology now name mode target snapshot r))"
  unfolding create_topology_def
  by (rule session_snd) (auto simp: repo_wf_defs Let_def split: if_splits)

lemma update_topology_status_wf [simp]:
  assumes "repo_wf r"
  shows "repo_wf (snd (update_topology_status now tid st reason r))"
proof (cases "find_topology tid r")
  case None
  with assms show ?thesis by (simp add: update_topology_status_def session_def)
next
  case (Some t)
  let ?u = "update_topology tid (\<lambda>t. t\<lparr>t_status := st, t_status_changed_at := now\<rparr>) r"
  have "repo_wf ?u" using assms by (simp add: repo_wf_update_topology)
  moreover from Some have "tid \<in> t_id ` set (r_topologies ?u)"
    by (auto simp: find_topology_def update_topology_ids dest: find_key_SomeD)
  ultimately show ?thesis
    by (auto simp: Some update_topology_status_def session_def repo_wf_defs Let_def)
qed

lemma set_topology_resync_wf [simp]: "repo_wf r \<Longrightarrow> repo_wf (snd (set_topology_resync tid v r))"
  unfolding set_topology_resync_def
  by (rule session_snd) (auto simp: repo_wf_update_topology split: option.splits)

lemma set_topology_email_personas_wf [simp]:
  "repo_wf r \<Longrightarrow> repo_wf (snd (set_topology_email_personas tid js r))"
  unfolding set_topology_email_personas_def
  by (rule session_snd) (auto simp: repo_wf_update_topology split: option.splits)

lemma delete_topology_cascade_result:
  "delete_topology_cascade tid r =
     (Inr (find_topology tid r \<noteq> None),
      r\<lparr>r_topologies := filter (\<lambda>t. t_id t \<noteq> tid) (r_topologies r),
        r_lans := filter (\<lambda>l. l_topology_id l \<noteq> tid) (r_lans r),
        r_deckies := filter (\<lambda>d. d_topology_id d \<noteq> tid) (r_deckies r),
        r_edges := filter (\<lambda>e. e_topology_id e \<noteq> tid) (r_edges r),
        r_events := filter (\<lambda>s. s_topology_id s \<noteq> tid) (r_events r),
        r_mutations := filter (\<lambda>m. m_topology_id m \<noteq> tid) (r_mutations r)\<rparr>)"
proof (cases "find_topology tid r")
  case None
  then have "filter (\<lambda>t. t_id t \<noteq> tid) (r_topologies r) = r_topologies r"
    by (force simp: find_topology_def find_key_None filter_id_conv)
  with None show ?thesis
    by (simp add: delete_topology_cascade_def session_def Let_def find_topology_def)
qed (simp add: delete_topology_cascade_def session_def Let_def find_topology_def)

lemma delete_topology_cascade_wf [simp]:
  "repo_wf r \<Longrightarrow> repo_wf (snd (delete_topology_cascade tid r))"
  by (auto simp: delete_topology_cascade_result repo_wf_defs distinct_map_filter Bex_def) metis+

text \<open>The outcome rules turn preservation into a claim about the bumped state \<open>r1\<close>.\<close>

lemma snd_invariantI:
  assumes "P s" and "\<And>e s'. m s = (Inl e, s') \<Longrightarrow> s' = s" and "\<And>x s'. m s = (Inr x, s') \<Longrightarrow> P s'"
  shows "P (snd (m s))"
  using assms by (cases "m s"; cases "fst (m s)") auto

lemma repo_wf_bumped:
  assumes "check_and_bump_version tid ev r = Inr r1" "repo_wf r"
  shows "keys_ok r1" "names_ok r1" "refs_ok r1"
  using check_and_bump_frame(7) [OF assms(1)] assms(2) by (simp_all add: repo_wf_def)

lemma add_lan_wf [simp]:
  assumes "repo_wf r" and "tid \<in> t_id ` set (r_topologies r)"
  shows "repo_wf (snd (add_lan tid name subnet is_dmz x y ev r))"
proof (rule snd_invariantI [where P = repo_wf, OF assms(1)], erule guarded_Inl, erule add_lan_InrE)
  fix i r' r1
  assume c: "check_and_bump_version tid ev r = Inr r1" and n: "\<not> lan_name_taken tid name (r_lans r1)"
    and "i = r_next_id r1"
    and "r' = r1\<lparr>r_lans := r_lans r1 @ [\<lparr>l_id = i, l_topology_id = tid, l_name = name, l_docker_network_id = None,
       l_subnet = subnet, l_is_dmz = is_dmz, l_x = x, l_y = y\<rparr>], r_next_id := Suc i\<rparr>"
  with assms(2) check_and_bump_frame(8) [OF c] repo_wf_bumped [OF c assms(1)] show "repo_wf r'"
    by (auto simp: repo_wf_defs lan_name_taken_def)
qed

lemma add_topology_decky_wf [simp]:
  assumes "repo_wf r" and "tid \<in> t_id ` set (r_topologies r)"
  shows "repo_wf (snd (add_topology_decky now tid name svcs cfg ip x y ev r))"
proof (rule snd_invariantI [where P = repo_wf, OF assms(1)], erule guarded_Inl, erule add_topology_decky_InrE)
  fix i r' r1
  assume c: "check_and_bump_version tid ev r = Inr r1" and n: "\<not> decky_name_taken tid name (r_deckies r1)"
    and "i = r_next_id r1"
    and "r' = r1\<lparr>r_deckies := r_deckies r1 @ [\<lparr>d_uuid = i, d_topology_id = tid, d_name = name, d_services = svcs,
       d_decky_config = cfg, d_ip = ip, d_state = ''pending'', d_last_error = None, d_compose_hash = None,
       d_last_seen = None, d_updated_at = now, d_x = x, d_y = y\<rparr>], r_next_id := Suc i\<rparr>"
  with assms(2) check_and_bump_frame(8) [OF c] repo_wf_bumped [OF c assms(1)] show "repo_wf r'"
    by (auto simp: repo_wf_defs decky_name_taken_def)
qed

lemma add_topology_edge_wf [simp]:
  assumes "repo_wf r"
    and "\<exists>d \<in> set (r_deckies r). d_uuid d = du \<and> d_topology_id d = tid"
    and "\<exists>l \<in> set (r_lans r). l_id l = lid \<and> l_topology_id l = tid"
  shows "repo_wf (snd (add_topology_edge tid du lid br fwd ev r))"
proof (rule snd_invariantI [where P = repo_wf, OF assms(1)], erule guarded_Inl, erule add_topology_edge_InrE)
  fix i r' r1
  assume c: "check_and_bump_version tid ev r = Inr r1" and "i = r_next_id r1"
    and "r' = r1\<lparr>r_edges := r_edges r1 @ [\<lparr>e_id = i, e_topology_id = tid, e_decky_uuid = du, e_lan_id = lid,
       e_is_bridge = br, e_forwards_l3 = fwd\<rparr>], r_next_id := Suc i\<rparr>"
  with assms(2,3) check_and_bump_frame(1,2) [OF c] repo_wf_bumped [OF c assms(1)] show "repo_wf r'"
    by (auto simp: repo_wf_defs)
qed

lemma enqueue_topology_mutation_wf [simp]:
  assumes "repo_wf r" and "tid \<in> t_id ` set (r_topologies r)"
  shows "repo_wf (snd (enqueue_topology_mutation now tid opn payload ev r))"
proof (rule snd_invariantI [where P = repo_wf, OF assms(1)], erule guarded_Inl, erule enqueue_topology_mutation_InrE)
  fix i r' r1
  assume c: "check_and_bump_version tid ev r = Inr r1" and "i = r_next_id r1"
    and "r' = r1\<lparr>r_mutations := r_mutations r1 @ [\<lparr>m_id = i, m_topology_id = tid, m_op = opn, m_payload = payload,
       m_state = M_PENDING, m_requested_at = now, m_applied_at = None, m_reason = None\<rparr>], r_next_id := Suc i\<rparr>"
  with assms(2) check_and_bump_frame(8) [OF c] repo_wf_bumped [OF c assms(1)] show "repo_wf r'"
    by (auto simp: repo_wf_defs)
qed

text \<open>Deletions and in-place updates, as facts on the tables.\<close>

lemma wf_drop_edges: "repo_wf r \<Longrightarrow> repo_wf (r\<lparr>r_edges := filter P (r_edges r)\<rparr>)"
  by (auto simp: repo_wf_defs)

lemma wf_drop_lan:
  "repo_wf r \<Longrightarrow> repo_wf (r\<lparr>r_edges := filter (\<lambda>e. e_lan_id e \<noteq> lid) (r_edges r),
     r_lans := filter (\<lambda>l. l_id l \<noteq> lid) (r_lans r)\<rparr>)"
  by (auto simp: repo_wf_defs distinct_map_filter Bex_def) metis+

lemma wf_drop_decky:
  "repo_wf r \<Longrightarrow> repo_wf (r\<lparr>r_edges := filter (\<lambda>e. e_decky_uuid e \<noteq> du) (r_edges r),
     r_deckies := filter (\<lambda>d. d_uuid d \<noteq> du) (r_deckies r)\<rparr>)"
  by (auto simp: repo_wf_defs distinct_map_filter Bex_def) metis+

lemma wf_map_mutations:
  assumes "repo_wf r" and "\<And>m. m_id (f m) = m_id m" and "\<And>m. m_topology_id (f m) = m_topology_id m"
  shows "repo_wf (r\<lparr>r_mutations := map f (r_mutations r)\<rparr>)"
  using assms by (simp add: repo_wf_defs)

lemma set_lan_fields_keys [simp]:
  "l_id (set_lan_fields lf l) = l_id l" "l_topology_id (set_lan_fields lf l) = l_topology_id l"
  by (simp_all add: set_lan_fields_def)

lemma set_decky_fields_keys [simp]:
  "d_uuid (set_decky_fields now df d) = d_uuid d"
  "d_topology_id (set_decky_fields now df d) = d_topology_id d"
  by (simp_all add: set_decky_fields_def)

lemma key_pair: "(\<exists>x \<in> set xs. f x = a \<and> g x = b) \<longleftrightarrow> (a, b) \<in> (\<lambda>x. (f x, g x)) ` set xs"
  by auto

lemma same_keys:
  assumes "map (\<lambda>x. (f x, g x)) ys = map (\<lambda>x. (f x, g x)) xs"
  shows "(\<exists>x \<in> set ys. f x = a \<and> g x = b) = (\<exists>x \<in> set xs. f x = a \<and> g x = b)"
    and "(\<forall>x \<in> set ys. g x \<in> T) = (\<forall>x \<in> set xs. g x \<in> T)"
proof -
  have *: "(\<lambda>x. (f x, g x)) ` set ys = (\<lambda>x. (f x, g x)) ` set xs" using assms by (metis list.set_map)
  then show "(\<exists>x \<in> set ys. f x = a \<and> g x = b) = (\<exists>x \<in> set xs. f x = a \<and> g x = b)"
    by (simp add: key_pair)
  from arg_cong [OF *, of "image snd"] have "g ` set ys = g ` set xs" by (simp add: image_image)
  then show "(\<forall>x \<in> set ys. g x \<in> T) = (\<forall>x \<in> set xs. g x \<in> T)" by (metis image_iff)
qed

lemma refs_ok_same_keys:
  "map (\<lambda>l. (l_id l, l_topology_id l)) ls = map (\<lambda>l. (l_id l, l_topology_id l)) (r_lans r) \<Longrightarrow>
     refs_ok (r\<lparr>r_lans := ls\<rparr>) = refs_ok r"
  "map (\<lambda>d. (d_uuid d, d_topology_id d)) ds = map (\<lambda>d. (d_uuid d, d_topology_id d)) (r_deckies r) \<Longrightarrow>
     refs_ok (r\<lparr>r_deckies := ds\<rparr>) = refs_ok r"
  subgoal premises prems by (simp add: refs_ok_def same_keys [OF prems])
  subgoal premises prems by (simp add: refs_ok_def same_keys [OF prems])
  done

lemma bumped_find:
  assumes "check_and_bump_version tid ev r = Inr r1"
  shows "find_lan lid r1 = find_lan lid r" "find_decky du r1 = find_decky du r" "find_edge eid r1 = find_edge eid r"
  using check_and_bump_frame [OF assms] by (simp_all add: find_lan_def find_decky_def find_edge_def)

lemma wf_set_lan:
  assumes "repo_wf r" and "find_lan lid r = Some lan"
    and "\<forall>l \<in> set (r_lans r). l_id l \<noteq> lid \<longrightarrow> lan_key l \<noteq> lan_key (set_lan_fields lf lan)"
  shows "repo_wf (r\<lparr>r_lans := map (\<lambda>l. if l_id l = lid then set_lan_fields lf l else l) (r_lans r)\<rparr>)"
proof -
  let ?f = "\<lambda>l. if l_id l = lid then set_lan_fields lf l else l"
  from assms(2) have "lan \<in> set (r_lans r)" "l_id lan = lid"
    by (auto simp: find_lan_def dest: find_key_SomeD)
  with assms(1,3) have "distinct (map lan_key (map ?f (r_lans r)))"
    by (intro distinct_map_update [where y = lan]) (auto simp: repo_wf_defs rows_ok_def)
  moreover have "refs_ok (r\<lparr>r_lans := map ?f (r_lans r)\<rparr>)"
    using assms(1) by (subst refs_ok_same_keys) (auto simp: repo_wf_def)
  ultimately show ?thesis using assms(1) by (simp add: repo_wf_def keys_ok_def names_ok_def)
qed

lemma wf_set_decky:
  assumes "repo_wf r" and "find_decky du r = Some d"
    and "\<forall>x \<in> set (r_deckies r). d_uuid x \<noteq> du \<longrightarrow> decky_key x \<noteq> decky_key (set_decky_fields now df d)"
  shows "repo_wf (r\<lparr>r_deckies := map (\<lambda>x. if d_uuid x = du then set_decky_fields now df x else x) (r_deckies r)\<rparr>)"
proof -
  let ?f = "\<lambda>x. if d_uuid x = du then set_decky_fields now df x else x"
  from assms(2) have "d \<in> set (r_deckies r)" "d_uuid d = du"
    by (auto simp: find_decky_def dest: find_key_SomeD)
  with assms(1,3) have "distinct (map decky_key (map ?f (r_deckies r)))"
    by (intro distinct_map_update [where y = d]) (auto simp: repo_wf_defs rows_ok_def)
  moreover have "refs_ok (r\<lparr>r_deckies := map ?f (r_deckies r)\<rparr>)"
    using assms(1) by (subst refs_ok_same_keys) (auto simp: repo_wf_def)
  ultimately show ?thesis using assms(1) by (simp add: repo_wf_def keys_ok_def names_ok_def)
qed

lemma delete_topology_edge_wf [simp]:
  assumes "repo_wf r"
  shows "repo_wf (snd (delete_topology_edge eid ev p r))"
  by (rule snd_invariantI [where P = repo_wf, OF assms], erule guarded_Inl, erule delete_topology_edge_InrE)
    (simp_all add: assms check_and_bump_frame(7) wf_drop_edges)

lemma delete_lan_wf [simp]:
  assumes "repo_wf r"
  shows "repo_wf (snd (delete_lan lid ev p r))"
  by (rule snd_invariantI [where P = repo_wf, OF assms], erule guarded_Inl, erule delete_lan_InrE)
    (simp_all add: assms check_and_bump_frame(7) wf_drop_lan)

lemma delete_topology_decky_wf [simp]:
  assumes "repo_wf r"
  shows "repo_wf (snd (delete_topology_decky du ev p r))"
  by (rule snd_invariantI [where P = repo_wf, OF assms], erule guarded_Inl, erule delete_topology_decky_InrE)
    (simp_all add: assms check_and_bump_frame(7) wf_drop_decky)

lemma update_lan_wf [simp]:
  assumes "repo_wf r"
  shows "repo_wf (snd (update_lan lid lf ev p r))"
  by (rule snd_invariantI [where P = repo_wf, OF assms], erule guarded_Inl, erule update_lan_InrE)
    (auto intro!: wf_set_lan simp: assms check_and_bump_frame(7) bumped_find)

lemma update_topology_decky_wf [simp]:
  assumes "repo_wf r"
  shows "repo_wf (snd (update_topology_decky now du df ev p r))"
  by (rule snd_invariantI [where P = repo_wf, OF assms], erule guarded_Inl, erule update_topology_decky_InrE)
    (auto intro!: wf_set_decky simp: assms check_and_bump_frame(7) bumped_find)

lemma claim_next_mutation_wf [simp]: "repo_wf r \<Longrightarrow> repo_wf (snd (claim_next_mutation tid r))"
  by (cases "oldest_mutation tid M_PENDING r")
    (simp_all add: claim_next_mutation_def session_def Let_def wf_map_mutations)

lemma mark_mutation_wf [simp]:
  "repo_wf r \<Longrightarrow> repo_wf (snd (mark_mutation_applied now mid r))"
  "repo_wf r \<Longrightarrow> repo_wf (snd (mark_mutation_failed now mid reason r))"
  by (simp_all add: mark_mutation_applied_def mark_mutation_failed_def session_def wf_map_mutations)

section \<open>Optimistic concurrency\<close>

definition topo_version :: "nat \<Rightarrow> repo \<Rightarrow> int option" where
  "topo_version tid r = map_option t_version (find_topology tid r)"

text \<open>The contract of a write that takes an expected version.  \<open>target\<close> is the topology the
  write is about in a given state, \<open>None\<close> when there is nothing to write.\<close>

locale versioned_write =
  fixes run :: "int option \<Rightarrow> ('a, repo) op" and target :: "repo \<Rightarrow> nat option"
  assumes raised: "run ev r = (Inl e, r') \<Longrightarrow> r' = r"
    and returned: "run (Some v) r = (Inr x, r') \<Longrightarrow> target r = Some tid \<Longrightarrow>
      topo_version tid r = Some v \<and> topo_version tid r' = Some (v + 1)"
    and frame: "run ev r = (Inr x, r') \<Longrightarrow> ev = None \<or> target r \<noteq> Some k \<Longrightarrow>
      topo_version k r' = topo_version k r"
begin

lemma version_grows:
  assumes "topo_version k r = Some v"
  shows "\<exists>v'. topo_version k (snd (run ev r)) = Some v' \<and> v \<le> v'"
proof (cases "run ev r")
  case (Pair res r')
  show ?thesis
  proof (cases res)
    case (Inl e)
    with Pair have "r' = r" by (simp add: raised)
    with Pair assms show ?thesis by simp
  next
    case (Inr x)
    show ?thesis
    proof (cases "ev = None \<or> target r \<noteq> Some k")
      case True
      with frame Pair Inr assms show ?thesis by force
    next
      case False
      with returned Pair Inr assms show ?thesis by force
    qed
  qed
qed

lemma stale_write_raises:
  assumes "target r = Some tid" and "topo_version tid r \<noteq> Some v"
  shows "\<exists>e. run (Some v) r = (Inl e, r)"
proof (cases "run (Some v) r")
  case (Pair res r')
  with raised returned [of v r] assms show ?thesis by (cases res) auto
qed

end

text \<open>Two writers, possibly running different methods, that read the same version.\<close>

locale concurrent_writers = first: versioned_write run target + second: versioned_write run' target'
  for run :: "int option \<Rightarrow> ('a, repo) op" and target and run' :: "int option \<Rightarrow> ('b, repo) op" and target'
begin

lemma no_lost_update:
  assumes "run (Some v) r = (Inr x, r1)" "target r = Some tid" "target' r1 = Some tid"
  shows "\<exists>e. run' (Some v) r1 = (Inl e, r1)"
proof (rule second.stale_write_raises [OF assms(3)])
  from first.returned [OF assms(1,2)] show "topo_version tid r1 \<noteq> Some v" by simp
qed

end

lemma topo_version_bumped:
  assumes "check_and_bump_version tid ev r = Inr r1"
  shows "ev = Some v \<Longrightarrow> topo_version tid r = Some v \<and> topo_version tid r1 = Some (v + 1)"
    and "ev = None \<or> k \<noteq> tid \<Longrightarrow> topo_version k r1 = topo_version k r"
proof -
  have fnd: "find_topology j r = Some t \<Longrightarrow> t_id t = j" for j t
    unfolding find_topology_def by (drule find_key_SomeD) simp
  show "topo_version tid r = Some v \<and> topo_version tid r1 = Some (v + 1)" if "ev = Some v"
    using assms that
    by (elim check_and_bump_cases) (auto simp: topo_version_def find_update_topology dest: fnd)
  show "topo_version k r1 = topo_version k r" if "ev = None \<or> k \<noteq> tid"
    using assms that
    by (elim check_and_bump_cases; cases "find_topology k r")
      (auto simp: topo_version_def find_update_topology dest: fnd)
qed

lemma topo_version_tables [simp]:
  "topo_version k (r\<lparr>r_lans := a\<rparr>) = topo_version k r"
  "topo_version k (r\<lparr>r_deckies := b\<rparr>) = topo_version k r"
  "topo_version k (r\<lparr>r_edges := c\<rparr>) = topo_version k r"
  "topo_version k (r\<lparr>r_mutations := d\<rparr>) = topo_version k r"
  "topo_version k (r\<lparr>r_next_id := n\<rparr>) = topo_version k r"
  by (simp_all add: topo_version_def find_topology_def)

text \<open>The edits of the REST layer, each with its arguments; \<open>run_edit\<close> is the method it calls.\<close>

datatype edit =
    EAddLan nat string string bool "rat option" "rat option"
  | EUpdateLan nat lan_fields bool
  | EDeleteLan nat bool
  | EAddDecky nat nat string "string list" "decky_config option" "string option" "rat option" "rat option"
  | EUpdateDecky nat nat decky_fields bool
  | EDeleteDecky nat bool
  | EAddEdge nat nat nat bool bool
  | EDeleteEdge nat bool
  | EEnqueue nat nat string mutation_payload

definition discard :: "('a, 's) op \<Rightarrow> (unit, 's) op" where
  "discard m s = (case m s of (Inl e, s') \<Rightarrow> (Inl e, s') | (Inr _, s') \<Rightarrow> (Inr (), s'))"

lemma discard_outcome [simp]:
  "discard m s = (Inl e, s') \<longleftrightarrow> m s = (Inl e, s')"
  "discard m s = (Inr u, s') \<longleftrightarrow> (\<exists>x. m s = (Inr x, s'))"
  "snd (discard m s) = snd (m s)"
  by (auto simp: discard_def split: prod.splits sum.splits)

fun run_edit :: "edit \<Rightarrow> int option \<Rightarrow> (unit, repo) op" where
  "run_edit (EAddLan tid name subnet is_dmz x y) ev = discard (add_lan tid name subnet is_dmz x y ev)"
| "run_edit (EUpdateLan lid lf p) ev = update_lan lid lf ev p"
| "run_edit (EDeleteLan lid p) ev = delete_lan lid ev p"
| "run_edit (EAddDecky now tid name svcs cfg ip x y) ev =
     discard (add_topology_decky now tid name svcs cfg ip x y ev)"
| "run_edit (EUpdateDecky now du df p) ev = update_topology_decky now du df ev p"
| "run_edit (EDeleteDecky du p) ev = delete_topology_decky du ev p"
| "run_edit (EAddEdge tid du lid br fwd) ev = discard (add_topology_edge tid du lid br fwd ev)"
| "run_edit (EDeleteEdge eid p) ev = delete_topology_edge eid ev p"
| "run_edit (EEnqueue now tid opn payload) ev = discard (enqueue_topology_mutation now tid opn payload ev)"

fun edit_target :: "edit \<Rightarrow> repo \<Rightarrow> nat option" where
  "edit_target (EAddLan tid _ _ _ _ _) r = Some tid"
| "edit_target (EUpdateLan lid lf _) r =
     (if lf = no_lan_fields then None else map_option l_topology_id (find_lan lid r))"
| "edit_target (EDeleteLan lid _) r = map_option l_topology_id (find_lan lid r)"
| "edit_target (EAddDecky _ tid _ _ _ _ _ _) r = Some tid"
| "edit_target (EUpdateDecky _ du df _) r =
     (if df = no_decky_fields then None else map_option d_topology_id (find_decky du r))"
| "edit_target (EDeleteDecky du _) r = map_option d_topology_id (find_decky du r)"
| "edit_target (EAddEdge tid _ _ _ _) r = Some tid"
| "edit_target (EDeleteEdge eid _) r = map_option e_topology_id (find_edge eid r)"
| "edit_target (EEnqueue _ tid _ _) r = Some tid"

text \<open>What a successful edit did, uniformly: nothing, or a version check on its target followed by
  a change of the other tables.\<close>

lemma run_edit_outcome:
  assumes "run_edit c ev r = (Inr u, r')"
  shows "(edit_target c r = None \<and> r' = r) \<or>
    (\<exists>tid r1. edit_target c r = Some tid \<and> check_and_bump_version tid ev r = Inr r1 \<and>
       r_topologies r' = r_topologies r1 \<and> r_events r' = r_events r1)"
  using assms
proof (cases c)
  case (EAddLan tid name subnet is_dmz x y)
  with assms show ?thesis by (auto elim!: add_lan_InrE)
next
  case (EUpdateLan lid lf p)
  with assms show ?thesis by (auto elim!: update_lan_InrE)
next
  case (EDeleteLan lid p)
  with assms show ?thesis by (auto elim!: delete_lan_InrE)
next
  case (EAddDecky now tid name svcs cfg ip x y)
  with assms show ?thesis by (auto elim!: add_topology_decky_InrE)
next
  case (EUpdateDecky now du df p)
  with assms show ?thesis by (auto elim!: update_topology_decky_InrE)
next
  case (EDeleteDecky du p)
  with assms show ?thesis by (auto elim!: delete_topology_decky_InrE)
next
  case (EAddEdge tid du lid br fwd)
  with assms show ?thesis by (auto elim!: add_topology_edge_InrE)
next
  case (EDeleteEdge eid p)
  with assms show ?thesis by (auto elim!: delete_topology_edge_InrE)
next
  case (EEnqueue now tid opn payload)
  with assms show ?thesis by (auto elim!: enqueue_topology_mutation_InrE)
qed

lemma run_edit_raised: "run_edit c ev r = (Inl e, r') \<Longrightarrow> r' = r"
  by (cases c) (auto dest: guarded_Inl)

interpretation edits: versioned_write "run_edit c" "edit_target c" for c
proof
  show "r' = r" if "run_edit c ev r = (Inl e, r')" for ev r e r' using that by (rule run_edit_raised)
  show "topo_version tid r = Some v \<and> topo_version tid r' = Some (v + 1)"
    if "run_edit c (Some v) r = (Inr x, r')" "edit_target c r = Some tid" for v r x r' tid
    using run_edit_outcome [OF that(1)] that(2) topo_version_bumped(1)
    by (auto simp: topo_version_def find_topology_def)
  show "topo_version k r' = topo_version k r"
    if "run_edit c ev r = (Inr x, r')" "ev = None \<or> edit_target c r \<noteq> Some k" for ev r x r' k
    using run_edit_outcome [OF that(1)] that(2) topo_version_bumped(2)
    by (auto simp: topo_version_def find_topology_def)
qed

interpretation writers: concurrent_writers "run_edit c" "edit_target c" "run_edit c'" "edit_target c'" for c c' ..

text \<open>The winners among a sequence of edits for one version of one topology.\<close>

fun run_edits :: "(edit \<times> int option) list \<Rightarrow> repo \<Rightarrow> repo" where
  "run_edits [] r = r"
| "run_edits ((c, ev) # es) r = run_edits es (snd (run_edit c ev r))"

fun wins :: "nat \<Rightarrow> int \<Rightarrow> (edit \<times> int option) list \<Rightarrow> repo \<Rightarrow> nat" where
  "wins tid v [] r = 0"
| "wins tid v ((c, ev) # es) r =
     (if ev = Some v \<and> edit_target c r = Some tid \<and> fst (run_edit c ev r) = Inr () then 1 else 0)
     + wins tid v es (snd (run_edit c ev r))"

lemma wins_newer:
  "topo_version tid r = Some w \<Longrightarrow> v < w \<Longrightarrow> wins tid v es r = 0"
proof (induction es arbitrary: r w)
  case (Cons e es)
  obtain c ev where e: "e = (c, ev)" by fastforce
  from edits.version_grows [OF Cons.prems(1), of c ev] obtain w' where
    w': "topo_version tid (snd (run_edit c ev r)) = Some w'" "w \<le> w'" by blast
  have "fst (run_edit c ev r) \<noteq> Inr ()" if "ev = Some v" "edit_target c r = Some tid"
    using edits.stale_write_raises [OF that(2), of v] Cons.prems that(1) by force
  with Cons.IH [OF w'(1)] w'(2) Cons.prems(2) e show ?case by auto
qed simp

end
