(* ===== verification/Topology_Persistence.thy ===== *)
theory Topology_Persistence
  imports Topology_Repo_Inv Topology_Allocator "HOL-Library.Product_Lexorder"
begin

text \<open>
  The adapter between a generated plan and the repository (\<open>decnet/topology/persistence.py\<close>):
  \<open>persist\<close> writes a plan as a pending topology, \<open>hydrate\<close> reads a topology and its children back
  and completes the configuration of every decky (\<open>backfill_decky_configs\<close>), \<open>transition_status\<close>
  is the only legal way to change a status.

  \<open>persist\<close> is a chain of separate transactions: a failure half way leaves what was already
  written.  The read models (\<open>LANRow\<close>, \<open>DeckyRow\<close>, \<open>EdgeRow\<close>) are the table rows themselves.
\<close>

section \<open>Writing a plan\<close>

definition plan_decky_config :: "planned_decky \<Rightarrow> decky_config" where
  "plan_decky_config d = \<lparr>dc_name = Some (pd_name d), dc_services = Some (pd_services d),
     dc_ips_by_lan = Some (pd_ips_by_lan d), dc_forwards_l3 = Some (pd_forwards_l3 d),
     dc_service_config = Some (pd_service_config d), dc_archetype = None\<rparr>"

definition persist_lan :: "nat \<Rightarrow> planned_lan \<Rightarrow> (string, nat) dict \<Rightarrow> ((string, nat) dict, repo) op" where
  "persist_lan tid lan ids =
     bindS (add_lan tid (pl_name lan) (pl_subnet lan) (pl_is_dmz lan) (pl_x lan) (pl_y lan) None)
       (\<lambda>i. returnS (AList.update (pl_name lan) i ids))"

text \<open>\<open>next(iter({}))\<close> raises \<open>StopIteration\<close>, which leaves a coroutine as \<open>RuntimeError\<close>.\<close>

definition persist_decky ::
  "nat \<Rightarrow> nat \<Rightarrow> planned_decky \<Rightarrow> (string, nat) dict \<Rightarrow> ((string, nat) dict, repo) op" where
  "persist_decky now tid d ids =
     (case pd_ips_by_lan d of
        [] \<Rightarrow> raiseS RuntimeError
      | (_, primary_ip) # _ \<Rightarrow>
          bindS (add_topology_decky now tid (pd_name d) (pd_services d) (Some (plan_decky_config d))
                   (Some primary_ip) (pd_x d) (pd_y d) None)
            (\<lambda>i. returnS (AList.update (pd_name d) i ids)))"

definition persist_edge ::
  "nat \<Rightarrow> (string, nat) dict \<Rightarrow> (string, nat) dict \<Rightarrow> planned_edge \<Rightarrow> (unit, repo) op" where
  "persist_edge tid lan_ids decky_ids e =
     bindS (liftE (dict_index decky_ids (pe_decky_name e))) (\<lambda>du.
     bindS (liftE (dict_index lan_ids (pe_lan_name e))) (\<lambda>lid.
     bindS (add_topology_edge tid du lid (pe_is_bridge e) (pe_forwards_l3 e) None) (\<lambda>_. returnS ())))"

definition persist :: "nat \<Rightarrow> generated_topology \<Rightarrow> string option \<Rightarrow> (nat, repo) op" where
  "persist now plan target =
     bindS (create_topology now (cfg_name (gt_config plan)) (cfg_mode (gt_config plan)) target
              (Some (gt_config plan))) (\<lambda>tid.
     bindS (foldS (persist_lan tid) (gt_lans plan) []) (\<lambda>lan_ids.
     bindS (foldS (persist_decky now tid) (gt_deckies plan) []) (\<lambda>decky_ids.
     bindS (forS (persist_edge tid lan_ids decky_ids) (gt_edges plan)) (\<lambda>_.
       returnS tid))))"

section \<open>Status changes\<close>

definition transition_status :: "nat \<Rightarrow> nat \<Rightarrow> string \<Rightarrow> string option \<Rightarrow> (unit, repo) op" where
  "transition_status now tid new_status reason =
     bindS (get_topology tid) (\<lambda>topo.
       case topo of
         None \<Rightarrow> raiseS ValueError
       | Some t \<Rightarrow>
           bindS (liftE (assert_transition (t_status t) new_status)) (\<lambda>_.
             update_topology_status now tid new_status reason))"

section \<open>Reading a topology back\<close>

record hydrated =
  h_topology :: topology_row
  h_lans :: "lan_row list"
  h_deckies :: "decky_row list"
  h_edges :: "edge_row list"

definition empty_config :: decky_config where
  "empty_config = \<lparr>dc_name = None, dc_services = None, dc_ips_by_lan = None, dc_forwards_l3 = None,
     dc_service_config = None, dc_archetype = None\<rparr>"

abbreviation config_of :: "decky_row \<Rightarrow> decky_config" where
  "config_of d \<equiv> with_default empty_config (d_decky_config d)"

abbreviation ips_of :: "decky_config \<Rightarrow> (string, string) dict" where
  "ips_of c \<equiv> with_default [] (dc_ips_by_lan c)"

definition lans_by_id :: "lan_row list \<Rightarrow> (nat, lan_row) dict" where
  "lans_by_id lans = dict_of l_id (\<lambda>l. l) lans"

definition decky_edges :: "edge_row list \<Rightarrow> nat \<Rightarrow> nat list" where
  "decky_edges edges du = map e_lan_id (filter (\<lambda>e. e_decky_uuid e = du) edges)"

type_synonym allocs = "(nat, ip_allocator) dict"

definition alloc_for :: "lan_row \<Rightarrow> allocs \<Rightarrow> (ip_allocator option \<times> allocs) result" where
  "alloc_for lan allocs =
     (if l_subnet lan = [] then Inr (None, allocs)
      else case map_of allocs (l_id lan) of
             Some a \<Rightarrow> Inr (Some a, allocs)
           | None \<Rightarrow> bindE (IPAllocator_init (l_subnet lan)) (\<lambda>a.
               Inr (Some a, AList.update (l_id lan) a allocs)))"

text \<open>Pass 1: the addresses a decky already declares are taken.\<close>

definition reserve_declared ::
  "(nat, lan_row) dict \<Rightarrow> (string, string) dict \<Rightarrow> nat \<Rightarrow> allocs \<Rightarrow> allocs result" where
  "reserve_declared by_id existing lan_id allocs =
     (case map_of by_id lan_id of
        None \<Rightarrow> Inr allocs
      | Some lan \<Rightarrow>
          bindE (alloc_for lan allocs) (\<lambda>(a, allocs).
            case (a, map_of existing (l_name lan)) of
              (Some a, Some ip) \<Rightarrow>
                if ip \<noteq> [] \<and> IPAllocator_is_free ip a then
                  bindE (fst (IPAllocator_reserve ip a)) (\<lambda>_.
                    Inr (AList.update lan_id (snd (IPAllocator_reserve ip a)) allocs))
                else Inr allocs
            | _ \<Rightarrow> Inr allocs))"

definition backfill_pass1 ::
  "(nat, lan_row) dict \<Rightarrow> edge_row list \<Rightarrow> decky_row list \<Rightarrow> allocs \<Rightarrow> allocs result" where
  "backfill_pass1 by_id edges ordered =
     foldE (\<lambda>d. foldE (reserve_declared by_id (ips_of (config_of d))) (decky_edges edges (d_uuid d))) ordered"

text \<open>Pass 2: a missing address is the row's own one when it lies in the LAN and is free, else
  the next free one.\<close>

definition primary_fits :: "string option \<Rightarrow> lan_row \<Rightarrow> ip_allocator \<Rightarrow> bool result" where
  "primary_fits primary lan a =
     (case primary of
        None \<Rightarrow> Inr False
      | Some ip \<Rightarrow>
          if ip = [] then Inr False
          else bindE (parse_ipv4 ip) (\<lambda>addr.
               bindE (parse_net True (l_subnet lan)) (\<lambda>net.
                 Inr (ip_in_net addr net \<and> IPAllocator_is_free ip a))))"

definition fill_gap ::
  "(nat, lan_row) dict \<Rightarrow> string option \<Rightarrow> nat \<Rightarrow> (string, string) dict \<times> allocs \<Rightarrow>
   ((string, string) dict \<times> allocs) result" where
  "fill_gap by_id primary lan_id = (\<lambda>(ips, allocs).
     case map_of by_id lan_id of
       None \<Rightarrow> Inr (ips, allocs)
     | Some lan \<Rightarrow>
         if l_name lan \<in> fst ` set ips then Inr (ips, allocs)
         else bindE (alloc_for lan allocs) (\<lambda>(a, allocs).
           case a of
             None \<Rightarrow> Inr (ips, allocs)
           | Some a \<Rightarrow>
               if primary_fits primary lan a = Inr True then
                 (case primary of
                    None \<Rightarrow> Inr (ips, allocs)
                  | Some ip \<Rightarrow> Inr (AList.update (l_name lan) ip ips,
                      AList.update lan_id (snd (IPAllocator_reserve ip a)) allocs))
               else
                 (case IPAllocator_next_free a of
                    (Inl e, _) \<Rightarrow> Inl e
                  | (Inr ip, a') \<Rightarrow> Inr (AList.update (l_name lan) ip ips, AList.update lan_id a' allocs))))"

definition backfill_decky ::
  "(nat, lan_row) dict \<Rightarrow> edge_row list \<Rightarrow> decky_row \<Rightarrow> (nat, decky_config) dict \<times> allocs \<Rightarrow>
   ((nat, decky_config) dict \<times> allocs) result" where
  "backfill_decky by_id edges d = (\<lambda>(out, allocs).
     let cfg = config_of d;
         cfg = (if dc_name cfg = None then cfg\<lparr>dc_name := Some (d_name d)\<rparr> else cfg)
     in bindE (foldE (fill_gap by_id (d_ip d)) (decky_edges edges (d_uuid d)) (ips_of cfg, allocs))
          (\<lambda>(ips, allocs). Inr (AList.update (d_uuid d) (cfg\<lparr>dc_ips_by_lan := Some ips\<rparr>) out, allocs)))"

definition backfill_decky_configs ::
  "lan_row list \<Rightarrow> decky_row list \<Rightarrow> edge_row list \<Rightarrow> decky_row list result" where
  "backfill_decky_configs lans deckies edges =
     (let by_id = lans_by_id lans;
          ordered = sort_key (\<lambda>d. (d_name d, d_uuid d)) deckies
      in bindE (backfill_pass1 by_id edges ordered []) (\<lambda>allocs.
         bindE (foldE (backfill_decky by_id edges) ordered ([], allocs)) (\<lambda>(out, _).
           Inr (map (\<lambda>d. d\<lparr>d_decky_config := map_of out (d_uuid d)\<rparr>) deckies))))"

definition hydrate :: "nat \<Rightarrow> repo \<Rightarrow> hydrated option result" where
  "hydrate tid r =
     (case find_topology tid r of
        None \<Rightarrow> Inr None
      | Some topo \<Rightarrow>
          let lans = list_lans_for_topology tid r;
              deckies = list_topology_deckies tid r;
              edges = list_topology_edges tid r
          in bindE (backfill_decky_configs lans deckies edges) (\<lambda>deckies.
               Inr (Some \<lparr>h_topology = topo, h_lans = lans, h_deckies = deckies, h_edges = edges\<rparr>)))"

end
