(* ===== verification/Topology_Validate.thy ===== *)
theory Topology_Validate
  imports Topology_Persistence
begin

text \<open>
  The pre-deploy validator (\<open>decnet/topology/validate.py\<close>): one definition per rule, in the order
  of the source, over the hydrated view.  An issue keeps its severity, code and target; the
  human-readable message is not modelled.  \<open>check_all_lans_connected_to_dmz\<close> can raise
  \<open>KeyError\<close> (an edge into a LAN the view does not contain), so rules return a \<open>result\<close>.

  Two collaborators outside the topology package are arguments: \<open>known\<close> is the list
  \<open>all_service_names()\<close> returns, \<open>services\<close> the registry that \<open>get_service\<close> consults.
\<close>

section \<open>Issues\<close>

datatype target_value = TStr string | TNames "string list" | TInt nat | TNone

record validation_issue =
  vi_severity :: string
  vi_code :: string
  vi_target :: "(string, target_value) dict"

abbreviation issue_error :: "string \<Rightarrow> (string, target_value) dict \<Rightarrow> validation_issue" where
  "issue_error code target \<equiv> \<lparr>vi_severity = ''error'', vi_code = code, vi_target = target\<rparr>"

section \<open>Rules\<close>

definition check_exactly_one_dmz :: "hydrated \<Rightarrow> validation_issue list" where
  "check_exactly_one_dmz h =
     (let dmzs = filter l_is_dmz (h_lans h)
      in if length dmzs = 1 then []
         else if dmzs = [] then [issue_error ''DMZ_MISSING'' []]
         else [issue_error ''DMZ_MULTIPLE'' [(''lans'', TNames (map l_name dmzs))]])"

definition group_decky_lans :: "edge_row list \<Rightarrow> (nat, nat list) dict" where
  "group_decky_lans edges = fold (\<lambda>e d. AList.update (e_decky_uuid e)
     (set_add (e_lan_id e) (with_default [] (map_of d (e_decky_uuid e)))) d) edges []"

definition link :: "nat \<Rightarrow> nat \<Rightarrow> (nat, nat list) dict \<Rightarrow> (nat, nat list) dict result" where
  "link a b adj =
     (if a = b then Inr adj
      else bindE (dict_index adj a) (\<lambda>peers. Inr (AList.update a (set_add b peers) adj)))"

definition link_all :: "nat list \<Rightarrow> (nat, nat list) dict \<Rightarrow> (nat, nat list) dict result" where
  "link_all lan_ids adj =
     (if length lan_ids < 2 then Inr adj
      else foldE (\<lambda>a. foldE (\<lambda>b. link a b) lan_ids) lan_ids adj)"

definition build_adj :: "lan_row list \<Rightarrow> edge_row list \<Rightarrow> (nat, nat list) dict result" where
  "build_adj lans edges =
     foldE (\<lambda>(_, lan_ids). link_all lan_ids) (group_decky_lans edges)
       (map (\<lambda>(lid, _). (lid, [])) (lans_by_id lans))"

definition visit :: "nat \<Rightarrow> nat list \<times> nat list \<Rightarrow> nat list \<times> nat list" where
  "visit peer = (\<lambda>(reachable, nxt).
     if peer \<notin> set reachable then (reachable @ [peer], nxt @ [peer]) else (reachable, nxt))"

definition expand_node ::
  "(nat, nat list) dict \<Rightarrow> nat \<Rightarrow> nat list \<times> nat list \<Rightarrow> (nat list \<times> nat list) result" where
  "expand_node adj lid st = bindE (dict_index adj lid) (\<lambda>peers. Inr (fold visit peers st))"

abbreviation adj_range :: "(nat, nat list) dict \<Rightarrow> nat set" where
  "adj_range adj \<equiv> \<Union> (set ` snd ` set adj)"

lemma visit_simps:
  "p \<in> set re \<Longrightarrow> visit p (re, nx) = (re, nx)"
  "p \<notin> set re \<Longrightarrow> visit p (re, nx) = (re @ [p], nx @ [p])"
  by (simp_all add: visit_def)

lemma fold_visit:
  "fold visit peers (re, nx) = (re', nx') \<Longrightarrow>
     (\<exists>new. re' = re @ new \<and> nx' = nx @ new \<and> set new = set peers - set re)"
proof (induction peers arbitrary: re nx)
  case (Cons p peers)
  show ?case
  proof (cases "p \<in> set re")
    case True
    with Cons.prems have "fold visit peers (re, nx) = (re', nx')" by (simp add: visit_simps)
    from Cons.IH [OF this] True show ?thesis by auto
  next
    case False
    with Cons.prems have "fold visit peers (re @ [p], nx @ [p]) = (re', nx')" by (simp add: visit_simps)
    from Cons.IH [OF this] obtain new where "re' = (re @ [p]) @ new" "nx' = (nx @ [p]) @ new"
      "set new = set peers - set (re @ [p])" by blast
    with False show ?thesis by (intro exI [of _ "p # new"]) auto
  qed
qed simp

lemma expand_all:
  assumes "foldE (expand_node adj) frontier (re, nx) = Inr (re', nx')"
  shows "\<exists>new. re' = re @ new \<and> nx' = nx @ new \<and>
    set new = {p. \<exists>l peers. l \<in> set frontier \<and> map_of adj l = Some peers \<and> p \<in> set peers} - set re"
  using assms
proof (induction frontier arbitrary: re nx)
  case (Cons l frontier)
  from Cons.prems obtain peers st where p: "map_of adj l = Some peers"
    and st: "fold visit peers (re, nx) = st" and rest: "foldE (expand_node adj) frontier st = Inr (re', nx')"
    by (auto simp: expand_node_def [of adj l] dict_index_Inr [symmetric])
  obtain re1 nx1 where [simp]: "st = (re1, nx1)" by fastforce
  from fold_visit [of peers re nx] st obtain new where n: "re1 = re @ new" "nx1 = nx @ new"
    "set new = set peers - set re" by auto
  from Cons.IH [of re1 nx1] rest obtain new' where n': "re' = re1 @ new'" "nx' = nx1 @ new'"
    "set new' = {p. \<exists>l peers. l \<in> set frontier \<and> map_of adj l = Some peers \<and> p \<in> set peers} - set re1" by auto
  show ?case
    by (rule exI [of _ "new @ new'"]) (use n n' p in auto)
qed simp

text \<open>The breadth-first loop.  Each round either finds nothing new, and ends, or adds nodes from
  the finite range of the adjacency.\<close>

function bfs :: "(nat, nat list) dict \<Rightarrow> nat list \<Rightarrow> nat list \<Rightarrow> nat list result" where
  "bfs adj reachable [] = Inr reachable"
| "bfs adj reachable (f # fs) =
     (case foldE (expand_node adj) (f # fs) (reachable, []) of
        Inl e \<Rightarrow> Inl e
      | Inr (reachable', nxt) \<Rightarrow> bfs adj reachable' nxt)"
  by pat_completeness auto

termination
proof (relation "measure (\<lambda>(adj, re, fr). card (adj_range adj - set re) + (if fr = [] then 0 else 1))")
  fix adj re f fs re' nxt and x :: "nat list \<times> nat list"
  assume "foldE (expand_node adj) (f # fs) (re, []) = Inr x" "(re', nxt) = x"
  then have "foldE (expand_node adj) (f # fs) (re, []) = Inr (re', nxt)" by simp
  from expand_all [OF this] obtain new where new: "re' = re @ new" "nxt = new"
    "set new = {p. \<exists>l peers. l \<in> set (f # fs) \<and> map_of adj l = Some peers \<and> p \<in> set peers} - set re"
    by auto
  then have sub: "set new \<subseteq> adj_range adj - set re" by (auto dest!: map_of_SomeD)
  have fin: "finite (adj_range adj)" by simp
  show "((adj, re', nxt), (adj, re, f # fs)) \<in> measure (\<lambda>(adj, re, fr). card (adj_range adj - set re) + (if fr = [] then 0 else 1))"
  proof (cases "new = []")
    case True
    with new show ?thesis by simp
  next
    case False
    then obtain p where "p \<in> set new" by (meson hd_in_set)
    with sub new(1) have "adj_range adj - set re' \<subset> adj_range adj - set re" by auto
    with fin have "card (adj_range adj - set re') < card (adj_range adj - set re)"
      by (meson finite_Diff psubset_card_mono)
    then show ?thesis by simp
  qed
qed simp

definition check_all_lans_connected_to_dmz :: "hydrated \<Rightarrow> validation_issue list result" where
  "check_all_lans_connected_to_dmz h =
     (let lans = lans_by_id (h_lans h)
      in if lans = [] then Inr []
         else case find l_is_dmz (h_lans h) of
           None \<Rightarrow> Inr []
         | Some dmz \<Rightarrow>
             bindE (build_adj (h_lans h) (h_edges h)) (\<lambda>adj.
             bindE (bfs adj [l_id dmz] [l_id dmz]) (\<lambda>reachable.
               let orphans = map (\<lambda>(_, l). l_name l) (filter (\<lambda>(lid, _). lid \<notin> set reachable) lans)
               in if orphans = [] then Inr []
                  else Inr [issue_error ''DMZ_ORPHAN'' [(''lans'', TNames orphans)]])))"

definition check_no_orphan_deckies :: "hydrated \<Rightarrow> validation_issue list" where
  "check_no_orphan_deckies h =
     map (\<lambda>d. issue_error ''DECKY_ORPHAN'' [(''decky'', TStr (d_name d))])
       (filter (\<lambda>d. d_uuid d \<notin> set (map e_decky_uuid (h_edges h))) (h_deckies h))"

text \<open>The elements of a list that already occurred before them.\<close>

fun repeated :: "string set \<Rightarrow> string list \<Rightarrow> string list" where
  "repeated seen [] = []"
| "repeated seen (n # ns) = (if n \<in> seen then [n] else []) @ repeated (insert n seen) ns"

definition check_names_unique :: "hydrated \<Rightarrow> validation_issue list" where
  "check_names_unique h =
     map (\<lambda>n. issue_error ''LAN_NAME_DUP'' [(''lan'', TStr n)]) (repeated {} (map l_name (h_lans h)))
     @ map (\<lambda>n. issue_error ''DECKY_NAME_DUP'' [(''decky'', TStr n)]) (repeated {} (map d_name (h_deckies h)))"

type_synonym ip_buckets = "(string, (string, string) dict) dict"

definition addr_outside :: "string \<Rightarrow> string \<Rightarrow> bool result" where
  "addr_outside ip subnet =
     bindE (parse_ipv4 ip) (\<lambda>a. bindE (parse_net True subnet) (\<lambda>n. Inr (\<not> ip_in_net a n)))"

definition check_ip ::
  "(string, lan_row) dict \<Rightarrow> string \<Rightarrow> string \<times> string \<Rightarrow> ip_buckets \<times> validation_issue list \<Rightarrow>
   ip_buckets \<times> validation_issue list" where
  "check_ip by_name decky = (\<lambda>(lan_name, ip) (per_lan, issues).
     case map_of by_name lan_name of
       None \<Rightarrow> (per_lan, issues @ [issue_error ''IP_UNKNOWN_LAN'' [(''decky'', TStr decky), (''lan'', TStr lan_name)]])
     | Some lan \<Rightarrow>
         (case addr_outside ip (l_subnet lan) of
            Inl _ \<Rightarrow> (per_lan, issues @ [issue_error ''IP_MALFORMED'' [(''decky'', TStr decky), (''ip'', TStr ip)]])
          | Inr outside \<Rightarrow>
              let issues = (if outside then issues @ [issue_error ''IP_OUT_OF_SUBNET''
                    [(''decky'', TStr decky), (''lan'', TStr lan_name), (''ip'', TStr ip)]] else issues);
                  bucket = with_default [] (map_of per_lan lan_name)
              in case map_of bucket ip of
                   Some other \<Rightarrow> (AList.update lan_name bucket per_lan, issues @ [issue_error ''IP_COLLISION''
                     [(''lan'', TStr lan_name), (''ip'', TStr ip), (''deckies'', TNames [other, decky])]])
                 | None \<Rightarrow> (AList.update lan_name (AList.update ip decky bucket) per_lan, issues)))"

definition check_no_ip_collisions :: "hydrated \<Rightarrow> validation_issue list" where
  "check_no_ip_collisions h =
     (let by_name = dict_of l_name (\<lambda>l. l) (h_lans h)
      in snd (fold (\<lambda>d. fold (check_ip by_name (d_name d)) (ips_of (config_of d))) (h_deckies h) ([], [])))"

fun overlap_issues :: "(string \<times> ipv4_network) list \<Rightarrow> validation_issue list" where
  "overlap_issues [] = []"
| "overlap_issues ((na, a) # nets) =
     map (\<lambda>(nb, _). issue_error ''SUBNET_OVERLAP'' [(''lans'', TNames [na, nb])])
       (filter (\<lambda>(_, b). overlaps a b) nets) @ overlap_issues nets"

definition parse_lan_net :: "lan_row \<Rightarrow> (string \<times> ipv4_network) list" where
  "parse_lan_net l = (case parse_net True (l_subnet l) of Inl _ \<Rightarrow> [] | Inr n \<Rightarrow> [(l_name l, n)])"

definition check_no_subnet_overlap :: "hydrated \<Rightarrow> validation_issue list" where
  "check_no_subnet_overlap h =
     map (\<lambda>l. issue_error ''SUBNET_MALFORMED'' [(''lan'', TStr (l_name l))])
       (filter (\<lambda>l. parse_lan_net l = []) (h_lans h))
     @ overlap_issues (concat (map parse_lan_net (h_lans h)))"

definition check_services_known :: "string list \<Rightarrow> hydrated \<Rightarrow> validation_issue list" where
  "check_services_known known h =
     concat (map (\<lambda>d. map (\<lambda>svc. issue_error ''UNKNOWN_SERVICE'' [(''decky'', TStr (d_name d)), (''service'', TStr svc)])
       (filter (\<lambda>svc. svc \<notin> set known) (d_services d))) (h_deckies h))"

definition check_service_config_shape :: "hydrated \<Rightarrow> validation_issue list" where
  "check_service_config_shape h =
     concat (map (\<lambda>d. map (\<lambda>(svc, _). issue_error ''SERVICE_CFG_UNDECLARED'' [(''decky'', TStr (d_name d)), (''service'', TStr svc)])
       (filter (\<lambda>(svc, _). svc \<notin> set (d_services d)) (with_default [] (dc_service_config (config_of d)))))
       (h_deckies h))"

definition home_lan_for :: "edge_row list \<Rightarrow> (nat, nat) dict" where
  "home_lan_for edges =
     (let setdefault = (\<lambda>e d. if e_decky_uuid e \<in> fst ` set d then d
            else AList.update (e_decky_uuid e) (e_lan_id e) d)
      in fold setdefault edges
           (fold (\<lambda>e d. if \<not> e_is_bridge e then setdefault e d else d) edges []))"

definition check_gateway_homed_in_dmz :: "hydrated \<Rightarrow> validation_issue list" where
  "check_gateway_homed_in_dmz h =
     (if h_deckies h = [] then []
      else
        let by_id = lans_by_id (h_lans h);
            dmz_lan_ids = map l_id (filter l_is_dmz (h_lans h));
            home = home_lan_for (h_edges h)
        in concat (map (\<lambda>d.
             if dc_forwards_l3 (config_of d) \<noteq> Some True then []
             else case map_of home (d_uuid d) of
                None \<Rightarrow> [issue_error ''GATEWAY_NOT_IN_DMZ'' [(''decky'', TStr (d_name d)), (''lan'', TStr ''(no home LAN)'')]]
              | Some lid \<Rightarrow>
                  if lid \<in> set dmz_lan_ids then []
                  else [issue_error ''GATEWAY_NOT_IN_DMZ'' [(''decky'', TStr (d_name d)),
                    (''lan'', case map_of by_id lid of None \<Rightarrow> TNone | Some l \<Rightarrow> TStr (l_name l))]])
             (h_deckies h)))"

record service_info =
  svc_fleet_singleton :: bool
  svc_ports :: "nat list"

definition wanted_ports ::
  "(string \<rightharpoonup> service_info) \<Rightarrow> decky_row \<Rightarrow> (nat, string) dict \<Rightarrow> (nat, string) dict result" where
  "wanted_ports services d wanted =
     (if dc_forwards_l3 (config_of d) \<noteq> Some True then Inr wanted
      else foldE (\<lambda>svc wanted.
        case services svc of
          None \<Rightarrow> Inl KeyError
        | Some s \<Rightarrow>
            if svc_fleet_singleton s then Inr wanted
            else Inr (fold (\<lambda>port w. if port \<in> fst ` set w then w else AList.update port (d_name d) w)
                   (svc_ports s) wanted)) (d_services d) wanted)"

definition check_no_host_port_collision ::
  "(string \<rightharpoonup> service_info) \<Rightarrow> nat set option \<Rightarrow> hydrated \<Rightarrow> validation_issue list result" where
  "check_no_host_port_collision services bound h =
     bindE (foldE (wanted_ports services) (h_deckies h) []) (\<lambda>wanted.
       case (wanted, bound) of
         ([], _) \<Rightarrow> Inr []
       | (_, None) \<Rightarrow> Inr []
       | (_, Some b) \<Rightarrow> Inr (map (\<lambda>(port, decky). \<lparr>vi_severity = ''warning'', vi_code = ''PORT_COLLISION'',
             vi_target = [(''decky'', TStr decky), (''port'', TInt port)]\<rparr>)
           (filter (\<lambda>(port, _). port \<in> b) wanted)))"

section \<open>Running the rules\<close>

definition RULES :: "string list \<Rightarrow> (hydrated \<Rightarrow> validation_issue list result) list" where
  "RULES known =
     [\<lambda>h. Inr (check_exactly_one_dmz h),
      check_all_lans_connected_to_dmz,
      \<lambda>h. Inr (check_no_orphan_deckies h),
      \<lambda>h. Inr (check_names_unique h),
      \<lambda>h. Inr (check_no_ip_collisions h),
      \<lambda>h. Inr (check_no_subnet_overlap h),
      \<lambda>h. Inr (check_services_known known h),
      \<lambda>h. Inr (check_service_config_shape h)]"

definition validate :: "string list \<Rightarrow> hydrated \<Rightarrow> validation_issue list result" where
  "validate known h = foldE (\<lambda>rule out. bindE (rule h) (\<lambda>is. Inr (out @ is))) (RULES known) []"

definition errors :: "validation_issue list \<Rightarrow> validation_issue list" where
  "errors issues = filter (\<lambda>i. vi_severity i = ''error'') issues"

end
