(* ===== verification/Topology_Validate_Sound.thy ===== *)
theory Topology_Validate_Sound
  imports Topology_Validate
begin

text \<open>
  What the validator decides.  \<open>bridged\<close> is the specification of LAN connectivity: two different
  LANs are adjacent when some decky is attached to both.  The breadth-first search computes the
  LANs reachable from the DMZ in the transitive closure of \<open>bridged\<close>; each of the other rules
  is empty exactly when a plain property of the view holds; \<open>validate\<close> reports nothing exactly on
  the views that satisfy \<open>valid_topology\<close>.
\<close>

section \<open>Adjacency\<close>

definition adj_rel :: "(nat, nat list) dict \<Rightarrow> (nat \<times> nat) set" where
  "adj_rel adj = {(a, b). \<exists>peers. map_of adj a = Some peers \<and> b \<in> set peers}"

abbreviation attached :: "edge_row list \<Rightarrow> (nat \<times> nat) set" where
  "attached edges \<equiv> (\<lambda>e. (e_decky_uuid e, e_lan_id e)) ` set edges"

definition bridged :: "edge_row list \<Rightarrow> (nat \<times> nat) set" where
  "bridged edges = {(a, b). a \<noteq> b \<and> (\<exists>d. (d, a) \<in> attached edges \<and> (d, b) \<in> attached edges)}"

lemma dom_map_of [simp]: "dom (map_of d) = fst ` set d"
  by (simp add: dom_map_of_conv_image_fst)

lemma link_rel:
  assumes "a \<in> dom (map_of adj)"
  shows "\<exists>adj'. link a b adj = Inr adj' \<and> dom (map_of adj') = dom (map_of adj) \<and>
    adj_rel adj' = adj_rel adj \<union> (if a = b then {} else {(a, b)})"
proof (cases "a = b")
  case False
  from assms obtain peers where p: "map_of adj a = Some peers" by (metis domD)
  with False assms show ?thesis
    by (auto simp: link_def dict_index_def adj_rel_def dom_update split: if_splits simp del: dom_map_of)
qed (simp add: link_def)

lemma link_row_rel:
  assumes "a \<in> dom (map_of adj)"
  shows "\<exists>adj'. foldE (link a) bs adj = Inr adj' \<and> dom (map_of adj') = dom (map_of adj) \<and>
    adj_rel adj' = adj_rel adj \<union> {(a, b) |b. b \<in> set bs \<and> a \<noteq> b}"
  using assms
proof (induction bs arbitrary: adj)
  case (Cons b bs)
  from link_rel [OF Cons.prems, of b] obtain adj1 where 1: "link a b adj = Inr adj1"
    "dom (map_of adj1) = dom (map_of adj)" "adj_rel adj1 = adj_rel adj \<union> (if a = b then {} else {(a, b)})" by blast
  with Cons.IH [of adj1] Cons.prems obtain adj2 where "foldE (link a) bs adj1 = Inr adj2"
    "dom (map_of adj2) = dom (map_of adj)" "adj_rel adj2 = adj_rel adj1 \<union> {(a, b) |b. b \<in> set bs \<and> a \<noteq> b}" by auto
  with 1 show ?case by (intro exI [of _ adj2]) auto
qed simp

lemma link_rows_rel:
  assumes "set as \<subseteq> dom (map_of adj)"
  shows "\<exists>adj'. foldE (\<lambda>a. foldE (link a) bs) as adj = Inr adj' \<and> dom (map_of adj') = dom (map_of adj) \<and>
    adj_rel adj' = adj_rel adj \<union> {(a, b). a \<in> set as \<and> b \<in> set bs \<and> a \<noteq> b}"
  using assms
proof (induction as arbitrary: adj)
  case (Cons a as)
  from link_row_rel [of a adj bs] Cons.prems obtain adj1 where 1: "foldE (link a) bs adj = Inr adj1"
    "dom (map_of adj1) = dom (map_of adj)" "adj_rel adj1 = adj_rel adj \<union> {(a, b) |b. b \<in> set bs \<and> a \<noteq> b}" by auto
  with Cons.IH [of adj1] Cons.prems obtain adj2 where "foldE (\<lambda>a. foldE (link a) bs) as adj1 = Inr adj2"
    "dom (map_of adj2) = dom (map_of adj)"
    "adj_rel adj2 = adj_rel adj1 \<union> {(a, b). a \<in> set as \<and> b \<in> set bs \<and> a \<noteq> b}" by auto
  with 1 show ?case by (intro exI [of _ adj2]) auto
qed simp

lemma link_all_rel:
  assumes "set ls \<subseteq> dom (map_of adj)"
  shows "\<exists>adj'. link_all ls adj = Inr adj' \<and> dom (map_of adj') = dom (map_of adj) \<and>
    adj_rel adj' = adj_rel adj \<union> {(a, b). a \<in> set ls \<and> b \<in> set ls \<and> a \<noteq> b}"
proof (cases "length ls < 2")
  case True
  then have none: "{(a, b). a \<in> set ls \<and> b \<in> set ls \<and> a \<noteq> b} = {}"
    by (cases ls; cases "tl ls") auto
  show ?thesis unfolding none using True by (simp add: link_all_def)
qed (use link_rows_rel [OF assms, of ls] in \<open>simp add: link_all_def\<close>)

lemma link_groups_rel:
  assumes "\<forall>(u, ls) \<in> set gs. set ls \<subseteq> dom (map_of adj)"
  shows "\<exists>adj'. foldE (\<lambda>(_, ls). link_all ls) gs adj = Inr adj' \<and> dom (map_of adj') = dom (map_of adj) \<and>
    adj_rel adj' = adj_rel adj \<union> {(a, b). a \<noteq> b \<and> (\<exists>(u, ls) \<in> set gs. a \<in> set ls \<and> b \<in> set ls)}"
  using assms
proof (induction gs arbitrary: adj)
  case (Cons g gs)
  obtain u ls where g: "g = (u, ls)" by fastforce
  from link_all_rel [of ls adj] Cons.prems g obtain adj1 where 1: "link_all ls adj = Inr adj1"
    "dom (map_of adj1) = dom (map_of adj)" "adj_rel adj1 = adj_rel adj \<union> {(a, b). a \<in> set ls \<and> b \<in> set ls \<and> a \<noteq> b}" by auto
  with Cons.IH [of adj1] Cons.prems obtain adj2 where "foldE (\<lambda>(_, ls). link_all ls) gs adj1 = Inr adj2"
    "dom (map_of adj2) = dom (map_of adj)"
    "adj_rel adj2 = adj_rel adj1 \<union> {(a, b). a \<noteq> b \<and> (\<exists>(u, ls) \<in> set gs. a \<in> set ls \<and> b \<in> set ls)}" by auto
  with 1 g show ?case by (intro exI [of _ adj2]) auto
qed simp

lemma group_decky_lans_snoc:
  "group_decky_lans (es @ [e]) = AList.update (e_decky_uuid e)
     (set_add (e_lan_id e) (with_default [] (map_of (group_decky_lans es) (e_decky_uuid e)))) (group_decky_lans es)"
  by (simp add: group_decky_lans_def)

lemma group_decky_lans_lookup:
  "distinct (map fst (group_decky_lans es)) \<and>
   (case map_of (group_decky_lans es) u of
      None \<Rightarrow> u \<notin> e_decky_uuid ` set es
    | Some ls \<Rightarrow> set ls = {l. (u, l) \<in> attached es})"
proof (induction es arbitrary: u rule: rev_induct)
  case Nil
  then show ?case by (simp add: group_decky_lans_def)
next
  case (snoc e es)
  have d: "distinct (map fst (group_decky_lans (es @ [e])))"
    using snoc by (simp add: group_decky_lans_snoc distinct_update)
  show ?case
  proof (cases "u = e_decky_uuid e")
    case True
    then have "map_of (group_decky_lans (es @ [e])) u =
        Some (set_add (e_lan_id e) (with_default [] (map_of (group_decky_lans es) u)))"
      by (simp add: group_decky_lans_snoc)
    moreover have "set (with_default [] (map_of (group_decky_lans es) u)) = {l. (u, l) \<in> attached es}"
      using snoc [of u] by (cases "map_of (group_decky_lans es) u") (auto simp: with_default_def)
    ultimately show ?thesis using d True by auto
  next
    case False
    then have "map_of (group_decky_lans (es @ [e])) u = map_of (group_decky_lans es) u"
      by (simp add: group_decky_lans_snoc)
    with snoc [of u] d False show ?thesis
      by (cases "map_of (group_decky_lans es) u") (simp_all del: map_of_eq_Some_iff)
  qed
qed

lemma in_group_decky_lans:
  assumes "(u, ls) \<in> set (group_decky_lans es)"
  shows "set ls = {l. (u, l) \<in> attached es}"
  using assms group_decky_lans_lookup [of es u] by (auto split: option.splits)

lemma bridged_groups:
  "bridged es = {(a, b). a \<noteq> b \<and> (\<exists>(u, ls) \<in> set (group_decky_lans es). a \<in> set ls \<and> b \<in> set ls)}"
proof -
  have "(\<exists>(u, ls) \<in> set (group_decky_lans es). a \<in> set ls \<and> b \<in> set ls) \<longleftrightarrow>
      (\<exists>d. (d, a) \<in> attached es \<and> (d, b) \<in> attached es)" for a b
  proof
    assume "\<exists>d. (d, a) \<in> attached es \<and> (d, b) \<in> attached es"
    then obtain d where d: "(d, a) \<in> attached es" "(d, b) \<in> attached es" by blast
    then have "d \<in> e_decky_uuid ` set es" by auto
    with group_decky_lans_lookup [of es d] obtain ls where
      "map_of (group_decky_lans es) d = Some ls" "set ls = {l. (d, l) \<in> attached es}"
      by (auto split: option.splits simp del: map_of_eq_Some_iff)
    with d show "\<exists>(u, ls) \<in> set (group_decky_lans es). a \<in> set ls \<and> b \<in> set ls"
      by (auto dest!: map_of_SomeD)
  next
    assume "\<exists>(u, ls) \<in> set (group_decky_lans es). a \<in> set ls \<and> b \<in> set ls"
    then obtain u ls where u: "(u, ls) \<in> set (group_decky_lans es)" "a \<in> set ls" "b \<in> set ls" by blast
    from in_group_decky_lans [OF u(1)] u(2,3) have "(u, a) \<in> attached es" "(u, b) \<in> attached es" by simp_all
    then show "\<exists>d. (d, a) \<in> attached es \<and> (d, b) \<in> attached es" by blast
  qed
  then show ?thesis unfolding bridged_def by simp
qed

lemma lans_by_id_keys: "fst ` set (lans_by_id lans) = l_id ` set lans"
proof -
  have "fst ` set (fold (\<lambda>x d. AList.update (l_id x) x d) lans d) = l_id ` set lans \<union> fst ` set d" for d
    by (induction lans arbitrary: d) (auto simp: dom_update)
  then show ?thesis by (simp add: lans_by_id_def dict_of_def)
qed

lemma build_adj_ok:
  assumes "\<forall>e \<in> set edges. e_lan_id e \<in> l_id ` set lans"
  shows "\<exists>adj. build_adj lans edges = Inr adj \<and> dom (map_of adj) = l_id ` set lans \<and> adj_rel adj = bridged edges"
proof -
  let ?adj0 = "map (\<lambda>(lid, _). (lid, [])) (lans_by_id lans) :: (nat, nat list) dict"
  have dom: "dom (map_of ?adj0) = l_id ` set lans"
    by (simp add: image_image case_prod_beta lans_by_id_keys)
  have "adj_rel ?adj0 = {}" by (auto simp: adj_rel_def dest!: map_of_SomeD)
  moreover have "\<forall>(u, ls) \<in> set (group_decky_lans edges). set ls \<subseteq> dom (map_of ?adj0)"
    unfolding dom using in_group_decky_lans [of _ _ edges] assms by force
  ultimately show ?thesis
    using link_groups_rel [of "group_decky_lans edges" ?adj0] dom
    unfolding build_adj_def bridged_groups by force
qed

section \<open>The search\<close>

lemma expand_all_total:
  assumes "set frontier \<subseteq> dom (map_of adj)"
  shows "\<exists>st'. foldE (expand_node adj) frontier st = Inr st'"
  using assms
proof (induction frontier arbitrary: st)
  case (Cons l frontier)
  then obtain peers where "dict_index adj l = Inr peers"
    by (metis dict_index_Inr domD list.set_intros(1) subsetD)
  with Cons show ?case by (simp add: expand_node_def [of adj l])
qed simp

lemma bfs_correct:
  assumes "set frontier \<subseteq> set re"
    and "\<And>a b. a \<in> set re - set frontier \<Longrightarrow> (a, b) \<in> adj_rel adj \<Longrightarrow> b \<in> set re"
    and "set re \<subseteq> dom (map_of adj)" "Range (adj_rel adj) \<subseteq> dom (map_of adj)"
  shows "\<exists>out. bfs adj re frontier = Inr out \<and> set out = (adj_rel adj)\<^sup>* `` set re"
  using assms
proof (induction adj re frontier rule: bfs.induct)
  case (1 adj re)
  then have "(adj_rel adj)\<^sup>* `` set re \<subseteq> set re" by (intro Image_closed_trancl [THEN equalityD1]) auto
  then show ?case by auto
next
  case (2 adj re f fs)
  have "\<exists>st'. foldE (expand_node adj) (f # fs) (re, []) = Inr st'"
    using "2.prems"(1,3) by (intro expand_all_total) blast
  then obtain re' nxt where ex: "foldE (expand_node adj) (f # fs) (re, []) = Inr (re', nxt)" by auto
  from expand_all [OF ex] have new: "re' = re @ nxt"
    "set nxt = {p. \<exists>l peers. l \<in> set (f # fs) \<and> map_of adj l = Some peers \<and> p \<in> set peers} - set re" by auto
  then have nxt: "set nxt = adj_rel adj `` set (f # fs) - set re" by (auto simp: adj_rel_def)
  have "set nxt \<subseteq> Range (adj_rel adj)" unfolding nxt by blast
  moreover have "b \<in> set re'" if "a \<in> set re' - set nxt" "(a, b) \<in> adj_rel adj" for a b
    using that "2.prems"(2) [of a b] unfolding new(1) nxt set_append by blast
  moreover have "set re' \<subseteq> dom (map_of adj)"
    using "2.prems"(3,4) \<open>set nxt \<subseteq> Range (adj_rel adj)\<close> unfolding new(1) set_append by blast
  ultimately have "\<exists>out. bfs adj re' nxt = Inr out \<and> set out = (adj_rel adj)\<^sup>* `` set re'"
    using "2.prems"(4) by (intro "2.IH" [OF ex refl]) (simp_all only: new(1) set_append, blast+)
  moreover have "(adj_rel adj)\<^sup>* `` set re' = (adj_rel adj)\<^sup>* `` set re"
  proof -
    have "set re' \<subseteq> (adj_rel adj)\<^sup>* `` set re"
      unfolding new(1) set_append nxt using "2.prems"(1) by blast
    then show ?thesis unfolding new(1) by (auto intro: rtrancl_trans) (meson Image_iff in_mono rtrancl_trans)
  qed
  ultimately show ?case by (simp only: bfs.simps ex sum.case prod.case)
qed

declare bfs.simps [simp del]

definition edges_known :: "hydrated \<Rightarrow> bool" where
  "edges_known h \<longleftrightarrow> (\<forall>e \<in> set (h_edges h). e_lan_id e \<in> l_id ` set (h_lans h))"

lemma connected_check:
  assumes "edges_known h" and "find l_is_dmz (h_lans h) = Some dmz"
  shows "\<exists>issues. check_all_lans_connected_to_dmz h = Inr issues \<and>
    (issues = [] \<longleftrightarrow> (\<forall>l \<in> set (h_lans h). (l_id dmz, l_id l) \<in> (bridged (h_edges h))\<^sup>*))"
proof -
  from assms(2) have dmz: "dmz \<in> set (h_lans h)" by (auto simp: find_Some_iff)
  from build_adj_ok [of "h_edges h" "h_lans h"] assms(1) obtain adj where
    adj: "build_adj (h_lans h) (h_edges h) = Inr adj" "dom (map_of adj) = l_id ` set (h_lans h)"
      "adj_rel adj = bridged (h_edges h)" by (auto simp: edges_known_def)
  have "Range (adj_rel adj) \<subseteq> dom (map_of adj)"
    using assms(1) unfolding adj(2,3) edges_known_def bridged_def by auto
  with dmz have "\<exists>out. bfs adj [l_id dmz] [l_id dmz] = Inr out \<and> set out = (adj_rel adj)\<^sup>* `` set [l_id dmz]"
    by (intro bfs_correct) (auto simp del: dom_map_of simp: adj(2))
  then obtain out where out: "bfs adj [l_id dmz] [l_id dmz] = Inr out"
    "set out = {x. (l_id dmz, x) \<in> (bridged (h_edges h))\<^sup>*}" by (auto simp: adj(3))
  define orphans where "orphans = map (\<lambda>(_, l). l_name l) (filter (\<lambda>(lid, _). lid \<notin> set out) (lans_by_id (h_lans h)))"
  have "orphans = [] \<longleftrightarrow> (\<forall>k \<in> fst ` set (lans_by_id (h_lans h)). k \<in> set out)"
    by (auto simp: orphans_def filter_empty_conv)
  also have "\<dots> \<longleftrightarrow> (\<forall>l \<in> set (h_lans h). (l_id dmz, l_id l) \<in> (bridged (h_edges h))\<^sup>*)"
    by (simp add: lans_by_id_keys out(2))
  finally have o: "orphans = [] \<longleftrightarrow> (\<forall>l \<in> set (h_lans h). (l_id dmz, l_id l) \<in> (bridged (h_edges h))\<^sup>*)" .
  have "lans_by_id (h_lans h) \<noteq> []" using lans_by_id_keys [of "h_lans h"] dmz by auto
  then have "check_all_lans_connected_to_dmz h = Inr (if orphans = [] then [] else
      [issue_error ''DMZ_ORPHAN'' [(''lans'', TNames orphans)]])"
    by (simp add: check_all_lans_connected_to_dmz_def assms(2) adj(1) out(1) orphans_def Let_def)
  with o show ?thesis by auto
qed

section \<open>The other rules\<close>

lemma one_dmz_check: "check_exactly_one_dmz h = [] \<longleftrightarrow> length (filter l_is_dmz (h_lans h)) = 1"
  by (simp add: check_exactly_one_dmz_def Let_def)

lemma orphan_deckies_check:
  "check_no_orphan_deckies h = [] \<longleftrightarrow> d_uuid ` set (h_deckies h) \<subseteq> e_decky_uuid ` set (h_edges h)"
  by (auto simp: check_no_orphan_deckies_def filter_empty_conv)

lemma repeated_Nil: "repeated seen xs = [] \<longleftrightarrow> distinct xs \<and> set xs \<inter> seen = {}"
  by (induction xs arbitrary: seen) auto

lemma names_check:
  "check_names_unique h = [] \<longleftrightarrow> distinct (map l_name (h_lans h)) \<and> distinct (map d_name (h_deckies h))"
  by (simp add: check_names_unique_def repeated_Nil)

lemma services_check:
  "check_services_known known h = [] \<longleftrightarrow> (\<forall>d \<in> set (h_deckies h). set (d_services d) \<subseteq> set known)"
  by (auto simp: check_services_known_def filter_empty_conv)

lemma service_config_check:
  "check_service_config_shape h = [] \<longleftrightarrow>
     (\<forall>d \<in> set (h_deckies h). fst ` set (with_default [] (dc_service_config (config_of d))) \<subseteq> set (d_services d))"
  by (auto simp: check_service_config_shape_def filter_empty_conv case_prod_beta image_subset_iff)

lemma overlap_issues_Nil:
  "overlap_issues nets = [] \<longleftrightarrow> sorted_wrt (\<lambda>a b. \<not> overlaps a b) (map snd nets)"
proof (induction nets)
  case (Cons p nets)
  obtain na a where "p = (na, a)" by fastforce
  with Cons show ?case by (auto simp: filter_empty_conv)
qed simp

abbreviation lan_nets :: "lan_row list \<Rightarrow> ipv4_network list" where
  "lan_nets lans \<equiv> map snd (concat (map parse_lan_net lans))"

lemma subnets_check:
  "check_no_subnet_overlap h = [] \<longleftrightarrow>
     (\<forall>l \<in> set (h_lans h). \<exists>n. parse_net True (l_subnet l) = Inr n) \<and>
     sorted_wrt (\<lambda>a b. \<not> overlaps a b) (lan_nets (h_lans h))"
proof -
  have "parse_lan_net l \<noteq> [] \<longleftrightarrow> (\<exists>n. parse_net True (l_subnet l) = Inr n)" for l
    by (auto simp: parse_lan_net_def split: sum.splits)
  then show ?thesis by (simp add: check_no_subnet_overlap_def overlap_issues_Nil filter_empty_conv)
qed

text \<open>The address rule: every declared address parses, lies in its LAN, and no (LAN, address) pair
  is declared twice.\<close>

definition ip_good :: "(string, lan_row) dict \<Rightarrow> string \<times> string \<Rightarrow> bool" where
  "ip_good by_name = (\<lambda>(k, ip). \<exists>lan. map_of by_name k = Some lan \<and> addr_outside ip (l_subnet lan) = Inr False)"

definition bucket :: "ip_buckets \<Rightarrow> string \<Rightarrow> string set" where
  "bucket per k = fst ` set (with_default [] (map_of per k))"

lemma check_ip_bad:
  assumes "\<not> ip_good by_name (k, ip)"
  shows "snd (check_ip by_name d (k, ip) (per, iss)) \<noteq> []"
proof (cases "map_of by_name k")
  case (Some lan)
  with assms show ?thesis
    by (cases "addr_outside ip (l_subnet lan)")
      (auto simp: check_ip_def ip_good_def Let_def split: option.splits)
qed (simp add: check_ip_def)

lemma check_ip_good:
  assumes "ip_good by_name (k, ip)"
  shows "ip \<in> bucket per k \<Longrightarrow> snd (check_ip by_name d (k, ip) (per, iss)) \<noteq> []"
    and "ip \<notin> bucket per k \<Longrightarrow> check_ip by_name d (k, ip) (per, iss) =
      (AList.update k (AList.update ip d (with_default [] (map_of per k))) per, iss)"
proof -
  from assms obtain lan where lan: "map_of by_name k = Some lan" "addr_outside ip (l_subnet lan) = Inr False"
    by (auto simp: ip_good_def)
  let ?b = "with_default [] (map_of per k)"
  show "snd (check_ip by_name d (k, ip) (per, iss)) \<noteq> []" if "ip \<in> bucket per k"
  proof -
    from that obtain x where "map_of ?b ip = Some x" unfolding bucket_def by (metis map_of_eq_None_iff not_Some_eq)
    with lan show ?thesis by (simp add: check_ip_def)
  qed
  show "check_ip by_name d (k, ip) (per, iss) = (AList.update k (AList.update ip d ?b) per, iss)"
    if "ip \<notin> bucket per k"
  proof -
    from that have "map_of ?b ip = None" by (simp add: map_of_eq_None_iff bucket_def)
    with lan show ?thesis by (simp add: check_ip_def)
  qed
qed

lemma bucket_update:
  "bucket (AList.update k (AList.update ip d (with_default [] (map_of per k))) per) j =
     (if j = k then insert ip (bucket per k) else bucket per j)"
  by (simp add: bucket_def dom_update)

lemma bucket_Nil [simp]: "bucket [] k = {}"
  by (simp add: bucket_def)

lemma check_ip_issues_grow: "iss \<noteq> [] \<Longrightarrow> snd (check_ip by_name d p (per, iss)) \<noteq> []"
  by (auto simp: check_ip_def Let_def split: prod.splits option.splits sum.splits)

lemma check_ips_Nil:
  "snd (fold (\<lambda>(d, p). check_ip by_name d p) xs (per, iss)) = [] \<longleftrightarrow>
     iss = [] \<and> (\<forall>(d, p) \<in> set xs. ip_good by_name p) \<and> distinct (map snd xs) \<and>
     (\<forall>(d, (k, ip)) \<in> set xs. ip \<notin> bucket per k)"
proof (induction xs arbitrary: per iss)
  case (Cons x xs)
  obtain d k ip where x: "x = (d, (k, ip))" by (metis surj_pair)
  obtain per' iss' where st: "check_ip by_name d (k, ip) (per, iss) = (per', iss')" by fastforce
  have step: "fold (\<lambda>(d, p). check_ip by_name d p) (x # xs) (per, iss) =
      fold (\<lambda>(d, p). check_ip by_name d p) xs (per', iss')" by (simp add: x st)
  let ?lhs = "\<lambda>per iss. iss = [] \<and> (\<forall>(d, p) \<in> set xs. ip_good by_name p) \<and> distinct (map snd xs) \<and>
     (\<forall>(d, (k, ip)) \<in> set xs. ip \<notin> bucket per k)"
  let ?rhs = "iss = [] \<and> (\<forall>(d, p) \<in> set (x # xs). ip_good by_name p) \<and> distinct (map snd (x # xs)) \<and>
     (\<forall>(d, (k, ip)) \<in> set (x # xs). ip \<notin> bucket per k)"
  show ?case
    unfolding step Cons.IH
  proof (cases "iss = [] \<and> ip_good by_name (k, ip) \<and> ip \<notin> bucket per k")
    case True
    then have "per' = AList.update k (AList.update ip d (with_default [] (map_of per k))) per" and iss': "iss' = []"
      using check_ip_good(2) [of by_name k ip per d iss] st by simp_all
    then have "bucket per' j = (if j = k then insert ip (bucket per k) else bucket per j)" for j
      by (simp only: bucket_update)
    with True iss' show "?lhs per' iss' = ?rhs" by (auto simp: x split: if_splits) force+
  next
    case False
    have "iss' \<noteq> []"
      using False check_ip_issues_grow [of iss by_name d "(k, ip)" per] check_ip_bad [of by_name k ip d per iss]
        check_ip_good(1) [of by_name k ip per d iss] st by auto
    with False show "?lhs per' iss' = ?rhs" by (auto simp: x)
  qed
qed simp

definition declared_ips :: "hydrated \<Rightarrow> (string \<times> string) list" where
  "declared_ips h = concat (map (\<lambda>d. ips_of (config_of d)) (h_deckies h))"

lemma fold_nested:
  "fold (\<lambda>d. fold (f (g d)) (h d)) ds st = fold (\<lambda>(n, p). f n p) (concat (map (\<lambda>d. map (Pair (g d)) (h d)) ds)) st"
  by (induction ds arbitrary: st) (simp_all add: fold_map comp_def)

lemma ips_check:
  "check_no_ip_collisions h = [] \<longleftrightarrow>
     (\<forall>p \<in> set (declared_ips h). ip_good (dict_of l_name (\<lambda>l. l) (h_lans h)) p) \<and> distinct (declared_ips h)"
proof -
  let ?xs = "concat (map (\<lambda>d. map (Pair (d_name d)) (ips_of (config_of d))) (h_deckies h))"
  have snd: "map snd ?xs = declared_ips h" by (simp add: declared_ips_def map_concat comp_def)
  then have set: "set (declared_ips h) = snd ` set ?xs" by (metis list.set_map)
  have "check_no_ip_collisions h = [] \<longleftrightarrow>
      (\<forall>(d, p) \<in> set ?xs. ip_good (dict_of l_name (\<lambda>l. l) (h_lans h)) p) \<and> distinct (map snd ?xs)"
    unfolding check_no_ip_collisions_def Let_def
      fold_nested [of "check_ip (dict_of l_name (\<lambda>l. l) (h_lans h))" d_name "\<lambda>d. ips_of (config_of d)" "h_deckies h"]
      check_ips_Nil by simp
  then show ?thesis unfolding snd set by (simp add: case_prod_beta)
qed

section \<open>The whole validator\<close>

definition valid_topology :: "string list \<Rightarrow> hydrated \<Rightarrow> bool" where
  "valid_topology known h \<longleftrightarrow>
     (\<exists>dmz. filter l_is_dmz (h_lans h) = [dmz] \<and>
        (\<forall>l \<in> set (h_lans h). (l_id dmz, l_id l) \<in> (bridged (h_edges h))\<^sup>*)) \<and>
     d_uuid ` set (h_deckies h) \<subseteq> e_decky_uuid ` set (h_edges h) \<and>
     distinct (map l_name (h_lans h)) \<and> distinct (map d_name (h_deckies h)) \<and>
     (\<forall>p \<in> set (declared_ips h). ip_good (dict_of l_name (\<lambda>l. l) (h_lans h)) p) \<and> distinct (declared_ips h) \<and>
     (\<forall>l \<in> set (h_lans h). \<exists>n. parse_net True (l_subnet l) = Inr n) \<and>
     sorted_wrt (\<lambda>a b. \<not> overlaps a b) (lan_nets (h_lans h)) \<and>
     (\<forall>d \<in> set (h_deckies h). set (d_services d) \<subseteq> set known) \<and>
     (\<forall>d \<in> set (h_deckies h). fst ` set (with_default [] (dc_service_config (config_of d))) \<subseteq> set (d_services d))"

lemmas rule_checks = one_dmz_check orphan_deckies_check names_check ips_check subnets_check services_check
  service_config_check

lemma validate_concat:
  assumes "check_all_lans_connected_to_dmz h = Inr conn"
  shows "validate known h = Inr (check_exactly_one_dmz h @ conn @ check_no_orphan_deckies h @
    check_names_unique h @ check_no_ip_collisions h @ check_no_subnet_overlap h @
    check_services_known known h @ check_service_config_shape h)"
  using assms by (simp add: validate_def RULES_def)

lemma length_filter_one: "length (filter P xs) = 1 \<Longrightarrow> find P xs = Some x \<Longrightarrow> filter P xs = [x]"
  by (induction xs) (auto split: if_splits)

lemma validate_total:
  assumes "edges_known h"
  shows "\<exists>issues. validate known h = Inr issues"
proof (cases "find l_is_dmz (h_lans h)")
  case None
  then have "check_all_lans_connected_to_dmz h = Inr []"
    by (simp add: check_all_lans_connected_to_dmz_def Let_def)
  then show ?thesis by (simp add: validate_concat)
next
  case (Some dmz)
  from connected_check [OF assms Some] show ?thesis using validate_concat by blast
qed

lemma validate_iff_valid:
  assumes "edges_known h"
  shows "validate known h = Inr [] \<longleftrightarrow> valid_topology known h"
proof (cases "find l_is_dmz (h_lans h)")
  case None
  then have "filter l_is_dmz (h_lans h) = []" by (simp add: find_None_iff filter_empty_conv)
  moreover have "check_all_lans_connected_to_dmz h = Inr []"
    using None by (simp add: check_all_lans_connected_to_dmz_def Let_def)
  ultimately show ?thesis by (simp add: validate_concat valid_topology_def one_dmz_check)
next
  case (Some dmz)
  from connected_check [OF assms Some] obtain conn where conn: "check_all_lans_connected_to_dmz h = Inr conn"
    "conn = [] \<longleftrightarrow> (\<forall>l \<in> set (h_lans h). (l_id dmz, l_id l) \<in> (bridged (h_edges h))\<^sup>*)" by blast
  have "length (filter l_is_dmz (h_lans h)) = 1 \<longleftrightarrow> filter l_is_dmz (h_lans h) = [dmz]"
    using length_filter_one [OF _ Some] by auto
  moreover have "filter l_is_dmz (h_lans h) = [x] \<Longrightarrow> x = dmz" for x
    using length_filter_one [OF _ Some] by simp
  ultimately show ?thesis
    unfolding validate_concat [OF conn(1)] valid_topology_def by (auto simp: rule_checks conn(2))
qed

end
