(* ===== verification/Topology_Roundtrip.thy ===== *)
theory Topology_Roundtrip
  imports Topology_Generator Topology_Validate_Sound
begin

text \<open>
  From a plan to a validated topology: \<open>persist\<close> on a well-formed plan writes exactly the plan's
  LANs, deckies and edges and returns normally; \<open>hydrate\<close> reads them back, sorted by name, with
  every decky configuration unchanged; and the view of a plan that \<open>generate\<close> produced passes the
  validator.
\<close>

section \<open>What \<open>persist\<close> writes\<close>

definition lan_row_of :: "nat \<Rightarrow> nat \<Rightarrow> planned_lan \<Rightarrow> lan_row" where
  "lan_row_of tid i l = \<lparr>l_id = i, l_topology_id = tid, l_name = pl_name l, l_docker_network_id = None,
     l_subnet = pl_subnet l, l_is_dmz = pl_is_dmz l, l_x = pl_x l, l_y = pl_y l\<rparr>"

definition decky_row_of :: "nat \<Rightarrow> nat \<Rightarrow> nat \<Rightarrow> planned_decky \<Rightarrow> decky_row" where
  "decky_row_of now tid i d = \<lparr>d_uuid = i, d_topology_id = tid, d_name = pd_name d, d_services = pd_services d,
     d_decky_config = Some (plan_decky_config d), d_ip = Some (snd (hd (pd_ips_by_lan d))), d_state = ''pending'',
     d_last_error = None, d_compose_hash = None, d_last_seen = None, d_updated_at = now, d_x = pd_x d, d_y = pd_y d\<rparr>"

definition edge_row_of :: "nat \<Rightarrow> (string \<Rightarrow> nat) \<Rightarrow> (string \<Rightarrow> nat) \<Rightarrow> nat \<Rightarrow> planned_edge \<Rightarrow> edge_row" where
  "edge_row_of tid lid du i e = \<lparr>e_id = i, e_topology_id = tid, e_decky_uuid = du (pe_decky_name e),
     e_lan_id = lid (pe_lan_name e), e_is_bridge = pe_is_bridge e, e_forwards_l3 = pe_forwards_l3 e\<rparr>"

lemma persist_lans:
  assumes "distinct (map pl_name lans)" "\<forall>l \<in> set lans. \<not> lan_name_taken tid (pl_name l) (r_lans r)"
    and "pl_name ` set lans \<inter> fst ` set ids = {}"
  shows "foldS (persist_lan tid) lans ids r =
    (Inr (ids @ map (\<lambda>(i, l). (pl_name l, i)) (enumerate (r_next_id r) lans)),
     r\<lparr>r_lans := r_lans r @ map (\<lambda>(i, l). lan_row_of tid i l) (enumerate (r_next_id r) lans),
       r_next_id := r_next_id r + length lans\<rparr>)"
  using assms
proof (induction lans arbitrary: r ids)
  case (Cons l lans)
  let ?r1 = "r\<lparr>r_lans := r_lans r @ [lan_row_of tid (r_next_id r) l], r_next_id := Suc (r_next_id r)\<rparr>"
  let ?ids1 = "ids @ [(pl_name l, r_next_id r)]"
  from Cons.prems have "persist_lan tid l ids r = (Inr ?ids1, ?r1)"
    by (simp add: persist_lan_def bindS_def add_lan_def session_def check_and_bump_version_def lan_row_of_def
        update_fresh Let_def)
  moreover have "foldS (persist_lan tid) lans ?ids1 ?r1 =
      (Inr (?ids1 @ map (\<lambda>(i, l). (pl_name l, i)) (enumerate (r_next_id ?r1) lans)),
       ?r1\<lparr>r_lans := r_lans ?r1 @ map (\<lambda>(i, l). lan_row_of tid i l) (enumerate (r_next_id ?r1) lans),
         r_next_id := r_next_id ?r1 + length lans\<rparr>)"
    using Cons.prems by (intro Cons.IH) (auto simp: lan_name_taken_def lan_row_of_def)
  ultimately show ?case by (simp add: bindS_def)
qed simp

lemma persist_deckies:
  assumes "distinct (map pd_name ds)" "\<forall>d \<in> set ds. \<not> decky_name_taken tid (pd_name d) (r_deckies r)"
    and "pd_name ` set ds \<inter> fst ` set ids = {}" "\<forall>d \<in> set ds. pd_ips_by_lan d \<noteq> []"
  shows "foldS (persist_decky now tid) ds ids r =
    (Inr (ids @ map (\<lambda>(i, d). (pd_name d, i)) (enumerate (r_next_id r) ds)),
     r\<lparr>r_deckies := r_deckies r @ map (\<lambda>(i, d). decky_row_of now tid i d) (enumerate (r_next_id r) ds),
       r_next_id := r_next_id r + length ds\<rparr>)"
  using assms
proof (induction ds arbitrary: r ids)
  case (Cons d ds)
  let ?r1 = "r\<lparr>r_deckies := r_deckies r @ [decky_row_of now tid (r_next_id r) d], r_next_id := Suc (r_next_id r)\<rparr>"
  let ?ids1 = "ids @ [(pd_name d, r_next_id r)]"
  from Cons.prems(4) obtain k ip rest where "pd_ips_by_lan d = (k, ip) # rest"
    by (metis list.set_intros(1) neq_Nil_conv surj_pair)
  with Cons.prems have "persist_decky now tid d ids r = (Inr ?ids1, ?r1)"
    by (simp add: persist_decky_def bindS_def add_topology_decky_def session_def check_and_bump_version_def
        decky_row_of_def update_fresh Let_def)
  moreover have "foldS (persist_decky now tid) ds ?ids1 ?r1 =
      (Inr (?ids1 @ map (\<lambda>(i, d). (pd_name d, i)) (enumerate (r_next_id ?r1) ds)),
       ?r1\<lparr>r_deckies := r_deckies ?r1 @ map (\<lambda>(i, d). decky_row_of now tid i d) (enumerate (r_next_id ?r1) ds),
         r_next_id := r_next_id ?r1 + length ds\<rparr>)"
    using Cons.prems by (intro Cons.IH) (auto simp: decky_name_taken_def decky_row_of_def)
  ultimately show ?case by (simp add: bindS_def)
qed simp

abbreviation dict_at :: "('k, 'v) dict \<Rightarrow> 'k \<Rightarrow> 'v" where
  "dict_at d k \<equiv> the (map_of d k)"

lemma persist_edges:
  assumes "\<forall>e \<in> set es. pe_lan_name e \<in> fst ` set lan_ids \<and> pe_decky_name e \<in> fst ` set decky_ids"
  shows "forS (persist_edge tid lan_ids decky_ids) es r =
    (Inr (), r\<lparr>r_edges := r_edges r @ map (\<lambda>(i, e). edge_row_of tid (dict_at lan_ids) (dict_at decky_ids) i e) (enumerate (r_next_id r) es),
       r_next_id := r_next_id r + length es\<rparr>)"
  using assms
proof (induction es arbitrary: r)
  case (Cons e es)
  let ?r1 = "r\<lparr>r_edges := r_edges r @ [edge_row_of tid (dict_at lan_ids) (dict_at decky_ids) (r_next_id r) e],
    r_next_id := Suc (r_next_id r)\<rparr>"
  from Cons.prems obtain lid du where "map_of lan_ids (pe_lan_name e) = Some lid"
    "map_of decky_ids (pe_decky_name e) = Some du"
    by (metis list.set_intros(1) map_of_eq_None_iff not_Some_eq)
  then have "persist_edge tid lan_ids decky_ids e r = (Inr (), ?r1)"
    by (simp add: persist_edge_def bindS_def dict_index_def add_topology_edge_def session_def
        check_and_bump_version_def edge_row_of_def Let_def)
  moreover have "forS (persist_edge tid lan_ids decky_ids) es ?r1 =
    (Inr (), ?r1\<lparr>r_edges := r_edges ?r1 @ map (\<lambda>(i, e). edge_row_of tid (dict_at lan_ids) (dict_at decky_ids) i e) (enumerate (r_next_id ?r1) es),
       r_next_id := r_next_id ?r1 + length es\<rparr>)"
    using Cons.prems by (intro Cons.IH) auto
  ultimately show ?case by (simp add: bindS_def)
qed simp

definition plan_lan_rows :: "nat \<Rightarrow> generated_topology \<Rightarrow> lan_row list" where
  "plan_lan_rows n p = map (\<lambda>(i, l). lan_row_of n i l) (enumerate (Suc n) (gt_lans p))"

definition plan_lan_ids :: "nat \<Rightarrow> generated_topology \<Rightarrow> (string, nat) dict" where
  "plan_lan_ids n p = map (\<lambda>(i, l). (pl_name l, i)) (enumerate (Suc n) (gt_lans p))"

definition plan_decky_rows :: "nat \<Rightarrow> nat \<Rightarrow> generated_topology \<Rightarrow> decky_row list" where
  "plan_decky_rows now n p =
     map (\<lambda>(i, d). decky_row_of now n i d) (enumerate (Suc n + length (gt_lans p)) (gt_deckies p))"

definition plan_decky_ids :: "nat \<Rightarrow> generated_topology \<Rightarrow> (string, nat) dict" where
  "plan_decky_ids n p = map (\<lambda>(i, d). (pd_name d, i)) (enumerate (Suc n + length (gt_lans p)) (gt_deckies p))"

definition plan_edge_rows :: "nat \<Rightarrow> generated_topology \<Rightarrow> edge_row list" where
  "plan_edge_rows n p =
     map (\<lambda>(i, e). edge_row_of n (dict_at (plan_lan_ids n p)) (dict_at (plan_decky_ids n p)) i e)
       (enumerate (Suc n + length (gt_lans p) + length (gt_deckies p)) (gt_edges p))"

definition plan_topology :: "nat \<Rightarrow> nat \<Rightarrow> generated_topology \<Rightarrow> string option \<Rightarrow> topology_row" where
  "plan_topology now n p target = \<lparr>t_id = n, t_name = cfg_name (gt_config p), t_mode = cfg_mode (gt_config p),
     t_target_host_uuid = target, t_config_snapshot = Some (gt_config p), t_status = PENDING,
     t_status_changed_at = now, t_created_at = now, t_version = 1, t_needs_resync = False,
     t_email_personas = ''[]'', t_language_default = ''en''\<rparr>"

text \<open>What \<open>persist\<close> needs of a plan: distinct names, deckies with an address, edges between
  things the plan contains.\<close>

definition plan_writable :: "generated_topology \<Rightarrow> bool" where
  "plan_writable p \<longleftrightarrow> distinct (map pl_name (gt_lans p)) \<and> distinct (map pd_name (gt_deckies p)) \<and>
     (\<forall>d \<in> set (gt_deckies p). pd_ips_by_lan d \<noteq> []) \<and>
     (\<forall>e \<in> set (gt_edges p). pe_lan_name e \<in> pl_name ` set (gt_lans p) \<and>
        pe_decky_name e \<in> pd_name ` set (gt_deckies p))"

lemma enumerate_image: "(\<lambda>(i, x). f x) ` set (enumerate n xs) = f ` set xs"
proof -
  have "map (\<lambda>(i, x). f x) (enumerate n xs) = map f xs" by (induction xs arbitrary: n) auto
  then show ?thesis by (metis list.set_map)
qed

lemma plan_ids_keys:
  "fst ` set (plan_lan_ids n p) = pl_name ` set (gt_lans p)"
  "fst ` set (plan_decky_ids n p) = pd_name ` set (gt_deckies p)"
  by (simp_all add: plan_lan_ids_def plan_decky_ids_def image_image case_prod_unfold
      enumerate_image [of "\<lambda>x. pl_name x", unfolded case_prod_unfold]
      enumerate_image [of "\<lambda>x. pd_name x", unfolded case_prod_unfold])

lemma fresh_topology_id:
  assumes "repo_wf r"
  shows "\<forall>l \<in> set (r_lans r). l_topology_id l \<noteq> r_next_id r"
    "\<forall>d \<in> set (r_deckies r). d_topology_id d \<noteq> r_next_id r"
    "\<forall>e \<in> set (r_edges r). e_topology_id e \<noteq> r_next_id r"
    "\<forall>t \<in> set (r_topologies r). t_id t \<noteq> r_next_id r"
proof -
  have t: "k < r_next_id r" if "k \<in> t_id ` set (r_topologies r)" for k
    using that assms by (auto simp: repo_wf_defs rows_ok_def)
  then show "\<forall>t \<in> set (r_topologies r). t_id t \<noteq> r_next_id r" by fastforce
  show "\<forall>l \<in> set (r_lans r). l_topology_id l \<noteq> r_next_id r"
    "\<forall>d \<in> set (r_deckies r). d_topology_id d \<noteq> r_next_id r"
    using assms t by (fastforce simp: repo_wf_defs)+
  with assms show "\<forall>e \<in> set (r_edges r). e_topology_id e \<noteq> r_next_id r"
    unfolding repo_wf_def refs_ok_def by metis
qed

lemma persist_writes:
  assumes "repo_wf r" and "cfg_name (gt_config p) \<notin> t_name ` set (r_topologies r)" and "plan_writable p"
  defines "n \<equiv> r_next_id r"
  shows "persist now p target r = (Inr n,
    r\<lparr>r_topologies := r_topologies r @ [plan_topology now n p target],
      r_lans := r_lans r @ plan_lan_rows n p,
      r_deckies := r_deckies r @ plan_decky_rows now n p,
      r_edges := r_edges r @ plan_edge_rows n p,
      r_next_id := Suc n + length (gt_lans p) + length (gt_deckies p) + length (gt_edges p)\<rparr>)"
proof -
  let ?r1 = "r\<lparr>r_topologies := r_topologies r @ [plan_topology now n p target], r_next_id := Suc n\<rparr>"
  let ?r2 = "?r1\<lparr>r_lans := r_lans r @ plan_lan_rows n p, r_next_id := Suc n + length (gt_lans p)\<rparr>"
  let ?r3 = "?r2\<lparr>r_deckies := r_deckies r @ plan_decky_rows now n p,
     r_next_id := Suc n + length (gt_lans p) + length (gt_deckies p)\<rparr>"
  have 1: "create_topology now (cfg_name (gt_config p)) (cfg_mode (gt_config p)) target (Some (gt_config p)) r =
      (Inr n, ?r1)"
    using assms(2) by (simp add: create_topology_def session_def plan_topology_def n_def Let_def)
  have 2: "foldS (persist_lan n) (gt_lans p) [] ?r1 = (Inr (plan_lan_ids n p), ?r2)"
    using assms(3) fresh_topology_id(1) [OF assms(1)]
    by (subst persist_lans)
      (auto simp: plan_writable_def lan_name_taken_def n_def plan_lan_ids_def plan_lan_rows_def)
  have 3: "foldS (persist_decky now n) (gt_deckies p) [] ?r2 = (Inr (plan_decky_ids n p), ?r3)"
    using assms(3) fresh_topology_id(2) [OF assms(1)]
    by (subst persist_deckies)
      (auto simp: plan_writable_def decky_name_taken_def n_def plan_decky_ids_def plan_decky_rows_def)
  have 4: "forS (persist_edge n (plan_lan_ids n p) (plan_decky_ids n p)) (gt_edges p) ?r3 =
      (Inr (), ?r3\<lparr>r_edges := r_edges r @ plan_edge_rows n p,
        r_next_id := Suc n + length (gt_lans p) + length (gt_deckies p) + length (gt_edges p)\<rparr>)"
    using assms(3) by (subst persist_edges) (auto simp: plan_writable_def plan_ids_keys plan_edge_rows_def)
  show ?thesis
    unfolding persist_def by (simp only: bindS_def 1 2 3 4 prod.case sum.case returnS_simps) simp
qed

section \<open>Reading a complete topology back\<close>

text \<open>A decky row is complete when its configuration names an address for every LAN it is attached
  to.  On complete rows the backfill changes nothing.\<close>

definition decky_complete :: "lan_row list \<Rightarrow> edge_row list \<Rightarrow> decky_row \<Rightarrow> bool" where
  "decky_complete lans edges d \<longleftrightarrow>
     (\<exists>c ips. d_decky_config d = Some c \<and> dc_name c \<noteq> None \<and> dc_ips_by_lan c = Some ips \<and>
        (\<forall>e \<in> set edges. \<forall>l \<in> set lans. e_decky_uuid e = d_uuid d \<and> e_lan_id e = l_id l \<longrightarrow> l_name l \<in> fst ` set ips))"

lemma lans_by_id_SomeD: "map_of (lans_by_id lans) k = Some l \<Longrightarrow> l \<in> set lans \<and> l_id l = k"
proof -
  have "map_of (fold (\<lambda>x d. AList.update (l_id x) x d) lans d) k = Some l \<Longrightarrow>
      (l \<in> set lans \<and> l_id l = k) \<or> map_of d k = Some l" for d
    by (induction lans arbitrary: d) (fastforce split: if_splits)+
  from this [of "[]"] show "map_of (lans_by_id lans) k = Some l \<Longrightarrow> l \<in> set lans \<and> l_id l = k"
    by (simp add: lans_by_id_def dict_of_def)
qed

lemma is_free_reserve: "IPAllocator_is_free ip a \<Longrightarrow> fst (IPAllocator_reserve ip a) = Inr ()"
  by (simp add: IPAllocator_is_free_def IPAllocator_reserve_def)

lemma alloc_for_total:
  assumes "parse_net False (l_subnet lan) = Inr n"
  shows "\<exists>a allocs'. alloc_for lan allocs = Inr (a, allocs')"
  using assms by (auto simp: alloc_for_def IPAllocator_init_def Let_def split: option.split)

lemma reserve_declared_total:
  assumes "\<forall>l \<in> set lans. \<exists>n. parse_net False (l_subnet l) = Inr n"
  shows "\<exists>allocs'. reserve_declared (lans_by_id lans) ips lid allocs = Inr allocs'"
proof (cases "map_of (lans_by_id lans) lid")
  case (Some lan)
  then obtain n where "parse_net False (l_subnet lan) = Inr n" using lans_by_id_SomeD assms by blast
  then obtain a allocs' where "alloc_for lan allocs = Inr (a, allocs')" using alloc_for_total by blast
  with Some show ?thesis
    by (auto simp: reserve_declared_def is_free_reserve split: option.split)
qed (simp add: reserve_declared_def)

lemma backfill_pass1_total:
  assumes "\<forall>l \<in> set lans. \<exists>n. parse_net False (l_subnet l) = Inr n"
  shows "\<exists>allocs. backfill_pass1 (lans_by_id lans) edges ds allocs0 = Inr allocs"
proof -
  have "\<exists>s'. backfill_pass1 (lans_by_id lans) edges ds allocs0 = Inr s' \<and> True"
    unfolding backfill_pass1_def
    by (intro foldE_total) (simp_all add: reserve_declared_total [OF assms])
  then show ?thesis by blast
qed

lemma fill_gap_complete:
  assumes "\<forall>lid \<in> set lids. \<forall>lan. map_of by_id lid = Some lan \<longrightarrow> l_name lan \<in> fst ` set ips"
  shows "foldE (fill_gap by_id primary) lids (ips, allocs) = Inr (ips, allocs)"
  using assms
proof (induction lids)
  case (Cons lid lids)
  then have "fill_gap by_id primary lid (ips, allocs) = Inr (ips, allocs)"
    by (auto simp: fill_gap_def split: option.split)
  with Cons show ?case by simp
qed simp

lemma backfill_decky_complete:
  assumes "decky_complete lans edges d"
  shows "backfill_decky (lans_by_id lans) edges d (out, allocs) =
    Inr (AList.update (d_uuid d) (the (d_decky_config d)) out, allocs)"
proof -
  from assms obtain c ips where c: "d_decky_config d = Some c" "dc_name c \<noteq> None" "dc_ips_by_lan c = Some ips"
    and all: "\<forall>e \<in> set edges. \<forall>l \<in> set lans. e_decky_uuid e = d_uuid d \<and> e_lan_id e = l_id l \<longrightarrow> l_name l \<in> fst ` set ips"
    by (auto simp: decky_complete_def)
  from all have "foldE (fill_gap (lans_by_id lans) (d_ip d)) (decky_edges edges (d_uuid d)) (ips, allocs) = Inr (ips, allocs)"
    by (intro fill_gap_complete) (auto simp: decky_edges_def dest!: lans_by_id_SomeD)
  moreover have same: "c\<lparr>dc_ips_by_lan := Some ips\<rparr> = c" using c(3) by simp
  ultimately show ?thesis using c(2) by (auto simp: backfill_decky_def Let_def c(1,3) same)
qed

lemma backfill_pass2_complete:
  assumes "\<forall>d \<in> set ds. decky_complete lans edges d"
  shows "foldE (backfill_decky (lans_by_id lans) edges) ds (out, allocs) =
    Inr (fold (\<lambda>d. AList.update (d_uuid d) (the (d_decky_config d))) ds out, allocs)"
  using assms by (induction ds arbitrary: out) (simp_all add: backfill_decky_complete)

lemma map_of_distinct_keys:
  "distinct (map k xs) \<Longrightarrow> x \<in> set xs \<Longrightarrow> map_of (map (\<lambda>x. (k x, v x)) xs) (k x) = Some (v x)"
  by (induction xs) (auto simp: image_iff)

lemma backfill_complete:
  assumes "distinct (map d_uuid ds)" "\<forall>d \<in> set ds. decky_complete lans edges d"
    and "\<forall>l \<in> set lans. \<exists>n. parse_net False (l_subnet l) = Inr n"
  shows "backfill_decky_configs lans ds edges = Inr ds"
proof -
  let ?ord = "sort_key (\<lambda>d. (d_name d, d_uuid d)) ds"
  let ?out = "fold (\<lambda>d. AList.update (d_uuid d) (the (d_decky_config d))) ?ord []"
  from backfill_pass1_total [OF assms(3)] obtain allocs where
    1: "backfill_pass1 (lans_by_id lans) edges ?ord [] = Inr allocs" by blast
  have 2: "foldE (backfill_decky (lans_by_id lans) edges) ?ord ([], allocs) = Inr (?out, allocs)"
    using assms(2) by (intro backfill_pass2_complete) simp
  have dis: "distinct (map d_uuid ?ord)" using assms(1) by (simp add: distinct_map)
  from dict_of_distinct [OF dis, of "\<lambda>d. the (d_decky_config d)"]
  have out: "?out = map (\<lambda>d. (d_uuid d, the (d_decky_config d))) ?ord" by (simp add: dict_of_def)
  have "d\<lparr>d_decky_config := map_of ?out (d_uuid d)\<rparr> = d" if "d \<in> set ds" for d
  proof -
    have "map_of ?out (d_uuid d) = Some (the (d_decky_config d))"
      unfolding out using dis that by (intro map_of_distinct_keys) simp_all
    also have "\<dots> = d_decky_config d" using assms(2) that by (auto simp: decky_complete_def)
    finally show ?thesis by simp
  qed
  then show ?thesis unfolding backfill_decky_configs_def Let_def
    by (simp add: 1 2 map_idI)
qed

section \<open>The view of a persisted plan\<close>

definition plan_view :: "nat \<Rightarrow> nat \<Rightarrow> generated_topology \<Rightarrow> string option \<Rightarrow> hydrated" where
  "plan_view now n p target = \<lparr>h_topology = plan_topology now n p target,
     h_lans = sort_key l_name (plan_lan_rows n p), h_deckies = sort_key d_name (plan_decky_rows now n p),
     h_edges = plan_edge_rows n p\<rparr>"

lemma set_enumerate_iff: "(i, x) \<in> set (enumerate n xs) \<longleftrightarrow> n \<le> i \<and> i < n + length xs \<and> xs ! (i - n) = x"
  by (auto simp: in_set_enumerate_eq)

lemma map_enumerate: "map (\<lambda>(i, x). f x) (enumerate n xs) = map f xs"
  by (induction xs arbitrary: n) auto

lemma map_fst_enumerate': "map (\<lambda>(i, x). i) (enumerate n xs) = [n..<n + length xs]"
  by (simp add: case_prod_unfold)

lemma plan_rows_maps:
  "map l_name (plan_lan_rows n p) = map pl_name (gt_lans p)"
  "map l_subnet (plan_lan_rows n p) = map pl_subnet (gt_lans p)"
  "map l_id (plan_lan_rows n p) = [Suc n..<Suc n + length (gt_lans p)]"
  "map d_name (plan_decky_rows now n p) = map pd_name (gt_deckies p)"
  "map d_uuid (plan_decky_rows now n p) = [Suc n + length (gt_lans p)..<Suc n + length (gt_lans p) + length (gt_deckies p)]"
  by (simp_all add: plan_lan_rows_def plan_decky_rows_def lan_row_of_def decky_row_of_def case_prod_unfold comp_def
      map_enumerate [unfolded case_prod_unfold] map_fst_enumerate' [unfolded case_prod_unfold] del: upt_Suc)

text \<open>The identifiers the dictionaries hold are those of the rows.\<close>

lemma plan_lan_id:
  assumes "distinct (map pl_name (gt_lans p))" "l \<in> set (plan_lan_rows n p)"
  shows "dict_at (plan_lan_ids n p) (l_name l) = l_id l"
proof -
  from assms(2) obtain i pl where il: "(i, pl) \<in> set (enumerate (Suc n) (gt_lans p))" and l: "l = lan_row_of n i pl"
    by (auto simp: plan_lan_rows_def)
  have "distinct (map fst (plan_lan_ids n p))"
    using assms(1) map_enumerate [of pl_name "Suc n" "gt_lans p"] by (simp add: plan_lan_ids_def case_prod_unfold comp_def)
  moreover from il have "(pl_name pl, i) \<in> set (plan_lan_ids n p)" by (force simp: plan_lan_ids_def)
  ultimately have "map_of (plan_lan_ids n p) (pl_name pl) = Some i" by (rule map_of_is_SomeI)
  then show ?thesis by (simp add: l lan_row_of_def)
qed

lemma plan_decky_id:
  assumes "distinct (map pd_name (gt_deckies p))" "d \<in> set (plan_decky_rows now n p)"
  shows "dict_at (plan_decky_ids n p) (d_name d) = d_uuid d"
proof -
  from assms(2) obtain i pd where id: "(i, pd) \<in> set (enumerate (Suc n + length (gt_lans p)) (gt_deckies p))"
    and d: "d = decky_row_of now n i pd" by (auto simp: plan_decky_rows_def)
  have "distinct (map fst (plan_decky_ids n p))"
    using assms(1) map_enumerate [of pd_name "Suc n + length (gt_lans p)" "gt_deckies p"]
    by (simp add: plan_decky_ids_def case_prod_unfold comp_def)
  moreover from id have "(pd_name pd, i) \<in> set (plan_decky_ids n p)" by (force simp: plan_decky_ids_def)
  ultimately have "map_of (plan_decky_ids n p) (pd_name pd) = Some i" by (rule map_of_is_SomeI)
  then show ?thesis by (simp add: d decky_row_of_def)
qed

lemma in_enumerate: "x \<in> set xs \<longleftrightarrow> (\<exists>i. (i, x) \<in> set (enumerate n xs))"
  by (induction xs arbitrary: n) auto

lemma in_plan_rows:
  "l \<in> set (plan_lan_rows n p) \<Longrightarrow> \<exists>pl \<in> set (gt_lans p). l = lan_row_of n (l_id l) pl"
  "pl \<in> set (gt_lans p) \<Longrightarrow> \<exists>l \<in> set (plan_lan_rows n p). l = lan_row_of n (l_id l) pl"
  "d \<in> set (plan_decky_rows now n p) \<Longrightarrow> \<exists>pd \<in> set (gt_deckies p). d = decky_row_of now n (d_uuid d) pd"
  "pd \<in> set (gt_deckies p) \<Longrightarrow> \<exists>d \<in> set (plan_decky_rows now n p). d = decky_row_of now n (d_uuid d) pd"
proof -
  have [simp]: "l_id (lan_row_of n i pl) = i" "d_uuid (decky_row_of now n i pd) = i" for i pl pd
    by (simp_all add: lan_row_of_def decky_row_of_def)
  show "l \<in> set (plan_lan_rows n p) \<Longrightarrow> \<exists>pl \<in> set (gt_lans p). l = lan_row_of n (l_id l) pl"
    "pl \<in> set (gt_lans p) \<Longrightarrow> \<exists>l \<in> set (plan_lan_rows n p). l = lan_row_of n (l_id l) pl"
    unfolding plan_lan_rows_def in_enumerate [of _ "gt_lans p" "Suc n"] Bex_def by force+
  show "d \<in> set (plan_decky_rows now n p) \<Longrightarrow> \<exists>pd \<in> set (gt_deckies p). d = decky_row_of now n (d_uuid d) pd"
    "pd \<in> set (gt_deckies p) \<Longrightarrow> \<exists>d \<in> set (plan_decky_rows now n p). d = decky_row_of now n (d_uuid d) pd"
    unfolding plan_decky_rows_def in_enumerate [of _ "gt_deckies p" "Suc n + length (gt_lans p)"] Bex_def by force+
qed

lemma attached_plan:
  assumes "plan_writable p"
  shows "attached (plan_edge_rows n p) = {(d_uuid d, l_id l) |d l. d \<in> set (plan_decky_rows now n p) \<and>
    l \<in> set (plan_lan_rows n p) \<and> (d_name d, l_name l) \<in> memb (gt_edges p)}"
proof -
  let ?at = "\<lambda>(e :: planned_edge). (dict_at (plan_decky_ids n p) (pe_decky_name e), dict_at (plan_lan_ids n p) (pe_lan_name e))"
  have dis: "distinct (map pl_name (gt_lans p))" "distinct (map pd_name (gt_deckies p))"
    using assms by (simp_all add: plan_writable_def)
  have "attached (plan_edge_rows n p) = ?at ` set (gt_edges p)"
    by (simp add: plan_edge_rows_def image_image edge_row_of_def case_prod_unfold
        enumerate_image [of ?at, unfolded case_prod_unfold])
  also have "\<dots> = {(d_uuid d, l_id l) |d l. d \<in> set (plan_decky_rows now n p) \<and>
    l \<in> set (plan_lan_rows n p) \<and> (d_name d, l_name l) \<in> memb (gt_edges p)}" (is "_ = ?R")
  proof
    show "?R \<subseteq> ?at ` set (gt_edges p)"
    proof
      fix x assume "x \<in> ?R"
      then obtain d l e where d: "d \<in> set (plan_decky_rows now n p)" and l: "l \<in> set (plan_lan_rows n p)"
        and e: "e \<in> set (gt_edges p)" "d_name d = pe_decky_name e" "l_name l = pe_lan_name e"
        and x: "x = (d_uuid d, l_id l)" by (auto simp: memb_def)
      from plan_lan_id [OF dis(1) l] plan_decky_id [OF dis(2) d] e x have "x = ?at e" by simp
      with e(1) show "x \<in> ?at ` set (gt_edges p)" by blast
    qed
    show "?at ` set (gt_edges p) \<subseteq> ?R"
    proof (rule image_subsetI)
      fix e assume e: "e \<in> set (gt_edges p)"
      with assms obtain pl pd where pl: "pl \<in> set (gt_lans p)" "pl_name pl = pe_lan_name e"
        and pd: "pd \<in> set (gt_deckies p)" "pd_name pd = pe_decky_name e" by (force simp: plan_writable_def)
      from in_plan_rows(2) [OF pl(1), of n] obtain l where l: "l \<in> set (plan_lan_rows n p)" "l_name l = pe_lan_name e"
        using pl(2) by (metis lan_row.select_convs(3) lan_row_of_def)
      from in_plan_rows(4) [OF pd(1), of now n] obtain d where d: "d \<in> set (plan_decky_rows now n p)" "d_name d = pe_decky_name e"
        using pd(2) by (metis decky_row.select_convs(3) decky_row_of_def)
      have "(d_name d, l_name l) \<in> memb (gt_edges p)" using e l(2) d(2) by (force simp: memb_def)
      with l d plan_lan_id [OF dis(1) l(1)] plan_decky_id [OF dis(2) d(1)] show "?at e \<in> ?R" by force
    qed
  qed
  finally show ?thesis .
qed

definition plan_complete :: "generated_topology \<Rightarrow> bool" where
  "plan_complete p \<longleftrightarrow> (\<forall>l \<in> set (gt_lans p). \<exists>n. parse_net False (pl_subnet l) = Inr n) \<and>
     (\<forall>d \<in> set (gt_deckies p). \<forall>k. (pd_name d, k) \<in> memb (gt_edges p) \<longrightarrow> k \<in> fst ` set (pd_ips_by_lan d))"

lemma plan_ids_inj:
  "l \<in> set (plan_lan_rows n p) \<Longrightarrow> l' \<in> set (plan_lan_rows n p) \<Longrightarrow> l_id l = l_id l' \<Longrightarrow> l = l'"
  "d \<in> set (plan_decky_rows now n p) \<Longrightarrow> d' \<in> set (plan_decky_rows now n p) \<Longrightarrow> d_uuid d = d_uuid d' \<Longrightarrow> d = d'"
proof -
  have "distinct (map l_id (plan_lan_rows n p))" "distinct (map d_uuid (plan_decky_rows now n p))"
    unfolding plan_rows_maps by simp_all
  then show "l \<in> set (plan_lan_rows n p) \<Longrightarrow> l' \<in> set (plan_lan_rows n p) \<Longrightarrow> l_id l = l_id l' \<Longrightarrow> l = l'"
    "d \<in> set (plan_decky_rows now n p) \<Longrightarrow> d' \<in> set (plan_decky_rows now n p) \<Longrightarrow> d_uuid d = d_uuid d' \<Longrightarrow> d = d'"
    by (auto simp: distinct_map dest: inj_onD)
qed

lemma attached_plan_iff:
  assumes "plan_writable p" "d \<in> set (plan_decky_rows now n p)" "l \<in> set (plan_lan_rows n p)"
  shows "(d_uuid d, l_id l) \<in> attached (plan_edge_rows n p) \<longleftrightarrow> (d_name d, l_name l) \<in> memb (gt_edges p)"
  unfolding attached_plan [OF assms(1), of n now] using assms(2,3) plan_ids_inj by blast

lemma plan_decky_row_config:
  assumes "d \<in> set (plan_decky_rows now n p)"
  obtains pd where "pd \<in> set (gt_deckies p)" "d_name d = pd_name pd" "d_services d = pd_services pd"
    "d_decky_config d = Some (plan_decky_config pd)"
  using in_plan_rows(3) [OF assms] by (metis decky_row.select_convs(3,4,5) decky_row_of_def)

lemma plan_lan_row_plan:
  assumes "l \<in> set (plan_lan_rows n p)"
  obtains pl where "pl \<in> set (gt_lans p)" "l_name l = pl_name pl" "l_subnet l = pl_subnet pl"
    "l_is_dmz l = pl_is_dmz pl"
  using in_plan_rows(1) [OF assms] by (metis lan_row.select_convs(3,5,6) lan_row_of_def)

lemma plan_rows_complete:
  assumes "plan_writable p" "plan_complete p" "d \<in> set (plan_decky_rows now n p)"
  shows "decky_complete (sort_key l_name (plan_lan_rows n p)) (plan_edge_rows n p) d"
proof -
  from plan_decky_row_config [OF assms(3)] obtain pd where pd: "pd \<in> set (gt_deckies p)" "d_name d = pd_name pd"
    "d_decky_config d = Some (plan_decky_config pd)" by metis
  have "l_name l \<in> fst ` set (pd_ips_by_lan pd)"
    if "e \<in> set (plan_edge_rows n p)" "l \<in> set (plan_lan_rows n p)" "e_decky_uuid e = d_uuid d" "e_lan_id e = l_id l" for e l
  proof -
    from that have "(d_uuid d, l_id l) \<in> attached (plan_edge_rows n p)" by force
    then have "(pd_name pd, l_name l) \<in> memb (gt_edges p)"
      using attached_plan_iff [OF assms(1,3) that(2)] pd(2) by simp
    with assms(2) pd(1) show ?thesis by (simp add: plan_complete_def)
  qed
  with pd(3) show ?thesis by (auto simp: decky_complete_def plan_decky_config_def)
qed

lemma find_snoc: "\<forall>x \<in> set xs. \<not> P x \<Longrightarrow> P y \<Longrightarrow> find P (xs @ [y]) = Some y"
  by (induction xs) auto

lemma hydrate_persist:
  assumes "repo_wf r" and "cfg_name (gt_config p) \<notin> t_name ` set (r_topologies r)"
    and "plan_writable p" "plan_complete p"
  defines "n \<equiv> r_next_id r"
  shows "fst (persist now p target r) = Inr n"
    and "hydrate n (snd (persist now p target r)) = Inr (Some (plan_view now n p target))"
proof -
  let ?r = "snd (persist now p target r)"
  note w = persist_writes [OF assms(1-3), of now target, folded n_def]
  note fresh = fresh_topology_id [OF assms(1), folded n_def]
  show "fst (persist now p target r) = Inr n" by (simp add: w)
  have "find_topology n ?r = Some (plan_topology now n p target)"
    using fresh(4) by (simp add: w find_topology_def find_snoc plan_topology_def)
  moreover have "list_lans_for_topology n ?r = sort_key l_name (plan_lan_rows n p)"
    using fresh(1) by (simp add: w list_lans_for_topology_def filter_empty_conv plan_lan_rows_def
        filter_id_conv lan_row_of_def case_prod_unfold)
  moreover have "list_topology_deckies n ?r = sort_key d_name (plan_decky_rows now n p)"
    using fresh(2) by (simp add: w list_topology_deckies_def filter_empty_conv plan_decky_rows_def
        filter_id_conv decky_row_of_def case_prod_unfold)
  moreover have "list_topology_edges n ?r = plan_edge_rows n p"
    using fresh(3) by (simp add: w list_topology_edges_def filter_empty_conv plan_edge_rows_def
        filter_id_conv edge_row_of_def case_prod_unfold)
  moreover have "backfill_decky_configs (sort_key l_name (plan_lan_rows n p))
      (sort_key d_name (plan_decky_rows now n p)) (plan_edge_rows n p) = Inr (sort_key d_name (plan_decky_rows now n p))"
  proof (rule backfill_complete)
    have "distinct (map d_uuid (plan_decky_rows now n p))" unfolding plan_rows_maps by simp
    then show "distinct (map d_uuid (sort_key d_name (plan_decky_rows now n p)))" by (simp add: distinct_map)
    show "\<forall>l \<in> set (sort_key l_name (plan_lan_rows n p)). \<exists>m. parse_net False (l_subnet l) = Inr m"
      using assms(4) by (auto simp: plan_complete_def elim!: plan_lan_row_plan)
  qed (use plan_rows_complete [OF assms(3,4)] in simp)
  ultimately show "hydrate n ?r = Inr (Some (plan_view now n p target))"
    by (simp add: hydrate_def plan_view_def Let_def)
qed

section \<open>A generated plan is valid\<close>

lemma plan_wf_edge_ends:
  assumes "plan_wf S reserved p" "e \<in> set (gt_edges p)"
  shows "pe_decky_name e \<in> pd_name ` set (gt_deckies p)" "pe_lan_name e \<in> pl_name ` set (gt_lans p)"
proof -
  from assms have m: "(pe_decky_name e, pe_lan_name e) \<in> memb (gt_edges p)"
    and sub: "fst ` memb (gt_edges p) \<subseteq> pd_name ` set (gt_deckies p)" by (auto simp: plan_wf_def memb_def)
  then show dn: "pe_decky_name e \<in> pd_name ` set (gt_deckies p)" by force
  then obtain d where d: "d \<in> set (gt_deckies p)" "pd_name d = pe_decky_name e" by auto
  with assms(1) m have "pe_lan_name e \<in> fst ` set (pd_ips_by_lan d)"
    and ips: "\<forall>(k, ip) \<in> set (pd_ips_by_lan d). \<exists>l \<in> set (gt_lans p). pl_name l = k \<and> good_ip (pl_subnet l) ip"
    by (simp_all add: plan_wf_def)
  then show "pe_lan_name e \<in> pl_name ` set (gt_lans p)" by force
qed

lemma plan_wf_writable: "plan_wf S reserved p \<Longrightarrow> plan_writable p"
  using plan_wf_edge_ends [of S reserved p] lans_wf_names [of reserved "gt_lans p"]
  by (auto simp: plan_writable_def plan_wf_def)

lemma plan_wf_complete:
  assumes "plan_wf S reserved p"
  shows "plan_complete p"
proof -
  have "\<exists>n. parse_net False (pl_subnet l) = Inr n" if "l \<in> set (gt_lans p)" for l
    using assms that parse_net_str by (fastforce simp: plan_wf_def lans_wf_def)
  with assms show ?thesis by (simp add: plan_complete_def plan_wf_def)
qed

lemma plan_wf_net:
  assumes "plan_wf S reserved p" "l \<in> set (plan_lan_rows n p)"
  shows "\<exists>m. net_wf m \<and> net_prefix m = 24 \<and> l_subnet l = net_str m \<and> parse_net True (l_subnet l) = Inr m"
proof -
  from assms(2) obtain pl where "pl \<in> set (gt_lans p)" "l_subnet l = pl_subnet pl" by (rule plan_lan_row_plan)
  with assms(1) obtain m where "net_wf m" "net_prefix m = 24" "l_subnet l = net_str m"
    by (auto simp: plan_wf_def lans_wf_def)
  then show ?thesis using parse_net_str by auto
qed

lemma good_ip_inside:
  assumes "good_ip subnet ip"
  shows "addr_outside ip subnet = Inr False"
proof -
  from assms obtain n x where n: "net_wf n" "subnet = net_str n" "x \<in> set (hosts n)" "ip = ip_str x"
    by (auto simp: good_ip_def)
  with hosts_in_net [OF n(1,3)] show ?thesis by (simp add: addr_outside_def)
qed

lemma distinct_map_sort [simp]: "distinct (map f (sort_key g xs)) = distinct (map f xs)"
  by (simp add: distinct_map)

lemma plan_view_tables [simp]:
  "h_lans (plan_view now n p target) = sort_key l_name (plan_lan_rows n p)"
  "h_deckies (plan_view now n p target) = sort_key d_name (plan_decky_rows now n p)"
  "h_edges (plan_view now n p target) = plan_edge_rows n p"
  by (simp_all add: plan_view_def)

lemma plan_view_dmz:
  assumes "plan_wf S reserved p"
  shows "filter l_is_dmz (h_lans (plan_view now n p target)) = [plan_lan_rows n p ! 0]"
proof -
  from assms have l: "lans_wf reserved (gt_lans p)" by (simp add: plan_wf_def)
  then obtain l0 ls where ls: "gt_lans p = l0 # ls" by (cases "gt_lans p") (auto simp: lans_wf_def)
  from l have "pl_is_dmz l0" by (simp add: lans_wf_def ls)
  moreover have "\<not> pl_is_dmz x" if "x \<in> set ls" for x
  proof -
    from that obtain i where "i < length ls" "x = ls ! i" by (auto simp: in_set_conv_nth)
    with l show ?thesis unfolding lans_wf_def ls by (elim conjE allE [of _ "Suc i"]) simp
  qed
  moreover have "b \<in> set ls" if "(a, b) \<in> set (enumerate (Suc (Suc n)) ls)" for a b
    using that by (simp add: in_enumerate [of b ls "Suc (Suc n)"]) blast
  ultimately have "filter l_is_dmz (plan_lan_rows n p) = [plan_lan_rows n p ! 0]"
    by (auto simp: plan_lan_rows_def ls lan_row_of_def filter_empty_conv)
  then show ?thesis by (simp add: filter_sort)
qed

lemma plan_lan_rows_nth:
  assumes "i < length (gt_lans p)"
  shows "plan_lan_rows n p ! i = lan_row_of n (Suc n + i) (gt_lans p ! i)"
  using assms by (simp add: plan_lan_rows_def nth_enumerate_eq)

lemma plan_wf_members: "plan_wf S reserved p \<Longrightarrow> fst ` memb (gt_edges p) \<subseteq> pd_name ` set (gt_deckies p)"
  by (simp add: plan_wf_def)

lemma plan_wf_decky:
  assumes "plan_wf S reserved p" "d \<in> set (gt_deckies p)"
  shows "pd_ips_by_lan d \<noteq> []" "distinct (map fst (pd_ips_by_lan d))" "set (pd_services d) \<subseteq> S" "pd_service_config d = []"
    and "(k, ip) \<in> set (pd_ips_by_lan d) \<Longrightarrow> \<exists>l \<in> set (gt_lans p). pl_name l = k \<and> good_ip (pl_subnet l) ip"
    and "k \<in> fst ` set (pd_ips_by_lan d) \<longleftrightarrow> (pd_name d, k) \<in> memb (gt_edges p)"
  using assms by (auto simp: plan_wf_def)

lemma plan_wf_bridge:
  assumes "plan_wf S reserved p" "l \<in> set (gt_lans p)" "pl_parent l = Some q" "\<not> pl_is_dmz l"
  shows "\<exists>d. (d, pl_name l) \<in> memb (gt_edges p) \<and> (d, q) \<in> memb (gt_edges p)"
  using assms by (simp add: plan_wf_def)

lemma plan_lans_bridged:
  assumes "plan_wf S reserved p" "i < length (gt_lans p)"
  shows "(l_id (plan_lan_rows n p ! 0), l_id (plan_lan_rows n p ! i)) \<in> (bridged (plan_edge_rows n p))\<^sup>*"
  using assms(2)
proof (induction i rule: less_induct)
  case (less i)
  show ?case
  proof (cases "i = 0")
    case False
    from assms(1) have l: "lans_wf reserved (gt_lans p)" by (simp add: plan_wf_def)
    with False less.prems obtain j where j: "j < i" "pl_parent (gt_lans p ! i) = Some (lan_name j)"
      and nd: "\<not> pl_is_dmz (gt_lans p ! i)" by (auto simp: lans_wf_def)
    let ?li = "plan_lan_rows n p ! i" and ?lj = "plan_lan_rows n p ! j"
    have len: "length (plan_lan_rows n p) = length (gt_lans p)" by (simp add: plan_lan_rows_def)
    have "map pl_name (gt_lans p) ! j = map lan_name [0..<length (gt_lans p)] ! j"
      using l by (simp only: lans_wf_def)
    then have nm: "l_name ?li = pl_name (gt_lans p ! i)" "l_name ?lj = lan_name j"
      using less.prems j(1) by (simp_all add: plan_lan_rows_nth lan_row_of_def)
    obtain d where d: "(d, pl_name (gt_lans p ! i)) \<in> memb (gt_edges p)" "(d, lan_name j) \<in> memb (gt_edges p)"
      using plan_wf_bridge [OF assms(1) nth_mem [OF less.prems] j(2) nd] by blast
    have "d \<in> pd_name ` set (gt_deckies p)" using plan_wf_members [OF assms(1)] d(1) by force
    then have "d \<in> set (map d_name (plan_decky_rows 0 n p))" unfolding plan_rows_maps by simp
    then obtain row where row: "row \<in> set (plan_decky_rows 0 n p)" "d_name row = d" by auto
    have in_rows: "?li \<in> set (plan_lan_rows n p)" "?lj \<in> set (plan_lan_rows n p)"
      using less.prems j(1) by (simp_all add: len)
    have "(d_uuid row, l_id ?li) \<in> attached (plan_edge_rows n p)" "(d_uuid row, l_id ?lj) \<in> attached (plan_edge_rows n p)"
      using attached_plan_iff [OF plan_wf_writable [OF assms(1)] row(1)] in_rows nm row(2) d by simp_all
    moreover have "l_id ?lj \<noteq> l_id ?li" using less.prems j(1) by (simp add: plan_lan_rows_nth lan_row_of_def)
    ultimately have "(l_id ?lj, l_id ?li) \<in> bridged (plan_edge_rows n p)" unfolding bridged_def by blast
    with less.IH [OF j(1)] less.prems j(1) show ?thesis by (meson less_trans rtrancl.rtrancl_into_rtrancl)
  qed simp
qed

lemma plan_view_attached:
  assumes "plan_wf S reserved p" "d \<in> set (plan_decky_rows now n p)"
  shows "d_uuid d \<in> e_decky_uuid ` set (plan_edge_rows n p)"
proof -
  from assms(2) obtain pd where pd: "pd \<in> set (gt_deckies p)" "d_name d = pd_name pd" by (rule plan_decky_row_config)
  obtain k ip where k: "(k, ip) \<in> set (pd_ips_by_lan pd)"
    using plan_wf_decky(1) [OF assms(1) pd(1)] by (metis last_in_set surj_pair)
  then have m: "(d_name d, k) \<in> memb (gt_edges p)"
    using plan_wf_decky(6) [OF assms(1) pd(1), of k] pd(2) by force
  from plan_wf_decky(5) [OF assms(1) pd(1) k] have "k \<in> set (map l_name (plan_lan_rows n p))"
    unfolding plan_rows_maps by auto
  then obtain l where "l \<in> set (plan_lan_rows n p)" "l_name l = k" by auto
  with attached_plan_iff [OF plan_wf_writable [OF assms(1)] assms(2)] m
  have "(d_uuid d, l_id l) \<in> attached (plan_edge_rows n p)" by simp
  then show ?thesis by auto
qed

lemma plan_view_edges_known:
  assumes "plan_wf S reserved p"
  shows "edges_known (plan_view now n p target)"
proof -
  have "snd ` attached (plan_edge_rows n p) \<subseteq> l_id ` set (plan_lan_rows n p)"
    unfolding attached_plan [OF plan_wf_writable [OF assms], of n now] by auto
  then show ?thesis by (simp add: edges_known_def image_image image_subset_iff)
qed

lemma plan_view_ips:
  assumes "plan_wf S reserved p"
  defines "ips \<equiv> (\<lambda>d. ips_of (config_of d))"
  shows "\<forall>q \<in> set (declared_ips (plan_view now n p target)).
      ip_good (dict_of l_name (\<lambda>l. l) (h_lans (plan_view now n p target))) q"
    and "distinct (declared_ips (plan_view now n p target))"
proof -
  let ?ds = "sort_key d_name (plan_decky_rows now n p)" and ?ls = "sort_key l_name (plan_lan_rows n p)"
  have dl: "distinct (map l_name ?ls)" using plan_wf_writable [OF assms(1)] by (simp add: plan_rows_maps plan_writable_def)
  have ips: "\<exists>pd \<in> set (gt_deckies p). d_name d = pd_name pd \<and> ips d = pd_ips_by_lan pd" if "d \<in> set ?ds" for d
  proof -
    from that have "d \<in> set (plan_decky_rows now n p)" by simp
    then obtain pd where "pd \<in> set (gt_deckies p)" "d_name d = pd_name pd"
      "d_decky_config d = Some (plan_decky_config pd)" by (rule plan_decky_row_config)
    then show ?thesis unfolding ips_def by (auto simp: plan_decky_config_def)
  qed
  have decl: "declared_ips (plan_view now n p target) = concat (map ips ?ds)"
    by (simp add: declared_ips_def ips_def)
  show "\<forall>q \<in> set (declared_ips (plan_view now n p target)).
      ip_good (dict_of l_name (\<lambda>l. l) (h_lans (plan_view now n p target))) q"
  proof
    fix q assume "q \<in> set (declared_ips (plan_view now n p target))"
    then obtain d where d: "d \<in> set ?ds" "q \<in> set (ips d)" unfolding decl by auto
    obtain k ip where q: "q = (k, ip)" by fastforce
    from ips [OF d(1)] d(2) obtain pd where "pd \<in> set (gt_deckies p)" "(k, ip) \<in> set (pd_ips_by_lan pd)"
      by (auto simp: q)
    from plan_wf_decky(5) [OF assms(1) this] obtain pl where
      pl: "pl \<in> set (gt_lans p)" "pl_name pl = k" "good_ip (pl_subnet pl) ip" by blast
    from in_plan_rows(2) [OF pl(1), of n] obtain l where
      l: "l \<in> set (plan_lan_rows n p)" "l = lan_row_of n (l_id l) pl" by blast
    then have lk: "l_name l = k" "l_subnet l = pl_subnet pl"
      using pl(2) by (metis lan_row.select_convs(3) lan_row_of_def, metis lan_row.select_convs(5) lan_row_of_def)
    have "map_of (map (\<lambda>l. (l_name l, l)) ?ls) (l_name l) = Some l"
      using l(1) by (intro map_of_distinct_keys dl) simp
    with good_ip_inside [OF pl(3)] lk show "ip_good (dict_of l_name (\<lambda>l. l) (h_lans (plan_view now n p target))) q"
      by (simp add: q ip_good_def dict_of_distinct [OF dl])
  qed
  have uniq: "d = d'" if "d \<in> set ?ds" "d' \<in> set ?ds" "q \<in> set (ips d)" "q \<in> set (ips d')" for d d' q
  proof -
    have iu: "ips_unique (gt_deckies p)" using assms(1) by (simp add: plan_wf_def)
    obtain k ip where q: "q = (k, ip)" by fastforce
    from ips [OF that(1)] ips [OF that(2)] obtain pd pd' where "pd \<in> set (gt_deckies p)" "pd' \<in> set (gt_deckies p)"
      "d_name d = pd_name pd" "d_name d' = pd_name pd'" "ips d = pd_ips_by_lan pd" "ips d' = pd_ips_by_lan pd'" by blast
    with iu that(3,4) have "d_name d = d_name d'" unfolding ips_unique_def q by metis
    moreover have "distinct (map d_name (plan_decky_rows now n p))"
      using plan_wf_writable [OF assms(1)] by (simp add: plan_rows_maps plan_writable_def)
    ultimately show ?thesis using that(1,2) by (auto simp: distinct_map dest: inj_onD)
  qed
  have ne: "ips d \<noteq> [] \<and> distinct (ips d)" if "d \<in> set ?ds" for d
    using ips [OF that] plan_wf_decky(1,2) [OF assms(1)] distinct_map by metis
  have "distinct ?ds" using plan_wf_writable [OF assms(1)] plan_rows_maps(4) [of now n p]
    by (metis distinct_map distinct_sort plan_writable_def)
  moreover have "inj_on ips (set ?ds)"
    using uniq ne by (intro inj_onI) (metis last_in_set)
  ultimately show "distinct (declared_ips (plan_view now n p target))"
    unfolding decl using ne by (intro distinct_concat) (auto simp: distinct_map dest: uniq [simplified])
qed

lemma plan_view_nets:
  assumes "plan_wf S reserved p"
  shows "sorted_wrt (\<lambda>a b. \<not> overlaps a b) (lan_nets (h_lans (plan_view now n p target)))"
proof -
  let ?ls = "sort_key l_name (plan_lan_rows n p)"
  define net where "net l = projr (parse_net True (l_subnet l))" for l :: lan_row
  have net: "net_wf (net l) \<and> net_prefix (net l) = 24 \<and> l_subnet l = net_str (net l) \<and> parse_lan_net l = [(l_name l, net l)]"
    if "l \<in> set ?ls" for l
    using plan_wf_net [OF assms, of l n] that by (auto simp: parse_lan_net_def net_def)
  then have "lan_nets xs = map net xs" if "set xs \<subseteq> set ?ls" for xs
    using that by (induction xs) auto
  then have nets: "lan_nets ?ls = map net ?ls" by blast
  have dis: "distinct (map l_subnet ?ls)"
    using assms by (simp add: plan_rows_maps plan_wf_def lans_wf_def)
  have "\<not> overlaps (net (?ls ! i)) (net (?ls ! j))" if "i < j" "j < length ?ls" for i j
  proof -
    have m: "?ls ! i \<in> set ?ls" "?ls ! j \<in> set ?ls" using that by (meson nth_mem order.strict_trans)+
    have "l_subnet (?ls ! i) \<noteq> l_subnet (?ls ! j)"
      using nth_eq_iff_index_eq [OF dis, of i j] that by simp
    with net [OF m(1)] net [OF m(2)] show ?thesis by (metis overlaps_same_prefix)
  qed
  then show ?thesis by (simp add: nets sorted_wrt_iff_nth_less)
qed

theorem plan_view_valid:
  assumes "plan_wf (set known) reserved p"
  shows "valid_topology known (plan_view now n p target)"
proof -
  let ?h = "plan_view now n p target"
  have len: "length (plan_lan_rows n p) = length (gt_lans p)" by (simp add: plan_lan_rows_def)
  have "(l_id (plan_lan_rows n p ! 0), l_id l) \<in> (bridged (h_edges ?h))\<^sup>*" if "l \<in> set (h_lans ?h)" for l
    using that plan_lans_bridged [OF assms, of _ n] by (auto simp: in_set_conv_nth len)
  moreover have "d_uuid ` set (h_deckies ?h) \<subseteq> e_decky_uuid ` set (h_edges ?h)"
    using plan_view_attached [OF assms] by auto
  moreover have "distinct (map l_name (h_lans ?h))" "distinct (map d_name (h_deckies ?h))"
    using plan_wf_writable [OF assms] by (simp_all add: plan_rows_maps plan_writable_def)
  moreover have "\<exists>m. parse_net True (l_subnet l) = Inr m" if "l \<in> set (h_lans ?h)" for l
    using that plan_wf_net [OF assms, of l n] by auto
  moreover have "set (d_services d) \<subseteq> set known \<and>
      fst ` set (with_default [] (dc_service_config (config_of d))) \<subseteq> set (d_services d)"
    if "d \<in> set (h_deckies ?h)" for d
  proof -
    from that have "d \<in> set (plan_decky_rows now n p)" by simp
    then obtain pd where "pd \<in> set (gt_deckies p)" "d_services d = pd_services pd"
      "d_decky_config d = Some (plan_decky_config pd)" by (rule plan_decky_row_config)
    with plan_wf_decky(3,4) [OF assms] show ?thesis by (simp add: plan_decky_config_def)
  qed
  ultimately show ?thesis
    unfolding valid_topology_def
    using plan_view_dmz [OF assms, of now n target] plan_view_ips [OF assms, of now n target]
      plan_view_nets [OF assms, of now n target]
    by (intro conjI exI [of _ "plan_lan_rows n p ! 0"] ballI) blast+
qed

end
