(* ===== verification/Topology_Generator_Live.thy ===== *)
theory Topology_Generator_Live
  imports Topology_Generator
begin

text \<open>
  When generation cannot fail: a configuration that passed its checks, whose base network has room
  for the largest LAN tree its depth and branching allow (\<open>max_lans\<close>), and whose LANs have room
  for their deckies plus two more addresses per LAN of the tree (one bridge and one cross edge),
  generates a plan whatever the random draws are.
\<close>

section \<open>Room for the LAN tree\<close>

text \<open>The largest number of LANs below a frontier of \<open>f\<close> LANs.\<close>

fun lan_cost :: "nat \<Rightarrow> nat \<Rightarrow> nat \<Rightarrow> nat" where
  "lan_cost 0 bf f = 0"
| "lan_cost (Suc d) bf f = f * bf + lan_cost d bf (f * bf)"

definition max_lans :: "topology_config \<Rightarrow> nat" where
  "max_lans c = 1 + lan_cost (cfg_depth c) (cfg_branching_factor c) 1"

lemma lan_cost_mono: "f \<le> g \<Longrightarrow> lan_cost d bf f \<le> lan_cost d bf g"
proof (induction d arbitrary: f g)
  case (Suc d)
  from Suc.prems have le: "f * bf \<le> g * bf" by simp
  show ?case unfolding lan_cost.simps by (rule add_mono [OF le Suc.IH [OF le]])
qed simp

lemma plan_children_total:
  assumes "sa_invar sa" "n \<le> card (sa_free sa)"
  shows "\<exists>lans' nf' sa'. plan_children n parent lans nf sa = Inr (lans', nf', sa') \<and> sa_invar sa' \<and>
    length lans' = length lans + n \<and> length nf' = length nf + n \<and> card (sa_free sa') = card (sa_free sa) - n"
  using assms
proof (induction n arbitrary: lans nf sa)
  case (Suc n)
  then have "sa_free sa \<noteq> {}" by auto
  from subnets.next_free_some [OF Suc.prems(1) this] obtain s sb where
    s: "SubnetAllocator_next_free sa = (Inr s, sb)" "s \<in> sa_free sa" "sa_free sb = sa_free sa - {s}" "sa_invar sb" by blast
  have "card (sa_free sb) = card (sa_free sa) - 1"
    using s(2,3) subnets.finite_free [OF Suc.prems(1)] by simp
  with Suc.IH [OF s(4)] Suc.prems(2) s(1) show ?case by (fastforce simp: Let_def)
qed simp

lemma plan_level_total:
  assumes "sa_invar sa" "length frontier * bf \<le> card (sa_free sa)" "1 \<le> bf"
  shows "\<exists>k lans' nf' r' sa'. plan_level bf frontier lans nf r sa = Inr (lans', nf', r', sa') \<and> sa_invar sa' \<and>
    length lans' = length lans + k \<and> length nf' = length nf + k \<and> k \<le> length frontier * bf \<and>
    card (sa_free sa') = card (sa_free sa) - k"
  using assms
proof (induction bf frontier lans nf r sa rule: plan_level.induct)
  case (2 bf p frontier lans nf r sa)
  from randint_total [OF "2.prems"(3)] obtain n r1 where n: "randint 1 bf r = Inr (n, r1)" by blast
  from randint_Inr [OF n] "2.prems"(2) have "n \<le> bf" "n \<le> card (sa_free sa)" by auto
  from plan_children_total [OF "2.prems"(1) this(2)] obtain lans1 nf1 sa1 where
    c: "plan_children n (pl_name p) lans nf sa = Inr (lans1, nf1, sa1)" "sa_invar sa1"
      "length lans1 = length lans + n" "length nf1 = length nf + n" "card (sa_free sa1) = card (sa_free sa) - n" by blast
  from "2.prems"(2) \<open>n \<le> bf\<close> c(5) have "length frontier * bf \<le> card (sa_free sa1)" by simp
  from "2.IH" [OF c(2) this "2.prems"(3), of lans1 nf1 r1] obtain k lans2 nf2 r2 sa2 where
    "plan_level bf frontier lans1 nf1 r1 sa1 = Inr (lans2, nf2, r2, sa2)" "sa_invar sa2"
    "length lans2 = length lans1 + k" "length nf2 = length nf1 + k" "k \<le> length frontier * bf"
    "card (sa_free sa2) = card (sa_free sa1) - k" by blast
  with n c \<open>n \<le> bf\<close> show ?case by (intro exI [of _ "n + k"]) auto
qed simp

lemma plan_levels_total:
  assumes "sa_invar sa" "lan_cost d bf (length frontier) \<le> card (sa_free sa)" "1 \<le> bf"
  shows "\<exists>lans' r' sa'. plan_levels d bf frontier lans r sa = Inr (lans', r', sa') \<and>
    length lans' \<le> length lans + lan_cost d bf (length frontier)"
  using assms
proof (induction d bf frontier lans r sa rule: plan_levels.induct)
  case (2 d bf frontier lans r sa)
  from "2.prems"(2) have "length frontier * bf \<le> card (sa_free sa)" by simp
  from plan_level_total [OF "2.prems"(1) this "2.prems"(3), of lans "[]" r] obtain k lans1 nf r1 sa1 where
    l: "plan_level bf frontier lans [] r sa = Inr (lans1, nf, r1, sa1)" "sa_invar sa1" "length lans1 = length lans + k"
      "length nf = k" "k \<le> length frontier * bf" "card (sa_free sa1) = card (sa_free sa) - k" by auto
  show ?case
  proof (cases "nf = []")
    case True
    with l show ?thesis by auto
  next
    case False
    have le: "lan_cost d bf (length nf) \<le> lan_cost d bf (length frontier * bf)"
      using l(4,5) by (simp add: lan_cost_mono)
    with "2.prems"(2) l(5,6) have "lan_cost d bf (length nf) \<le> card (sa_free sa1)" by simp
    from "2.IH" [OF False l(2) this "2.prems"(3), of lans1 r1] obtain lans2 r2 sa2 where
      "plan_levels d bf nf lans1 r1 sa1 = Inr (lans2, r2, sa2)"
      "length lans2 \<le> length lans1 + lan_cost d bf (length nf)" by blast
    with l False le show ?thesis by auto
  qed
qed simp

lemma plan_lans_total:
  assumes "sa_invar sa" "max_lans c \<le> card (sa_free sa)" "1 \<le> cfg_branching_factor c"
  shows "\<exists>lans r' sa'. plan_lans c r sa = Inr (lans, r', sa') \<and> length lans \<le> max_lans c"
proof -
  from assms(2) have "sa_free sa \<noteq> {}" by (auto simp: max_lans_def)
  from subnets.next_free_some [OF assms(1) this] obtain s sb where
    s: "SubnetAllocator_next_free sa = (Inr s, sb)" "s \<in> sa_free sa" "sa_free sb = sa_free sa - {s}" "sa_invar sb" by blast
  have "card (sa_free sb) = card (sa_free sa) - 1"
    using s(2,3) subnets.finite_free [OF assms(1)] by simp
  with assms(2) have "lan_cost (cfg_depth c) (cfg_branching_factor c) 1 \<le> card (sa_free sb)"
    by (simp add: max_lans_def)
  with plan_levels_total [OF s(4) _ assms(3), of "cfg_depth c" "[x]" for x] s(1) show ?thesis
    by (fastforce simp: plan_lans_def max_lans_def Let_def)
qed

section \<open>Room for the addresses\<close>

definition room :: "(string, ip_allocator) dict \<Rightarrow> string \<Rightarrow> nat" where
  "room allocs k = (case map_of allocs k of None \<Rightarrow> 0 | Some a \<Rightarrow> card (ia_free a))"

lemma take_ip_total:
  assumes "allocs_ok lans (g_allocs st)" "0 < room (g_allocs st) k"
  shows "\<exists>ip allocs. take_ip k st = Inr (ip, st\<lparr>g_allocs := allocs\<rparr>) \<and>
    room allocs k = room (g_allocs st) k - 1 \<and> (\<forall>j. j \<noteq> k \<longrightarrow> room allocs j = room (g_allocs st) j)"
proof -
  from assms(2) obtain a where a: "map_of (g_allocs st) k = Some a" "0 < card (ia_free a)"
    by (auto simp: room_def split: option.splits)
  then have "k \<in> fst ` set (g_allocs st)" by (metis map_of_eq_None_iff option.distinct(1))
  with assms(1) a(1) have inv: "ia_invar a" by (auto simp: allocs_ok_def)
  from a(2) have "ia_free a \<noteq> {}" by auto
  from ipalloc.next_free_some [OF inv this] obtain ip a' where
    n: "IPAllocator_next_free a = (Inr ip, a')" "ip \<in> ia_free a" "ia_free a' = ia_free a - {ip}" by blast
  have "card (ia_free a') = card (ia_free a) - 1" using n(2,3) ipalloc.finite_free [OF inv] by simp
  with a(1) n(1) show ?thesis by (auto simp: take_ip_def room_def)
qed

lemma pick_loop_total: "pool \<noteq> [] \<Longrightarrow> \<exists>svcs r'. pick_loop pool seen n r = Inr (svcs, r')"
proof (induction pool seen n r rule: pick_loop.induct)
  case (1 pool seen n r)
  then have "SVC_MIN \<le> min SVC_MAX (length pool)" by (cases pool) (auto simp: SVC_MIN_def SVC_MAX_def)
  from randint_total [OF this] obtain cnt r1 where
    r1: "randint SVC_MIN (min SVC_MAX (length pool)) r = Inr (cnt, r1)" by blast
  with randint_Inr [OF r1] sample_total [of cnt pool r1] obtain ch r2 where
    r2: "sample pool cnt r1 = Inr (ch, r2)" by auto
  show ?case
  proof (cases "set ch \<notin> seen \<or> n + 1 > 20")
    case True
    with r1 r2 show ?thesis by (subst pick_loop.simps) auto
  next
    case False
    with "1.IH" [of ch r2] "1.prems" obtain svcs r' where "pick_loop pool seen (n + 1) r2 = Inr (svcs, r')" by auto
    with r1 r2 False show ?thesis by (subst pick_loop.simps) auto
  qed
qed

lemma pick_services_total:
  "\<exists>svcs r x. pick_services ex pool st = Inr (svcs, st\<lparr>g_rng := r, g_seen := x\<rparr>)"
proof -
  have same: "st = st\<lparr>g_rng := g_rng st, g_seen := g_seen st\<rparr>" by simp
  show ?thesis
  proof (cases "pool = [] \<or> (\<exists>s ss. ex = Some (s # ss))")
    case True
    then have "\<exists>svcs. pick_services ex pool st = Inr (svcs, st)"
      by (auto simp: pick_services_def split: option.split list.split)
    with same show ?thesis by metis
  next
    case False
    with pick_loop_total [of pool "g_seen st" 0 "g_rng st"] show ?thesis
      by (auto simp: pick_services_def split: option.split list.split)
  qed
qed

lemma place_decky_total:
  assumes "allocs_ok lans (g_allocs st)" "0 < room (g_allocs st) k"
  shows "\<exists>st'. place_decky k c pool st = Inr st' \<and>
    room (g_allocs st') k = room (g_allocs st) k - 1 \<and> (\<forall>j. j \<noteq> k \<longrightarrow> room (g_allocs st') j = room (g_allocs st) j)"
proof -
  let ?st1 = "st\<lparr>g_counter := g_counter st + 1\<rparr>"
  from pick_services_total [of "cfg_services_explicit c" pool ?st1] obtain svcs r x where
    p: "pick_services (cfg_services_explicit c) pool ?st1 = Inr (svcs, ?st1\<lparr>g_rng := r, g_seen := x\<rparr>)" by blast
  from take_ip_total [of lans "?st1\<lparr>g_rng := r, g_seen := x\<rparr>" k] assms obtain ip allocs where
    "take_ip k (?st1\<lparr>g_rng := r, g_seen := x\<rparr>) = Inr (ip, ?st1\<lparr>g_rng := r, g_seen := x, g_allocs := allocs\<rparr>)"
    "room allocs k = room (g_allocs st) k - 1" "\<forall>j. j \<noteq> k \<longrightarrow> room allocs j = room (g_allocs st) j" by auto
  with p show ?thesis by (simp add: place_decky_def new_decky_def Let_def)
qed

lemma place_deckies_total:
  assumes "gen_wf UNIV lans st" "length xs \<le> room (g_allocs st) k"
  shows "\<exists>st'. foldE (\<lambda>_. place_decky k c pool) xs st = Inr st' \<and> gen_wf UNIV lans st' \<and>
    room (g_allocs st') k = room (g_allocs st) k - length xs \<and>
    (\<forall>j. j \<noteq> k \<longrightarrow> room (g_allocs st') j = room (g_allocs st) j)"
  using assms
proof (induction xs arbitrary: st)
  case (Cons x xs)
  have "allocs_ok lans (g_allocs st)" "0 < room (g_allocs st) k" using Cons.prems by (auto simp: gen_wf_def)
  from place_decky_total [OF this, of c pool] obtain st1 where 1: "place_decky k c pool st = Inr st1"
    "room (g_allocs st1) k = room (g_allocs st) k - 1" "\<forall>j. j \<noteq> k \<longrightarrow> room (g_allocs st1) j = room (g_allocs st) j" by blast
  from place_decky_step [OF 1(1) Cons.prems(1)] have "gen_wf UNIV lans st1" by simp
  with Cons.IH [of st1] 1 Cons.prems(2) show ?case by (fastforce simp: le_diff_conv)
qed simp

text \<open>The most deckies a LAN is populated with.\<close>

definition max_deckies :: "topology_config \<Rightarrow> nat" where
  "max_deckies c = max 1 (cfg_deckies_per_lan_max c)"

lemma populate_lan_total:
  assumes "gen_wf UNIV lans st" "max_deckies c \<le> room (g_allocs st) (pl_name lan)"
    and "cfg_deckies_per_lan_min c \<le> cfg_deckies_per_lan_max c"
  shows "\<exists>st'. populate_lan c pool lan st = Inr st' \<and> gen_wf UNIV lans st' \<and>
    room (g_allocs st) (pl_name lan) - max_deckies c \<le> room (g_allocs st') (pl_name lan) \<and>
    (\<forall>j. j \<noteq> pl_name lan \<longrightarrow> room (g_allocs st') j = room (g_allocs st) j)"
proof -
  have "\<exists>count r. (if pl_is_dmz lan then Inr (1, g_rng st)
       else bindE (randint (cfg_deckies_per_lan_min c) (cfg_deckies_per_lan_max c) (g_rng st))
         (\<lambda>(count, r'). Inr (if count < 1 then 1 else count, r'))) = Inr (count, r) \<and> count \<le> max_deckies c"
    using randint_total [OF assms(3), of "g_rng st"] randint_Inr
    by (fastforce simp: max_deckies_def split: prod.splits)
  then obtain count r where c: "(if pl_is_dmz lan then Inr (1, g_rng st)
       else bindE (randint (cfg_deckies_per_lan_min c) (cfg_deckies_per_lan_max c) (g_rng st))
         (\<lambda>(count, r'). Inr (if count < 1 then 1 else count, r'))) = Inr (count, r)" "count \<le> max_deckies c" by blast
  from place_deckies_total [of lans "st\<lparr>g_rng := r\<rparr>" "[0..<count]" "pl_name lan" c pool] assms(1,2) c(2)
  obtain st' where "foldE (\<lambda>_. place_decky (pl_name lan) c pool) [0..<count] (st\<lparr>g_rng := r\<rparr>) = Inr st'"
    "gen_wf UNIV lans st'" "room (g_allocs st') (pl_name lan) = room (g_allocs st) (pl_name lan) - count"
    "\<forall>j. j \<noteq> pl_name lan \<longrightarrow> room (g_allocs st') j = room (g_allocs st) j" by auto
  then show ?thesis unfolding populate_lan_def c(1) using c(2) by (auto simp: diff_le_mono2)
qed

lemma populate_all_total:
  assumes "gen_wf UNIV lans st" "cfg_deckies_per_lan_min c \<le> cfg_deckies_per_lan_max c"
    and "distinct (map pl_name xs)" "\<forall>l \<in> set xs. max_deckies c + B \<le> room (g_allocs st) (pl_name l)"
  shows "\<exists>st'. foldE (populate_lan c pool) xs st = Inr st' \<and> gen_wf UNIV lans st' \<and>
    (\<forall>l \<in> set xs. B \<le> room (g_allocs st') (pl_name l)) \<and>
    (\<forall>j. j \<notin> pl_name ` set xs \<longrightarrow> room (g_allocs st') j = room (g_allocs st) j)"
  using assms
proof (induction xs arbitrary: st)
  case (Cons x xs)
  from Cons.prems(4) have "max_deckies c \<le> room (g_allocs st) (pl_name x)" by simp
  from populate_lan_total [OF Cons.prems(1) this Cons.prems(2), of pool] obtain st1 where
    1: "populate_lan c pool x st = Inr st1" "gen_wf UNIV lans st1"
      "room (g_allocs st) (pl_name x) - max_deckies c \<le> room (g_allocs st1) (pl_name x)"
      "\<forall>j. j \<noteq> pl_name x \<longrightarrow> room (g_allocs st1) j = room (g_allocs st) j" by blast
  have "\<forall>l \<in> set xs. max_deckies c + B \<le> room (g_allocs st1) (pl_name l)"
  proof
    fix l assume l: "l \<in> set xs"
    with Cons.prems(3) have "pl_name l \<noteq> pl_name x" by simp (metis imageI)
    with 1(4) Cons.prems(4) l show "max_deckies c + B \<le> room (g_allocs st1) (pl_name l)" by simp
  qed
  with Cons.IH [OF 1(2) Cons.prems(2)] Cons.prems(3) obtain st2 where
    2: "foldE (populate_lan c pool) xs st1 = Inr st2" "gen_wf UNIV lans st2"
      "\<forall>l \<in> set xs. B \<le> room (g_allocs st2) (pl_name l)"
      "\<forall>j. j \<notin> pl_name ` set xs \<longrightarrow> room (g_allocs st2) j = room (g_allocs st1) j" by auto
  have "B \<le> room (g_allocs st2) (pl_name x)"
    using 1(3) 2(4) Cons.prems(3,4) by auto
  with 1 2 show ?case by (intro exI [of _ st2]) auto
qed simp

section \<open>Candidates\<close>

lemma deckies_by_lan_total:
  assumes "distinct (map pl_name lans)"
    and "\<forall>e \<in> set es. pe_lan_name e \<in> pl_name ` set lans \<and> pe_decky_name e \<in> pd_name ` set ds"
  shows "\<exists>by_lan. deckies_by_lan lans ds es = Inr by_lan \<and> fst ` set by_lan = pl_name ` set lans \<and>
    (\<forall>(d, k) \<in> memb es. \<exists>xs. map_of by_lan k = Some xs \<and> d \<in> set xs)"
proof -
  define step where "step = (\<lambda>(e :: planned_edge) d. case map_of d (pe_lan_name e) of None \<Rightarrow> Inl KeyError
     | Some xs \<Rightarrow> (case find (\<lambda>x. pd_name x = pe_decky_name e) ds of None \<Rightarrow> Inl StopIteration
         | Some x \<Rightarrow> Inr (AList.update (pe_lan_name e) (xs @ [pd_name x]) d)))"
  have "\<exists>by_lan. foldE step es d = Inr by_lan \<and> fst ` set by_lan = fst ` set d \<and>
      (\<forall>k xs. map_of d k = Some xs \<longrightarrow> (\<exists>ys. map_of by_lan k = Some ys \<and> set xs \<subseteq> set ys)) \<and>
      (\<forall>(n, k) \<in> memb es. \<exists>xs. map_of by_lan k = Some xs \<and> n \<in> set xs)"
    if "fst ` set d = pl_name ` set lans" "\<forall>e \<in> set es. pe_lan_name e \<in> pl_name ` set lans \<and> pe_decky_name e \<in> pd_name ` set ds"
    for es :: "planned_edge list" and d :: "(string, string list) dict"
    using that
  proof (induction es arbitrary: d)
    case Nil
    then show ?case by (simp add: memb_def)
  next
    case (Cons e es)
    from Cons.prems obtain xs where xs: "map_of d (pe_lan_name e) = Some xs"
      by (metis list.set_intros(1) map_of_eq_None_iff not_Some_eq)
    from Cons.prems(2) have "find (\<lambda>x. pd_name x = pe_decky_name e) ds \<noteq> None" by (auto simp: find_None_iff)
    then obtain x where x: "find (\<lambda>x. pd_name x = pe_decky_name e) ds = Some x" by blast
    then have nm: "pd_name x = pe_decky_name e" by (auto simp: find_Some_iff)
    let ?d1 = "AList.update (pe_lan_name e) (xs @ [pd_name x]) d"
    have st: "step e d = Inr ?d1" by (simp add: step_def xs x)
    have d1: "fst ` set ?d1 = pl_name ` set lans" using Cons.prems by (auto simp: dom_update)
    from Cons.IH [OF d1] Cons.prems(2) obtain by_lan where
      b: "foldE step es ?d1 = Inr by_lan" "fst ` set by_lan = fst ` set ?d1"
        "\<forall>k xs. map_of ?d1 k = Some xs \<longrightarrow> (\<exists>ys. map_of by_lan k = Some ys \<and> set xs \<subseteq> set ys)"
        "\<forall>(n, k) \<in> memb es. \<exists>xs. map_of by_lan k = Some xs \<and> n \<in> set xs" by auto
    from b(3) [rule_format, of "pe_lan_name e" "xs @ [pd_name x]"] obtain ys where
      ys: "map_of by_lan (pe_lan_name e) = Some ys" "set (xs @ [pd_name x]) \<subseteq> set ys" by auto
    have "\<exists>ys. map_of by_lan k = Some ys \<and> set zs \<subseteq> set ys" if "map_of d k = Some zs" for k zs
      using b(3) [rule_format, of k zs] that xs ys by (cases "k = pe_lan_name e") simp_all
    moreover have "\<exists>ys. map_of by_lan (pe_lan_name e) = Some ys \<and> pe_decky_name e \<in> set ys"
      using ys nm by auto
    ultimately show ?case using st b d1 Cons.prems(1) by (auto simp: memb_def)
  qed
  from this [of "dict_of pl_name (\<lambda>_. []) lans" es] assms show ?thesis
    unfolding deckies_by_lan_def step_def [symmetric] by (fastforce simp: dict_of_distinct image_image)
qed

lemma gen_wf_edges:
  assumes "gen_wf S lans st" "e \<in> set (g_edges st)"
  shows "pe_lan_name e \<in> pl_name ` set lans \<and> pe_decky_name e \<in> pd_name ` set (g_deckies st)"
proof -
  have m: "(pe_decky_name e, pe_lan_name e) \<in> memb (g_edges st)" using assms(2) by (auto simp: memb_def)
  have "fst ` memb (g_edges st) \<subseteq> pd_name ` set (g_deckies st)" using assms(1) by (simp add: gen_wf_def)
  with m have dn: "pe_decky_name e \<in> pd_name ` set (g_deckies st)" by force
  then obtain d where d: "d \<in> set (g_deckies st)" "pd_name d = pe_decky_name e" by auto
  with assms(1) have ok: "decky_ok S (g_allocs st) (g_edges st) d" by (simp add: gen_wf_def)
  with m d(2) have "pe_lan_name e \<in> fst ` set (pd_ips_by_lan d)" by (simp add: decky_ok_def)
  then obtain ip where "(pe_lan_name e, ip) \<in> set (pd_ips_by_lan d)" by auto
  with ok have "used (g_allocs st) (pe_lan_name e) ip" by (auto simp: decky_ok_def)
  then have "pe_lan_name e \<in> fst ` set (g_allocs st)" by (auto simp: used_def dest!: map_of_SomeD) force
  with assms(1) dn show ?thesis by (simp add: gen_wf_def allocs_ok_def)
qed

section \<open>Bridges and cross edges\<close>

lemma multi_home_total:
  assumes "gen_wf UNIV lans st" "0 < room (g_allocs st) k" "name \<in> pd_name ` set (g_deckies st)"
  shows "\<exists>st'. multi_home c name k st = Inr st' \<and> gen_wf UNIV lans st' \<and> memb (g_edges st) \<subseteq> memb (g_edges st') \<and>
    (\<forall>j. room (g_allocs st) j - 1 \<le> room (g_allocs st') j)"
proof -
  from assms(1) have "allocs_ok lans (g_allocs st)" by (simp add: gen_wf_def)
  from take_ip_total [OF this assms(2)] obtain ip allocs where t: "take_ip k st = Inr (ip, st\<lparr>g_allocs := allocs\<rparr>)"
    "room allocs k = room (g_allocs st) k - 1" "\<forall>j. j \<noteq> k \<longrightarrow> room allocs j = room (g_allocs st) j" by blast
  have "\<exists>st'. multi_home c name k st = Inr st' \<and> g_allocs st' = allocs"
    by (simp add: multi_home_def t(1) Let_def split: prod.splits)
  then obtain st' where st': "multi_home c name k st = Inr st'" "g_allocs st' = allocs" by blast
  have "room (g_allocs st) j - 1 \<le> room allocs j" for j using t(2,3) by (cases "j = k") auto
  with multi_home_step [OF st'(1) assms(1,3)] st' show ?thesis by auto
qed

lemma foldE_room:
  assumes "\<And>x st. x \<in> set xs \<Longrightarrow> I st \<Longrightarrow> \<forall>j \<in> N. 0 < room (g_allocs st) j \<Longrightarrow>
      \<exists>st'. f x st = Inr st' \<and> I st' \<and> (\<forall>j. room (g_allocs st) j - 1 \<le> room (g_allocs st') j)"
    and "I st" "\<forall>j \<in> N. length xs + B \<le> room (g_allocs st) j"
  shows "\<exists>st'. foldE f xs st = Inr st' \<and> I st' \<and> (\<forall>j \<in> N. B \<le> room (g_allocs st') j)"
  using assms
proof (induction xs arbitrary: st)
  case (Cons x xs)
  have "\<forall>j \<in> N. 0 < room (g_allocs st) j" using Cons.prems(3) by fastforce
  with Cons.prems(1) [of x st] Cons.prems(2) obtain st1 where
    1: "f x st = Inr st1" "I st1" "\<forall>j. room (g_allocs st) j - 1 \<le> room (g_allocs st1) j" by auto
  have "\<forall>j \<in> N. length xs + B \<le> room (g_allocs st1) j"
  proof
    fix j assume "j \<in> N"
    with Cons.prems(3) have "Suc (length xs + B) \<le> room (g_allocs st) j" by simp
    with 1(3) [rule_format, of j] show "length xs + B \<le> room (g_allocs st1) j" by linarith
  qed
  from Cons.IH [OF _ 1(2) this] Cons.prems(1) 1(1) show ?case by simp
qed simp

text \<open>What the two edge phases keep: the placement is well formed and no membership is lost.\<close>

definition edge_phase :: "planned_lan list \<Rightarrow> planned_edge list \<Rightarrow> gen_state \<Rightarrow> bool" where
  "edge_phase lans es st \<longleftrightarrow> gen_wf UNIV lans st \<and> memb es \<subseteq> memb (g_edges st)"

definition cands_ok :: "planned_lan list \<Rightarrow> (string, string list) dict \<Rightarrow> planned_edge list \<Rightarrow> bool" where
  "cands_ok lans by_lan es \<longleftrightarrow> (\<forall>l \<in> set lans. \<exists>xs. map_of by_lan (pl_name l) = Some xs \<and> xs \<noteq> [] \<and>
     (\<forall>x \<in> set xs. (x, pl_name l) \<in> memb es))"

lemma edge_phase_multi_home:
  assumes "edge_phase lans es st" "(name, l) \<in> memb es" "0 < room (g_allocs st) k"
  shows "\<exists>st'. multi_home c name k (st\<lparr>g_rng := r\<rparr>) = Inr st' \<and> edge_phase lans es st' \<and>
    (\<forall>j. room (g_allocs st) j - 1 \<le> room (g_allocs st') j)"
proof -
  have "name \<in> fst ` memb (g_edges st)" using assms(1,2) by (force simp: edge_phase_def)
  with assms(1) have "name \<in> pd_name ` set (g_deckies st)" by (auto simp: edge_phase_def gen_wf_def)
  with multi_home_total [of lans "st\<lparr>g_rng := r\<rparr>" k name c] assms(1,3) show ?thesis
    by (auto simp: edge_phase_def)
qed

lemma bridge_lan_total:
  assumes "edge_phase lans es st" "cands_ok lans by_lan es" "lan \<in> set lans"
    and "\<forall>j \<in> N. 0 < room (g_allocs st) j" "\<And>q. pl_parent lan = Some q \<Longrightarrow> q \<in> N"
  shows "\<exists>st'. bridge_lan c by_lan lan st = Inr st' \<and> edge_phase lans es st' \<and>
    (\<forall>j. room (g_allocs st) j - 1 \<le> room (g_allocs st') j)"
proof (cases "pl_parent lan = None \<or> pl_is_dmz lan")
  case True
  then have "bridge_lan c by_lan lan st = Inr st" by (auto simp: bridge_lan_def split: option.split)
  with assms(1) show ?thesis by simp
next
  case False
  then obtain q where q: "pl_parent lan = Some q" "\<not> pl_is_dmz lan" by auto
  from assms(2,3) obtain xs where xs: "map_of by_lan (pl_name lan) = Some xs" "xs \<noteq> []"
    "\<forall>x \<in> set xs. (x, pl_name lan) \<in> memb es" by (auto simp: cands_ok_def)
  from choice_total [OF xs(2), of "g_rng st"] obtain b r where b: "choice xs (g_rng st) = Inr (b, r)" by blast
  with choice_Inr [OF b] xs(3) have "(b, pl_name lan) \<in> memb es" by simp
  moreover have "0 < room (g_allocs st) q" using assms(4,5) q(1) by blast
  ultimately show ?thesis using edge_phase_multi_home [OF assms(1), of b "pl_name lan" q c r] q xs(1) b
    by (simp add: bridge_lan_def dict_index_def)
qed

lemma cross_lan_total:
  assumes "edge_phase lans es st" "cands_ok lans by_lan es" "lan \<in> set lans"
    and "\<forall>j \<in> pl_name ` set lans. 0 < room (g_allocs st) j"
  shows "\<exists>st'. cross_lan c lans by_lan lan st = Inr st' \<and> edge_phase lans es st' \<and>
    (\<forall>j. room (g_allocs st) j - 1 \<le> room (g_allocs st') j)"
proof -
  obtain u r1 where u: "random_unit (g_rng st) = (u, r1)" by fastforce
  have rng: "edge_phase lans es (st\<lparr>g_rng := r\<rparr>)" for r using assms(1) by (simp add: edge_phase_def)
  show ?thesis
  proof (cases "pl_is_dmz lan \<or> u \<ge> cfg_cross_edge_probability c \<or> cross_peers lans lan = []")
    case True
    then have "cross_lan c lans by_lan lan st = Inr st \<or> cross_lan c lans by_lan lan st = Inr (st\<lparr>g_rng := r1\<rparr>)"
      by (auto simp: cross_lan_def u Let_def)
    then show ?thesis using assms(1) rng [of r1] by auto
  next
    case False
    then obtain peer r2 where p: "choice (cross_peers lans lan) r1 = Inr (peer, r2)"
      using choice_total [of "cross_peers lans lan" r1] by blast
    with choice_Inr [OF p] have peer: "peer \<in> set lans" by (simp add: cross_peers_def Let_def)
    from assms(2,3) obtain xs where xs: "map_of by_lan (pl_name lan) = Some xs" "xs \<noteq> []"
      "\<forall>x \<in> set xs. (x, pl_name lan) \<in> memb es" by (auto simp: cands_ok_def)
    from choice_total [OF xs(2), of r2] obtain b r3 where b: "choice xs r2 = Inr (b, r3)" by blast
    with choice_Inr [OF b] xs(3) have m: "(b, pl_name lan) \<in> memb es" by simp
    have eq: "cross_lan c lans by_lan lan st =
        (if \<exists>d \<in> set (g_deckies st). pd_name d = b \<and> pl_name peer \<in> fst ` set (pd_ips_by_lan d)
         then Inr (st\<lparr>g_rng := r3\<rparr>) else multi_home c b (pl_name peer) (st\<lparr>g_rng := r3\<rparr>))"
      using False by (simp add: cross_lan_def u Let_def p dict_index_def xs(1) b cong: if_cong)
    show ?thesis
      unfolding eq using rng [of r3] edge_phase_multi_home [OF assms(1) m, of "pl_name peer" c r3] assms(4) peer by auto
  qed
qed

section \<open>Generation succeeds\<close>

lemma room_init:
  assumes "IPAllocator_init s = Inr a" "net_prefix (ia_net a) = 24"
  shows "card (ia_free a) = 253"
proof -
  from IPAllocator_init_invar [OF assms(1)] have inv: "ia_invar a" and t: "ia_taken a = {}" by simp_all
  then have wf: "net_wf (ia_net a)" by (simp add: ia_invar_def)
  have "length (hosts (ia_net a)) = 254" using assms(2) by (simp add: hosts_def net_broadcast_def)
  then have "card (ia_host_set a) = 254"
    using inv ip_str_hosts_distinct [OF wf] by (simp add: ia_invar_def distinct_card flip: set_map)
  moreover have "ia_gateway a \<in> ia_host_set a"
    using inv hosts_nonempty [OF wf] by (simp add: ia_invar_def)
  ultimately show ?thesis using inv t by (simp add: ia_free_def ia_invar_def card_Diff_singleton)
qed

lemma make_allocs_total:
  assumes "distinct (map pl_name lans)" "\<forall>l \<in> set lans. \<exists>n. net_wf n \<and> net_prefix n = 24 \<and> pl_subnet l = net_str n"
  shows "\<exists>d'. make_allocs lans d = Inr d' \<and> (\<forall>l \<in> set lans. room d' (pl_name l) = 253) \<and>
    (\<forall>k. k \<notin> pl_name ` set lans \<longrightarrow> map_of d' k = map_of d k)"
  using assms
proof (induction lans arbitrary: d)
  case (Cons l lans)
  from Cons.prems(2) obtain n where n: "net_wf n" "net_prefix n = 24" "pl_subnet l = net_str n" by auto
  then have "\<exists>a. IPAllocator_init (pl_subnet l) = Inr a \<and> ia_net a = n"
    by (simp add: IPAllocator_init_def Let_def)
  then obtain a where a: "IPAllocator_init (pl_subnet l) = Inr a" "ia_net a = n" by blast
  with room_init n have c: "card (ia_free a) = 253" by simp
  let ?d1 = "AList.update (pl_name l) a d"
  from Cons.IH [of ?d1] Cons.prems obtain d' where d': "make_allocs lans ?d1 = Inr d'"
    "\<forall>l \<in> set lans. room d' (pl_name l) = 253" "\<forall>k. k \<notin> pl_name ` set lans \<longrightarrow> map_of d' k = map_of ?d1 k" by auto
  have "room d' (pl_name l) = 253" using d'(3) Cons.prems(1) c by (simp add: room_def)
  with a(1) d' show ?case by auto
qed simp

lemma generate_total:
  assumes conf: "check_config c = Inr ()"
    and sa: "SubnetAllocator_init (cfg_subnet_base_prefix c) reserved = Inr sa" "max_lans c \<le> card (sa_free sa)"
    and cap: "max_deckies c + 2 * max_lans c \<le> 253"
  shows "\<exists>p. generate names c reserved r = Inr p"
proof -
  define pool where "pool = (if cfg_randomize_services c then names else [])"
  from SubnetAllocator_init_invar [OF sa(1)] have inv: "sa_invar sa" "sa_reserved sa = reserved" by simp_all
  from plan_lans_total [OF inv(1) sa(2) check_config_bounds(3) [OF conf], of r] obtain lans r1 sb where
    lans: "plan_lans c r sa = Inr (lans, r1, sb)" "length lans \<le> max_lans c" by blast
  have "plan_inv reserved lans sb" using inv by (intro plan_lans_inv [OF lans(1)]) (auto simp: sa_free_def)
  then have lwf: "lans_wf reserved lans" by (simp add: plan_inv_def)
  note dis = lans_wf_names [OF lwf]
  from lwf have "\<forall>l \<in> set lans. \<exists>n. net_wf n \<and> net_prefix n = 24 \<and> pl_subnet l = net_str n" by (auto simp: lans_wf_def)
  from make_allocs_total [OF dis this, of "[]"] obtain allocs where
    al: "make_allocs lans [] = Inr allocs" "\<forall>l \<in> set lans. room allocs (pl_name l) = 253" by blast
  let ?st0 = "\<lparr>g_rng = r1, g_counter = 0, g_seen = {}, g_allocs = allocs, g_deckies = [], g_edges = []\<rparr>"
  let ?n = "length lans"
  have wf0: "gen_wf UNIV lans ?st0"
    using make_allocs_step [OF al(1) dis] by (auto simp: gen_wf_def allocs_ok_def ips_unique_def memb_def)
  have "\<exists>st1. foldE (populate_lan c pool) lans ?st0 = Inr st1 \<and> gen_wf UNIV lans st1 \<and>
      (\<forall>l \<in> set lans. 2 * ?n \<le> room (g_allocs st1) (pl_name l)) \<and>
      (\<forall>j. j \<notin> pl_name ` set lans \<longrightarrow> room (g_allocs st1) j = room (g_allocs ?st0) j)"
    using al(2) cap lans(2) check_config_bounds(5) [OF conf] by (intro populate_all_total [OF wf0 _ dis]) auto
  then obtain st1 where st1: "foldE (populate_lan c pool) lans ?st0 = Inr st1" "gen_wf UNIV lans st1"
    "\<forall>j \<in> pl_name ` set lans. ?n + ?n \<le> room (g_allocs st1) j" by (auto simp: mult_2)
  have home: "\<forall>l \<in> set lans. \<exists>d. (d, pl_name l) \<in> memb (g_edges st1)"
    using populate_all [OF st1(1) wf0] by auto
  from deckies_by_lan_total [OF dis, of "g_edges st1" "g_deckies st1"] gen_wf_edges [OF st1(2)] obtain by_lan where
    bl: "deckies_by_lan lans (g_deckies st1) (g_edges st1) = Inr by_lan"
      "\<forall>(d, k) \<in> memb (g_edges st1). \<exists>xs. map_of by_lan k = Some xs \<and> d \<in> set xs" by blast
  have co: "cands_ok lans by_lan (g_edges st1)"
    unfolding cands_ok_def
  proof
    fix l assume "l \<in> set lans"
    with home bl(2) obtain xs where "map_of by_lan (pl_name l) = Some xs" "xs \<noteq> []" by fastforce
    with deckies_by_lan_sound [OF bl(1) dis] show "\<exists>xs. map_of by_lan (pl_name l) = Some xs \<and> xs \<noteq> [] \<and>
        (\<forall>x \<in> set xs. (x, pl_name l) \<in> memb (g_edges st1))" by (auto simp: cands_in_def)
  qed
  have ep: "edge_phase lans (g_edges st1) st1" using st1(2) by (simp add: edge_phase_def)
  have par: "q \<in> pl_name ` set lans" if "l \<in> set lans" "pl_parent l = Some q" "\<not> pl_is_dmz l" for l q
  proof -
    from that(1) obtain i where i: "i < length lans" "l = lans ! i" by (auto simp: in_set_conv_nth)
    with that(3) lwf have "0 < i" by (cases i) (auto simp: lans_wf_def)
    with i lwf that(2) obtain j where "j < i" "q = lan_name j" by (auto simp: lans_wf_def)
    with i lans_wf_nth_name [OF lwf, of j] show ?thesis by (metis imageI nth_mem order.strict_trans)
  qed
  have "\<exists>st2. foldE (bridge_lan c by_lan) lans st1 = Inr st2 \<and> edge_phase lans (g_edges st1) st2 \<and>
      (\<forall>j \<in> pl_name ` set lans. ?n \<le> room (g_allocs st2) j)"
  proof (rule foldE_room [where I = "edge_phase lans (g_edges st1)", OF _ ep st1(3)])
    fix x st assume x: "x \<in> set lans" "edge_phase lans (g_edges st1) st" "\<forall>j \<in> pl_name ` set lans. 0 < room (g_allocs st) j"
    show "\<exists>st'. bridge_lan c by_lan x st = Inr st' \<and> edge_phase lans (g_edges st1) st' \<and>
        (\<forall>j. room (g_allocs st) j - 1 \<le> room (g_allocs st') j)"
    proof (cases "pl_is_dmz x")
      case True
      then have "bridge_lan c by_lan x st = Inr st" by (auto simp: bridge_lan_def split: option.split)
      with x(2) show ?thesis by simp
    qed (use bridge_lan_total [OF x(2) co x(1,3)] par x(1) in blast)
  qed
  then obtain st2 where st2: "foldE (bridge_lan c by_lan) lans st1 = Inr st2" "edge_phase lans (g_edges st1) st2"
    "\<forall>j \<in> pl_name ` set lans. ?n + 0 \<le> room (g_allocs st2) j" by auto
  have "\<exists>st3. (if cfg_cross_edge_probability c > 0 then foldE (cross_lan c lans by_lan) lans st2 else Inr st2) = Inr st3"
  proof -
    have "\<exists>st3. foldE (cross_lan c lans by_lan) lans st2 = Inr st3 \<and> edge_phase lans (g_edges st1) st3 \<and>
        (\<forall>j \<in> pl_name ` set lans. 0 \<le> room (g_allocs st3) j)"
      by (rule foldE_room [where I = "edge_phase lans (g_edges st1)", OF _ st2(2,3)]) (rule cross_lan_total [OF _ co])
    then show ?thesis by auto
  qed
  then show ?thesis
    unfolding generate_def Let_def pool_def [symmetric]
    by (simp add: sa(1) lans(1) al(1) st1(1) bl(1) st2(1) del: foldE.simps)
qed

end
