(* ===== verification/Topology_Compose.thy ===== *)
theory Topology_Compose
  imports Topology_Validate Py_Json
begin

text \<open>
  The compose file of a topology (\<open>decnet/topology/compose.py\<close>).  The dict the code builds is a
  \<open>json\<close> value with the same keys in the same order.  A service plugin is the record of what the
  composer reads of it: its ports, the UDP ports for a configuration, whether it runs once per
  fleet, and the method \<open>compose_fragment\<close>.  The registry is a partial map, and an unknown name
  raises \<open>KeyError\<close>.  The text of a primary key is the argument \<open>id_str\<close>.
\<close>

record service_plugin = service_info +
  svc_udp_ports :: "svc_cfg \<Rightarrow> nat list"
  svc_compose_fragment :: "string \<Rightarrow> svc_cfg \<Rightarrow> jdict"

definition DEFAULT_BASE_IMAGE :: string where
  "DEFAULT_BASE_IMAGE = ''debian:bookworm-slim@sha256:f9c6a2fd2ddbc23e336b6257a5245e31f996953ef06cd13a59fa0a1df2d5c252''"

definition DOCKER_LOGGING :: json where
  "DOCKER_LOGGING = JObj [(''driver'', JStr ''json-file''),
     (''options'', JObj [(''max-size'', JStr ''10m''), (''max-file'', JStr ''5'')])]"

definition network_name :: "string \<Rightarrow> string \<Rightarrow> string" where
  "network_name topology_id lan_name = ''decnet_t_'' @ take 8 topology_id @ ''_'' @ lower lan_name"

definition container_name :: "string \<Rightarrow> string \<Rightarrow> string" where
  "container_name topology_id decky_name = ''decnet_t_'' @ take 8 topology_id @ ''_'' @ decky_name"

text \<open>\<open>get_service\<close> of \<open>services/registry.py\<close>.\<close>

definition get_service :: "(string \<rightharpoonup> service_plugin) \<Rightarrow> string \<Rightarrow> service_plugin result" where
  "get_service reg name = (case reg name of None \<Rightarrow> Inl KeyError | Some svc \<Rightarrow> Inr svc)"

definition compose_nets :: "string \<Rightarrow> string set \<Rightarrow> (string, string) dict \<Rightarrow> jdict result" where
  "compose_nets topology_id known ips =
     foldE (\<lambda>(lan_name, ip) nets.
       if lan_name \<notin> known then Inl ValueError
       else Inr (AList.update (network_name topology_id lan_name) (JObj [(''ipv4_address'', JStr ip)]) nets)) ips []"

definition published_ports ::
  "(string \<rightharpoonup> service_plugin) \<Rightarrow> (string, svc_cfg) dict \<Rightarrow> string list \<Rightarrow> string list result" where
  "published_ports reg service_config svc_names =
     foldE (\<lambda>svc_name published.
       bindE (get_service reg svc_name) (\<lambda>svc.
         if svc_fleet_singleton svc then Inr published
         else Inr (published @
           map (\<lambda>port. nat_str port @ '':'' @ nat_str port) (svc_ports svc) @
           map (\<lambda>port. nat_str port @ '':'' @ nat_str port @ ''/udp'')
             (svc_udp_ports svc (with_default [] (map_of service_config svc_name)))))) svc_names []"

definition compose_base :: "string \<Rightarrow> string \<Rightarrow> jdict \<Rightarrow> jdict" where
  "compose_base topology_id name nets =
     [(''image'', JStr DEFAULT_BASE_IMAGE),
      (''container_name'', JStr (container_name topology_id name)),
      (''hostname'', JStr name),
      (''command'', JArr [JStr ''sleep'', JStr ''infinity'']),
      (''restart'', JStr ''unless-stopped''),
      (''networks'', JObj nets),
      (''cap_add'', JArr [JStr ''NET_ADMIN'']),
      (''logging'', DOCKER_LOGGING),
      (''labels'', JObj [(''decnet.topology.id'', JStr topology_id), (''decnet.topology.decky'', JStr name),
         (''decnet.topology.role'', JStr ''base'')])]"

text \<open>The fragment of a service after the composer rewired it.  A \<open>build\<close>, \<open>environment\<close> or
  \<open>labels\<close> entry that is not a dict makes the dict methods the code calls on it raise.\<close>

definition with_base_image :: "jdict \<Rightarrow> jdict result" where
  "with_base_image fragment =
     (case map_of fragment ''build'' of
        None \<Rightarrow> Inr fragment
      | Some (JObj b) \<Rightarrow>
          (case map_of (setdefault ''args'' (JObj []) b) ''args'' of
             Some (JObj args) \<Rightarrow> Inr (AList.update ''build''
               (JObj (AList.update ''args'' (JObj (setdefault ''BASE_IMAGE'' (JStr DEFAULT_BASE_IMAGE) args))
                  (setdefault ''args'' (JObj []) b))) fragment)
           | _ \<Rightarrow> Inl AttributeError)
      | Some _ \<Rightarrow> Inl AttributeError)"

definition with_hostname_env :: "string \<Rightarrow> jdict \<Rightarrow> jdict result" where
  "with_hostname_env name fragment =
     (case map_of (setdefault ''environment'' (JObj []) fragment) ''environment'' of
        Some (JObj env) \<Rightarrow> Inr (AList.update ''environment'' (JObj (AList.update ''HOSTNAME'' (JStr name) env))
          (setdefault ''environment'' (JObj []) fragment))
      | _ \<Rightarrow> Inl TypeError)"

definition fragment_labels :: "jdict \<Rightarrow> jdict result" where
  "fragment_labels fragment =
     (case map_of fragment ''labels'' of
        None \<Rightarrow> Inr []
      | Some (JObj l) \<Rightarrow> Inr l
      | Some v \<Rightarrow> if truthy v then Inl ValueError else Inr [])"

definition service_labels :: "string \<Rightarrow> string \<Rightarrow> string \<Rightarrow> jdict" where
  "service_labels topology_id name svc_name =
     [(''decnet.topology.id'', JStr topology_id), (''decnet.topology.decky'', JStr name),
      (''decnet.topology.service_name'', JStr svc_name), (''decnet.topology.service'', JStr ''true'')]"

definition compose_service :: "string \<Rightarrow> string \<Rightarrow> string \<Rightarrow> jdict \<Rightarrow> jdict result" where
  "compose_service topology_id name svc_name fragment =
     bindE (with_base_image fragment) (\<lambda>fragment.
     bindE (with_hostname_env name fragment) (\<lambda>fragment.
       let fragment = AList.update ''network_mode'' (JStr (''service:'' @ name)) fragment;
           fragment = AList.update ''depends_on'' (JArr [JStr name]) fragment;
           fragment = dict_pop ''networks'' (dict_pop ''hostname'' fragment);
           fragment = AList.update ''logging'' DOCKER_LOGGING fragment
       in bindE (fragment_labels fragment) (\<lambda>labels.
            Inr (AList.update ''labels''
              (JObj (dict_update labels (service_labels topology_id name svc_name))) fragment))))"

definition compose_decky ::
  "(string \<rightharpoonup> service_plugin) \<Rightarrow> string \<Rightarrow> string set \<Rightarrow> decky_row \<Rightarrow> jdict \<Rightarrow> jdict result" where
  "compose_decky reg topology_id known decky services =
     (case (dc_name (config_of decky), dc_ips_by_lan (config_of decky)) of
        (Some name, Some ips_by_lan) \<Rightarrow>
          let cfg = config_of decky;
              service_config = with_default [] (dc_service_config cfg);
              svc_names = d_services decky
          in
          bindE (compose_nets topology_id known ips_by_lan) (\<lambda>nets.
          bindE (if dc_forwards_l3 cfg = Some True
                 then bindE (published_ports reg service_config svc_names) (\<lambda>published.
                   Inr ([(''sysctls'', JObj [(''net.ipv4.ip_forward'', JInt 1)])] @
                     (if published \<noteq> [] then [(''ports'', JArr (map JStr published))] else [])))
                 else Inr []) (\<lambda>gateway.
          foldE (\<lambda>svc_name services.
            bindE (get_service reg svc_name) (\<lambda>svc.
              if svc_fleet_singleton svc then Inr services
              else bindE (compose_service topology_id name svc_name
                     (svc_compose_fragment svc name (with_default [] (map_of service_config svc_name)))) (\<lambda>fragment.
                   Inr (AList.update (name @ ''-'' @ svc_name) (JObj fragment) services))))
            svc_names (AList.update name (JObj (compose_base topology_id name nets @ gateway)) services)))
      | _ \<Rightarrow> Inl KeyError)"

definition compose_networks :: "string \<Rightarrow> lan_row list \<Rightarrow> jdict" where
  "compose_networks topology_id lans =
     fold (\<lambda>lan nets. AList.update (network_name topology_id (l_name lan))
       (JObj [(''external'', JBool True), (''name'', JStr (network_name topology_id (l_name lan)))]) nets) lans []"

definition generate_topology_compose ::
  "(nat \<Rightarrow> string) \<Rightarrow> (string \<rightharpoonup> service_plugin) \<Rightarrow> hydrated \<Rightarrow> json result" where
  "generate_topology_compose id_str reg h =
     (let topology_id = id_str (t_id (h_topology h));
          known = l_name ` set (h_lans h)
      in bindE (foldE (compose_decky reg topology_id known) (h_deckies h) []) (\<lambda>services.
           Inr (JObj [(''version'', JStr ''3.8''), (''services'', JObj services),
             (''networks'', JObj (compose_networks topology_id (h_lans h)))])))"

section \<open>The file is closed\<close>

text \<open>Every network a container joins is declared, and every container that shares a network
  namespace names a container of the file.\<close>

definition entry_closed :: "string set \<Rightarrow> string set \<Rightarrow> json \<Rightarrow> bool" where
  "entry_closed nets names v \<longleftrightarrow> (\<exists>f. v = JObj f \<and>
     (\<forall>ns. map_of f ''networks'' = Some (JObj ns) \<longrightarrow> fst ` set ns \<subseteq> nets) \<and>
     (\<forall>m. map_of f ''network_mode'' = Some m \<longrightarrow> (\<exists>b \<in> names. m = JStr (''service:'' @ b))))"

definition services_closed :: "string set \<Rightarrow> jdict \<Rightarrow> bool" where
  "services_closed nets ss \<longleftrightarrow> (\<forall>(k, v) \<in> set ss. entry_closed nets (fst ` set ss) v)"

lemma entry_closed_mono: "entry_closed nets A v \<Longrightarrow> A \<subseteq> B \<Longrightarrow> entry_closed nets B v"
  by (fastforce simp: entry_closed_def)

lemma set_update_subset: "set (AList.update k v d) \<subseteq> insert (k, v) (set d)"
  by (induction d) auto

lemma services_closed_update:
  assumes "services_closed nets ss" and "entry_closed nets (insert k (fst ` set ss)) v"
  shows "services_closed nets (AList.update k v ss)"
proof -
  have keys: "fst ` set (AList.update k v ss) = insert k (fst ` set ss)" by (simp add: dom_update)
  have "entry_closed nets (insert k (fst ` set ss)) w" if "(j, w) \<in> set (AList.update k v ss)" for j w
  proof (cases "w = v")
    case False
    with that set_update_subset have "(j, w) \<in> set ss" by fastforce
    with assms(1) have "entry_closed nets (fst ` set ss) w" by (auto simp: services_closed_def)
    then show ?thesis by (rule entry_closed_mono) blast
  qed (use assms(2) in simp)
  then show ?thesis unfolding services_closed_def keys by blast
qed

lemma compose_service_wiring:
  assumes "compose_service topology_id name svc_name fragment = Inr f"
  shows "map_of f ''networks'' = None" "map_of f ''network_mode'' = Some (JStr (''service:'' @ name))"
    "map_of f ''depends_on'' = Some (JArr [JStr name])" "map_of f ''hostname'' = None"
  using assms by (auto simp: compose_service_def Let_def update_conv' map_of_dict_pop)

lemma compose_nets_known:
  assumes "compose_nets topology_id known ips = Inr nets"
  shows "fst ` set nets \<subseteq> network_name topology_id ` known"
proof -
  let ?P = "\<lambda>_ nets. fst ` set nets \<subseteq> network_name topology_id ` known"
  have "?P ips nets"
  proof (rule foldE_invariant [OF assms [unfolded compose_nets_def], where P = ?P])
    fix x nets nets' assume "?P [] nets" and st: "(case x of (lan_name, ip) \<Rightarrow>
        \<lambda>nets. if lan_name \<notin> known then Inl ValueError
          else Inr (AList.update (network_name topology_id lan_name) (JObj [(''ipv4_address'', JStr ip)]) nets)) nets = Inr nets'"
    moreover obtain a b where "x = (a, b)" by fastforce
    ultimately have "nets' = AList.update (network_name topology_id a) (JObj [(''ipv4_address'', JStr b)]) nets"
      "a \<in> known" "?P [] nets" by (simp_all split: if_splits)
    then show "fst ` set nets' \<subseteq> network_name topology_id ` known" by (simp add: dom_update)
  qed simp
  then show ?thesis .
qed

lemma compose_base_closed:
  assumes "compose_nets topology_id known ips = Inr nets" and "''networks'' \<notin> fst ` set g" "''network_mode'' \<notin> fst ` set g"
  shows "entry_closed (network_name topology_id ` known) names (JObj (compose_base topology_id name nets @ g))"
proof -
  have "map_of g ''networks'' = None" "map_of g ''network_mode'' = None"
    using assms(2,3) by (simp_all add: map_of_eq_None_iff)
  then show ?thesis using compose_nets_known [OF assms(1)] by (simp add: entry_closed_def compose_base_def)
qed

lemma compose_decky_closed:
  assumes "compose_decky reg topology_id known decky services = Inr services'"
    and "services_closed (network_name topology_id ` known) services"
  shows "services_closed (network_name topology_id ` known) services'"
proof -
  let ?N = "network_name topology_id ` known" and ?cfg = "config_of decky"
  let ?sc = "with_default [] (dc_service_config ?cfg)"
  from assms(1) obtain name ips nets g where nm: "dc_name ?cfg = Some name" "dc_ips_by_lan ?cfg = Some ips"
    and nets: "compose_nets topology_id known ips = Inr nets"
    and g: "(if dc_forwards_l3 ?cfg = Some True
                 then bindE (published_ports reg ?sc (d_services decky)) (\<lambda>published.
                   Inr ([(''sysctls'', JObj [(''net.ipv4.ip_forward'', JInt 1)])] @
                     (if published \<noteq> [] then [(''ports'', JArr (map JStr published))] else [])))
                 else Inr []) = Inr g"
    and fold: "foldE (\<lambda>svc_name services.
            bindE (get_service reg svc_name) (\<lambda>svc.
              if svc_fleet_singleton svc then Inr services
              else bindE (compose_service topology_id name svc_name
                     (svc_compose_fragment svc name (with_default [] (map_of ?sc svc_name)))) (\<lambda>fragment.
                   Inr (AList.update (name @ ''-'' @ svc_name) (JObj fragment) services))))
            (d_services decky) (AList.update name (JObj (compose_base topology_id name nets @ g)) services) = Inr services'"
    by (auto simp: compose_decky_def Let_def simp del: foldE.simps split: option.splits elim!: bindE_InrE)
  from g have gk: "''networks'' \<notin> fst ` set g" "''network_mode'' \<notin> fst ` set g" by (auto split: if_splits)
  let ?P = "\<lambda>_ ss. services_closed ?N ss \<and> name \<in> fst ` set ss"
  have "?P (d_services decky) services'"
  proof (rule foldE_invariant [OF fold, where P = ?P])
    show "?P [] (AList.update name (JObj (compose_base topology_id name nets @ g)) services)"
      using services_closed_update [OF assms(2) compose_base_closed [OF nets gk]] by (simp add: dom_update)
    fix ys svc_name ss ss'
    assume P: "?P ys ss" and st: "bindE (get_service reg svc_name) (\<lambda>svc.
              if svc_fleet_singleton svc then Inr ss
              else bindE (compose_service topology_id name svc_name
                     (svc_compose_fragment svc name (with_default [] (map_of ?sc svc_name)))) (\<lambda>fragment.
                   Inr (AList.update (name @ ''-'' @ svc_name) (JObj fragment) ss))) = Inr ss'"
    have "entry_closed ?N (insert k (fst ` set ss)) (JObj f)"
      if "compose_service topology_id name svc_name fr = Inr f" for k f fr
      using compose_service_wiring [OF that] P by (auto simp: entry_closed_def)
    then have up: "services_closed ?N (AList.update k (JObj f) ss)"
      if "compose_service topology_id name svc_name fr = Inr f" for k f fr
      using services_closed_update P that by blast
    from st show "?P (ys @ [svc_name]) ss'"
    proof (elim bindE_InrE)
      fix svc assume "(if svc_fleet_singleton svc then Inr ss
              else bindE (compose_service topology_id name svc_name
                     (svc_compose_fragment svc name (with_default [] (map_of ?sc svc_name)))) (\<lambda>fragment.
                   Inr (AList.update (name @ ''-'' @ svc_name) (JObj fragment) ss))) = Inr ss'"
      then have "ss' = ss \<or> (\<exists>fr f. compose_service topology_id name svc_name fr = Inr f \<and>
          ss' = AList.update (name @ ''-'' @ svc_name) (JObj f) ss)" by (auto split: if_splits)
      with P up show ?thesis by (auto simp only: dom_update)
    qed
  qed
  then show ?thesis by simp
qed

lemma keys_compose_networks:
  "fst ` set (compose_networks topology_id lans) = network_name topology_id ` l_name ` set lans"
proof -
  have "fst ` set (fold (\<lambda>lan nets. AList.update (network_name topology_id (l_name lan))
       (JObj [(''external'', JBool True), (''name'', JStr (network_name topology_id (l_name lan)))]) nets) lans d) =
     fst ` set d \<union> network_name topology_id ` l_name ` set lans" for d
    by (induction lans arbitrary: d) (auto simp: dom_update)
  from this [of "[]"] show ?thesis by (simp add: compose_networks_def)
qed

lemma compose_closed:
  assumes "generate_topology_compose id_str reg h = Inr j"
  obtains services networks where
    "j = JObj [(''version'', JStr ''3.8''), (''services'', JObj services), (''networks'', JObj networks)]"
    "services_closed (fst ` set networks) services"
proof -
  let ?id = "id_str (t_id (h_topology h))" and ?known = "l_name ` set (h_lans h)"
  from assms obtain services where s: "foldE (compose_decky reg ?id ?known) (h_deckies h) [] = Inr services"
    and j: "j = JObj [(''version'', JStr ''3.8''), (''services'', JObj services),
      (''networks'', JObj (compose_networks ?id (h_lans h)))]"
    by (auto simp: generate_topology_compose_def Let_def simp del: foldE.simps elim!: bindE_InrE)
  have "services_closed (network_name ?id ` ?known) services"
    by (rule foldE_invariant [OF s, where P = "\<lambda>_. services_closed (network_name ?id ` ?known)"])
      (auto simp: services_closed_def [of _ "[]"] intro: compose_decky_closed)
  with j that show ?thesis by (simp add: keys_compose_networks)
qed

text \<open>One Docker network per LAN exactly when the LAN names differ beyond their case.\<close>

lemma network_name_eq_iff: "network_name topology_id a = network_name topology_id b \<longleftrightarrow> lower a = lower b"
  by (simp add: network_name_def)

lemma distinct_compose_networks: "distinct (map fst (compose_networks topology_id lans))"
proof -
  have "distinct (map fst d) \<Longrightarrow> distinct (map fst (fold (\<lambda>lan nets. AList.update (network_name topology_id (l_name lan))
       (JObj [(''external'', JBool True), (''name'', JStr (network_name topology_id (l_name lan)))]) nets) lans d))" for d
    by (induction lans arbitrary: d) (auto intro: distinct_update)
  from this [of "[]"] show ?thesis by (simp add: compose_networks_def)
qed

lemma length_compose_networks:
  "length (compose_networks topology_id lans) = card ((\<lambda>l. lower (l_name l)) ` set lans)"
proof -
  have "length (compose_networks topology_id lans) = card (network_name topology_id ` l_name ` set lans)"
    using distinct_card [OF distinct_compose_networks] keys_compose_networks by (metis length_map set_map)
  also have "network_name topology_id ` l_name ` set lans =
      (\<lambda>s. ''decnet_t_'' @ take 8 topology_id @ ''_'' @ s) ` (\<lambda>l. lower (l_name l)) ` set lans"
    by (simp add: image_image network_name_def)
  also have "card \<dots> = card ((\<lambda>l. lower (l_name l)) ` set lans)" by (rule card_image) (simp add: inj_on_def)
  finally show ?thesis .
qed

end
