(* ===== verification/Topology_Commands.thy ===== *)
theory Topology_Commands
  imports Topology_Persistence
begin

text \<open>
  The repository as a state machine.  A command is any of the state-changing repository methods,
  with the status changed only through \<open>transition_status\<close>; \<open>reach\<close> is what can be reached from
  the empty database when every inserted row names rows that exist (the request handlers look them
  up first).  Two invariants hold in every reachable state: the tables are well formed, and the
  status log of each topology is a chain of legal transitions from \<open>pending\<close> to its current status.
\<close>

datatype cmd =
    CCreate nat string string "string option" "topology_config option"
  | CTransition nat nat string "string option"
  | CResync nat bool
  | CPersonas nat string
  | CDelete nat
  | CEdit edit "int option"
  | CClaim nat
  | CApplied nat nat
  | CFailed nat nat string

fun run_cmd :: "cmd \<Rightarrow> (unit, repo) op" where
  "run_cmd (CCreate now name mode target snapshot) = discard (create_topology now name mode target snapshot)"
| "run_cmd (CTransition now tid st reason) = transition_status now tid st reason"
| "run_cmd (CResync tid v) = set_topology_resync tid v"
| "run_cmd (CPersonas tid js) = discard (set_topology_email_personas tid js)"
| "run_cmd (CDelete tid) = discard (delete_topology_cascade tid)"
| "run_cmd (CEdit c ev) = run_edit c ev"
| "run_cmd (CClaim tid) = discard (claim_next_mutation tid)"
| "run_cmd (CApplied now mid) = mark_mutation_applied now mid"
| "run_cmd (CFailed now mid reason) = mark_mutation_failed now mid reason"

definition topology_exists :: "nat \<Rightarrow> repo \<Rightarrow> bool" where
  "topology_exists tid r \<longleftrightarrow> tid \<in> t_id ` set (r_topologies r)"

fun edit_ok :: "edit \<Rightarrow> repo \<Rightarrow> bool" where
  "edit_ok (EAddLan tid _ _ _ _ _) r = topology_exists tid r"
| "edit_ok (EAddDecky _ tid _ _ _ _ _ _) r = topology_exists tid r"
| "edit_ok (EAddEdge tid du lid _ _) r =
     ((\<exists>d \<in> set (r_deckies r). d_uuid d = du \<and> d_topology_id d = tid) \<and>
      (\<exists>l \<in> set (r_lans r). l_id l = lid \<and> l_topology_id l = tid))"
| "edit_ok (EEnqueue _ tid _ _) r = topology_exists tid r"
| "edit_ok _ r = True"

fun cmd_ok :: "cmd \<Rightarrow> repo \<Rightarrow> bool" where
  "cmd_ok (CEdit c _) r = edit_ok c r"
| "cmd_ok _ r = True"

inductive reach :: "repo \<Rightarrow> bool" where
  init: "reach empty_repo"
| step: "reach r \<Longrightarrow> cmd_ok c r \<Longrightarrow> reach (snd (run_cmd c r))"

text \<open>Finite command sequences, for concrete histories.\<close>

fun run_cmds :: "cmd list \<Rightarrow> repo \<Rightarrow> repo" where
  "run_cmds [] r = r"
| "run_cmds (c # cs) r = run_cmds cs (snd (run_cmd c r))"

fun cmds_ok :: "cmd list \<Rightarrow> repo \<Rightarrow> bool" where
  "cmds_ok [] r \<longleftrightarrow> True"
| "cmds_ok (c # cs) r \<longleftrightarrow> cmd_ok c r \<and> cmds_ok cs (snd (run_cmd c r))"

lemma reach_run_cmds: "reach r \<Longrightarrow> cmds_ok cs r \<Longrightarrow> reach (run_cmds cs r)"
  by (induction cs arbitrary: r) (auto intro: reach.step)

section \<open>Well-formed tables\<close>

lemma transition_status_cases:
  "transition_status now tid st reason r =
     (case find_topology tid r of
        None \<Rightarrow> (Inl ValueError, r)
      | Some t \<Rightarrow> (case assert_transition (t_status t) st of
          Inl e \<Rightarrow> (Inl e, r)
        | Inr _ \<Rightarrow> update_topology_status now tid st reason r))"
  by (auto simp: transition_status_def get_topology_def bindS_def session_def split: option.split sum.split)

lemma transition_status_wf [simp]: "repo_wf r \<Longrightarrow> repo_wf (snd (transition_status now tid st reason r))"
  by (auto simp: transition_status_cases split: option.split sum.split)

lemma run_edit_wf: "repo_wf r \<Longrightarrow> edit_ok c r \<Longrightarrow> repo_wf (snd (run_edit c ev r))"
  by (cases c) (auto simp: topology_exists_def)

lemma run_cmd_wf: "repo_wf r \<Longrightarrow> cmd_ok c r \<Longrightarrow> repo_wf (snd (run_cmd c r))"
  by (cases c) (auto simp: run_edit_wf)

lemma reach_repo_wf: "reach r \<Longrightarrow> repo_wf r"
  by (induction rule: reach.induct) (auto intro: run_cmd_wf)

section \<open>The status log\<close>

fun chain :: "string \<Rightarrow> (string \<times> string) list \<Rightarrow> string \<Rightarrow> bool" where
  "chain s [] t \<longleftrightarrow> s = t"
| "chain s ((a, b) # xs) t \<longleftrightarrow> a = s \<and> status_step a b \<and> chain b xs t"

lemma chain_snoc: "chain s xs t \<Longrightarrow> status_step t u \<Longrightarrow> chain s (xs @ [(t, u)]) u"
  by (induction s xs t rule: chain.induct) auto

lemma chain_reaches: "chain s xs t \<Longrightarrow> status_step\<^sup>*\<^sup>* s t"
  by (induction s xs t rule: chain.induct) (auto intro: converse_rtranclp_into_rtranclp)

definition status_log :: "nat \<Rightarrow> repo \<Rightarrow> (string \<times> string) list" where
  "status_log tid r =
     map (\<lambda>s. (s_from_status s, s_to_status s)) (filter (\<lambda>s. s_topology_id s = tid) (r_events r))"

definition audit_ok :: "repo \<Rightarrow> bool" where
  "audit_ok r \<longleftrightarrow> (\<forall>t \<in> set (r_topologies r). chain PENDING (status_log (t_id t) r) (t_status t))"

lemma audit_same:
  assumes "\<And>t'. t' \<in> set (r_topologies r') \<Longrightarrow> \<exists>t \<in> set (r_topologies r). t_id t' = t_id t \<and> t_status t' = t_status t"
    and "r_events r' = r_events r" and "audit_ok r"
  shows "audit_ok r'"
  unfolding audit_ok_def
proof
  fix t' assume "t' \<in> set (r_topologies r')"
  with assms(1) obtain t where t: "t \<in> set (r_topologies r)" "t_id t' = t_id t" "t_status t' = t_status t" by blast
  with assms(3) have "chain PENDING (status_log (t_id t) r) (t_status t)" by (simp add: audit_ok_def)
  with t(2,3) show "chain PENDING (status_log (t_id t') r') (t_status t')"
    by (simp add: status_log_def assms(2))
qed

lemma audit_update_topology:
  assumes "\<And>t. t_id (f t) = t_id t" "\<And>t. t_status (f t) = t_status t" "audit_ok r"
  shows "audit_ok (update_topology tid f r)"
  by (rule audit_same [OF _ _ assms(3)]) (auto simp: update_topology_def assms(1,2))

lemma audit_bumped: "check_and_bump_version tid ev r = Inr r1 \<Longrightarrow> audit_ok r \<Longrightarrow> audit_ok r1"
  by (elim check_and_bump_cases) (auto intro: audit_update_topology)

lemma run_edit_audit:
  assumes "audit_ok r"
  shows "audit_ok (snd (run_edit c ev r))"
proof (cases "run_edit c ev r")
  case (Pair res r')
  show ?thesis
  proof (cases res)
    case (Inl e)
    with Pair run_edit_raised [of c ev r e r'] assms show ?thesis by simp
  next
    case (Inr u)
    with Pair have "run_edit c ev r = (Inr u, r')" by simp
    from run_edit_outcome [OF this] consider "r' = r"
      | tid r1 where "check_and_bump_version tid ev r = Inr r1" "r_topologies r' = r_topologies r1" "r_events r' = r_events r1"
      by blast
    then have "audit_ok r'"
    proof cases
      case (2 tid r1)
      show ?thesis by (rule audit_same [OF _ 2(3) audit_bumped [OF 2(1) assms]]) (auto simp: 2(2))
    qed (simp add: assms)
    with Pair show ?thesis by simp
  qed
qed

lemma transition_audit:
  assumes "audit_ok r" "repo_wf r"
  shows "audit_ok (snd (transition_status now tid st reason r))"
proof (cases "find_topology tid r")
  case (Some t)
  show ?thesis
  proof (cases "assert_transition (t_status t) st")
    case (Inr u)
    then have step: "status_step (t_status t) st" by (simp add: status_step_iff_Inr)
    let ?r' = "snd (transition_status now tid st reason r)"
    have r': "?r' = (update_topology tid (\<lambda>t. t\<lparr>t_status := st, t_status_changed_at := now\<rparr>) r)
      \<lparr>r_events := r_events r @ [\<lparr>s_id = r_next_id r, s_topology_id = tid, s_from_status = t_status t,
         s_to_status = st, s_at = now, s_reason = reason\<rparr>], r_next_id := Suc (r_next_id r)\<rparr>"
      by (simp add: transition_status_cases Some Inr update_topology_status_def session_def Let_def)
    have t: "t \<in> set (r_topologies r)" "t_id t = tid"
      using find_key_SomeD [OF Some [unfolded find_topology_def]] by auto
    have "inj_on t_id (set (r_topologies r))"
      using assms(2) by (simp add: repo_wf_defs rows_ok_def distinct_map)
    then have uniq: "x = t" if "x \<in> set (r_topologies r)" "t_id x = tid" for x
      using that t by (auto dest: inj_onD)
    have log: "status_log k ?r' = status_log k r @ (if k = tid then [(t_status t, st)] else [])" for k
      by (simp add: r' status_log_def)
    show ?thesis
      unfolding audit_ok_def log
    proof
      fix x assume "x \<in> set (r_topologies ?r')"
      then obtain y where y: "y \<in> set (r_topologies r)"
        "x = (if t_id y = tid then y\<lparr>t_status := st, t_status_changed_at := now\<rparr> else y)"
        by (auto simp: r' update_topology_def)
      from assms(1) y(1) have c: "chain PENDING (status_log (t_id y) r) (t_status y)" by (simp add: audit_ok_def)
      show "chain PENDING (status_log (t_id x) r @ (if t_id x = tid then [(t_status t, st)] else [])) (t_status x)"
      proof (cases "t_id y = tid")
        case True
        with uniq y(1) have "y = t" by blast
        with y(2) True c step show ?thesis by (simp add: chain_snoc)
      qed (use y(2) c in simp)
    qed
  qed (simp add: transition_status_cases Some assms)
qed (simp add: transition_status_cases assms)

lemma create_audit:
  assumes "audit_ok r" "repo_wf r"
  shows "audit_ok (snd (create_topology now name mode target snapshot r))"
proof -
  have "s_topology_id s < r_next_id r" if "s \<in> set (r_events r)" for s
    using assms(2) that by (fastforce simp: repo_wf_defs rows_ok_def)
  then have "status_log (r_next_id r) r = []" by (fastforce simp: status_log_def filter_empty_conv)
  then show ?thesis
    using assms(1) unfolding create_topology_def
    by (intro session_snd [where P = audit_ok]) (auto simp: audit_ok_def status_log_def Let_def split: if_splits)
qed

lemma delete_audit:
  assumes "audit_ok r"
  shows "audit_ok (snd (delete_topology_cascade tid r))"
proof -
  let ?r' = "snd (delete_topology_cascade tid r)"
  have "status_log k ?r' = status_log k r" if "k \<noteq> tid" for k
  proof -
    from that have "(s_topology_id s \<noteq> tid \<and> s_topology_id s = k) = (s_topology_id s = k)" for s :: status_event by auto
    then show ?thesis by (simp add: delete_topology_cascade_result status_log_def)
  qed
  with assms show ?thesis by (simp add: audit_ok_def delete_topology_cascade_result)
qed

lemma other_audit:
  "audit_ok r \<Longrightarrow> audit_ok (snd (set_topology_resync tid v r))"
  "audit_ok r \<Longrightarrow> audit_ok (snd (set_topology_email_personas tid js r))"
  "audit_ok r \<Longrightarrow> audit_ok (snd (claim_next_mutation tid r))"
  "audit_ok r \<Longrightarrow> audit_ok (snd (mark_mutation_applied now mid r))"
  "audit_ok r \<Longrightarrow> audit_ok (snd (mark_mutation_failed now mid reason r))"
proof -
  assume a: "audit_ok r"
  then have m: "audit_ok (r\<lparr>r_mutations := ms\<rparr>)" for ms by (rule audit_same [rotated 2]) auto
  from a show "audit_ok (snd (set_topology_resync tid v r))" "audit_ok (snd (set_topology_email_personas tid js r))"
    by (auto simp: set_topology_resync_def set_topology_email_personas_def session_def
        split: option.split intro!: audit_update_topology)
  from a m show "audit_ok (snd (claim_next_mutation tid r))"
    "audit_ok (snd (mark_mutation_applied now mid r))" "audit_ok (snd (mark_mutation_failed now mid reason r))"
    by (auto simp: claim_next_mutation_def mark_mutation_applied_def mark_mutation_failed_def session_def Let_def
        split: option.split)
qed

lemma run_cmd_audit: "audit_ok r \<Longrightarrow> repo_wf r \<Longrightarrow> audit_ok (snd (run_cmd c r))"
  by (cases c) (simp_all add: create_audit transition_audit other_audit delete_audit run_edit_audit)

lemma reach_audit: "reach r \<Longrightarrow> audit_ok r"
proof (induction rule: reach.induct)
  case init
  then show ?case by (simp add: audit_ok_def empty_repo_def)
next
  case (step r c)
  then show ?case by (simp add: run_cmd_audit reach_repo_wf)
qed

section \<open>The mutation queue\<close>

text \<open>The states a mutation row moves through, as a relation between rows of one table.\<close>

inductive mutation_step :: "string \<Rightarrow> string \<Rightarrow> bool" where
  claim: "mutation_step M_PENDING M_APPLYING"
| finish: "mutation_step s M_APPLIED"
| fail: "mutation_step s M_FAILED"

inductive_simps mutation_step_iff: "mutation_step s t"

lemma oldest_mutation_Some:
  assumes "oldest_mutation tid st r = Some m"
  shows "m \<in> set (r_mutations r)" "m_topology_id m = tid" "m_state m = st"
    and "\<And>m'. m' \<in> set (r_mutations r) \<Longrightarrow> m_topology_id m' = tid \<Longrightarrow> m_state m' = st \<Longrightarrow>
      m_requested_at m \<le> m_requested_at m'"
proof -
  let ?ms = "filter (\<lambda>m. m_topology_id m = tid \<and> m_state m = st) (r_mutations r)"
  from assms obtain ms where ms: "sort_key m_requested_at ?ms = m # ms"
    by (auto simp: oldest_mutation_def split: list.splits)
  then have "m \<in> set ?ms" by (metis list.set_intros(1) set_sort)
  then show "m \<in> set (r_mutations r)" "m_topology_id m = tid" "m_state m = st" by auto
  have "sorted (map m_requested_at (m # ms))" using sorted_sort_key [of m_requested_at ?ms] by (simp add: ms)
  moreover have "set (m # ms) = set ?ms" by (metis ms set_sort)
  ultimately show "\<And>m'. m' \<in> set (r_mutations r) \<Longrightarrow> m_topology_id m' = tid \<Longrightarrow> m_state m' = st \<Longrightarrow>
      m_requested_at m \<le> m_requested_at m'" by (auto dest!: equalityD2)
qed

lemma oldest_mutation_None:
  "oldest_mutation tid st r = None \<longleftrightarrow> (\<forall>m \<in> set (r_mutations r). \<not> (m_topology_id m = tid \<and> m_state m = st))"
proof -
  have "oldest_mutation tid st r = None \<longleftrightarrow>
      filter (\<lambda>m. m_topology_id m = tid \<and> m_state m = st) (r_mutations r) = []"
    unfolding oldest_mutation_def by (metis (no_types, lifting) list.simps(4,5) neq_Nil_conv option.distinct(1) set_empty set_sort)
  then show ?thesis by (simp add: filter_empty_conv)
qed

abbreviation claimed :: "mutation_row \<Rightarrow> repo \<Rightarrow> repo" where
  "claimed m r \<equiv> r\<lparr>r_mutations := map (\<lambda>x. if m_id x = m_id m \<and> m_state x = M_PENDING
     then x\<lparr>m_state := M_APPLYING\<rparr> else x) (r_mutations r)\<rparr>"

lemma claim_pending:
  assumes "oldest_mutation tid M_PENDING r = Some m"
  shows "claim_next_mutation tid r = (Inr (oldest_mutation tid M_APPLYING (claimed m r)), claimed m r)"
  using assms by (simp add: claim_next_mutation_def session_def Let_def)

lemma oldest_mutation_unique:
  assumes "m \<in> set (r_mutations r)" "m_topology_id m = tid" "m_state m = st"
    and "\<And>m'. m' \<in> set (r_mutations r) \<Longrightarrow> m_topology_id m' = tid \<Longrightarrow> m_state m' = st \<Longrightarrow> m' \<noteq> m \<Longrightarrow>
      m_requested_at m < m_requested_at m'"
  shows "oldest_mutation tid st r = Some m"
proof (cases "oldest_mutation tid st r")
  case None
  with assms(1-3) show ?thesis by (auto simp: oldest_mutation_None)
next
  case (Some x)
  note x = oldest_mutation_Some [OF Some]
  have "x = m" using assms(4) [OF x(1-3)] x(4) [OF assms(1-3)] by force
  with Some show ?thesis by simp
qed

lemma claim_fifo:
  assumes "repo_wf r" and old: "oldest_mutation tid M_PENDING r = Some m"
    and no: "oldest_mutation tid M_APPLYING r = None"
  shows "claim_next_mutation tid r = (Inr (Some (m\<lparr>m_state := M_APPLYING\<rparr>)), claimed m r)"
proof -
  note m = oldest_mutation_Some [OF old]
  have inj: "x = m" if "x \<in> set (r_mutations r)" "m_id x = m_id m" for x
    using assms(1) that m(1) by (auto simp: repo_wf_defs rows_ok_def distinct_map dest: inj_onD)
  have "oldest_mutation tid M_APPLYING (claimed m r) = Some (m\<lparr>m_state := M_APPLYING\<rparr>)"
  proof (rule oldest_mutation_unique)
    show "m\<lparr>m_state := M_APPLYING\<rparr> \<in> set (r_mutations (claimed m r))"
      using m(1,3) by (force simp: image_iff)
    fix m' assume m': "m' \<in> set (r_mutations (claimed m r))" "m_topology_id m' = tid" "m_state m' = M_APPLYING"
      "m' \<noteq> m\<lparr>m_state := M_APPLYING\<rparr>"
    then obtain x where x: "x \<in> set (r_mutations r)"
      "m' = (if m_id x = m_id m \<and> m_state x = M_PENDING then x\<lparr>m_state := M_APPLYING\<rparr> else x)" by auto
    show "m_requested_at (m\<lparr>m_state := M_APPLYING\<rparr>) < m_requested_at m'"
    proof (cases "m_id x = m_id m")
      case True
      with inj x(1) have "x = m" by blast
      with x(2) m(3) m'(4) show ?thesis by simp
    next
      case False
      with x m'(2,3) no show ?thesis by (auto simp: oldest_mutation_None)
    qed
  qed (use m in simp_all)
  with claim_pending [OF old] show ?thesis by simp
qed

lemma claim_stale:
  assumes "repo_wf r" and old: "oldest_mutation tid M_PENDING r = Some m"
    and st: "oldest_mutation tid M_APPLYING r = Some a" and lt: "m_requested_at a < m_requested_at m"
  shows "\<exists>b. claim_next_mutation tid r = (Inr (Some b), claimed m r) \<and> m_id b \<noteq> m_id m \<and>
    m_requested_at b = m_requested_at a"
proof -
  note m = oldest_mutation_Some [OF old] and a = oldest_mutation_Some [OF st]
  have inj: "x = m" if "x \<in> set (r_mutations r)" "m_id x = m_id m" for x
    using assms(1) that m(1) by (auto simp: repo_wf_defs rows_ok_def distinct_map dest: inj_onD)
  have a': "a \<in> set (r_mutations (claimed m r))" using a(1,3) by (force simp: image_iff)
  then have "oldest_mutation tid M_APPLYING (claimed m r) \<noteq> None"
    using a(2,3) unfolding oldest_mutation_None by blast
  then obtain b where b: "oldest_mutation tid M_APPLYING (claimed m r) = Some b" by blast
  note bs = oldest_mutation_Some [OF b]
  from bs(1) obtain x where x: "x \<in> set (r_mutations r)"
    "b = (if m_id x = m_id m \<and> m_state x = M_PENDING then x\<lparr>m_state := M_APPLYING\<rparr> else x)" by auto
  have le: "m_requested_at b \<le> m_requested_at a" using bs(4) [OF a' a(2,3)] .
  have ne: "m_id x \<noteq> m_id m"
  proof
    assume "m_id x = m_id m"
    with inj x(1) have "x = m" by blast
    with x(2) le lt show False by (simp split: if_splits)
  qed
  then have "b = x" using x(2) by simp
  with a(4) [OF x(1)] bs(2,3) le have "m_requested_at b = m_requested_at a" by simp
  with claim_pending [OF old] b ne \<open>b = x\<close> show ?thesis by simp
qed

end
