(* ===== verification/Mutator_Docker.thy ===== *)
theory Mutator_Docker
  imports Topology_Compose Topology_Commands
begin

text \<open>
  The Docker side of the live mutations (the helpers of \<open>decnet/mutator/ops.py\<close> above the
  operations).  Docker is not part of the program: a command is recorded in the world's log, and
  what it answers is the argument \<open>env_docker\<close> of the model, which may depend on every earlier
  command.  No assumption is made about the answers.  \<open>world\<close> is the repository, that log and the
  events published on the bus (\<open>publish_safely\<close> never raises); an operation of the repository is
  lifted to it by \<open>on_repo\<close>.  The text of an exception is the argument \<open>env_reason\<close>.
\<close>

section \<open>The world\<close>

datatype docker_cmd =
    FromEnv
  | CreateBridge string string bool
  | RemoveBridge string
  | ComposeUp "string list" bool
  | ComposeRun "string list"
  | NetConnect string string string
  | NetDisconnect string string
  | WriteCompose nat json
  | ComposeCli string "string list"
  | Sleep nat
  | DockerInfo
  | UnlinkCompose nat
  | AgentApply string hydrated string
  | AgentTeardown string nat

datatype docker_reply = DkOk | DkError (dk_api: bool) (dk_stderr: string) (dk_str: string)

datatype bus_event =
    MutationApplying nat nat string
  | MutationApplied nat nat string
  | MutationFailed nat nat string string
  | TopologyState nat string string

record world =
  w_repo :: repo
  w_docker :: "docker_cmd list"
  w_bus :: "bus_event list"

record mutator_env =
  env_docker :: "docker_cmd list \<Rightarrow> docker_cmd \<Rightarrow> docker_reply"
  env_services :: "string \<rightharpoonup> service_plugin"
  env_known :: "string list"
  env_id_str :: "nat \<Rightarrow> string"
  env_now :: nat
  env_reason :: "exn \<Rightarrow> string"

definition on_repo :: "('a, repo) op \<Rightarrow> ('a, world) op" where
  "on_repo m w = (case m (w_repo w) of (res, r) \<Rightarrow> (res, w\<lparr>w_repo := r\<rparr>))"

definition reads :: "(repo \<Rightarrow> 'a result) \<Rightarrow> ('a, world) op" where
  "reads f w = (f (w_repo w), w)"

definition docker_call :: "mutator_env \<Rightarrow> docker_cmd \<Rightarrow> (docker_reply, world) op" where
  "docker_call env c w = (Inr (env_docker env (w_docker w) c), w\<lparr>w_docker := w_docker w @ [c]\<rparr>)"

definition publish :: "bus_event \<Rightarrow> (unit, world) op" where
  "publish e w = (Inr (), w\<lparr>w_bus := w_bus w @ [e]\<rparr>)"

text \<open>A call whose failure is an exception, and the handler \<open>except Exception: log\<close>.\<close>

definition docker_do :: "mutator_env \<Rightarrow> docker_cmd \<Rightarrow> (unit, world) op" where
  "docker_do env c = bindS (docker_call env c) (\<lambda>reply.
     case reply of DkOk \<Rightarrow> returnS () | DkError _ _ _ \<Rightarrow> raiseS DockerException)"

definition logged :: "(unit, 's) op \<Rightarrow> (unit, 's) op" where
  "logged m s = (case m s of (_, s') \<Rightarrow> (Inr (), s'))"

definition need :: "'a option \<Rightarrow> ('a, 's) op" where
  "need x = (case x of None \<Rightarrow> raiseS KeyError | Some v \<Rightarrow> returnS v)"

section \<open>Helpers\<close>

definition live_statuses :: "string list" where
  "live_statuses = [ACTIVE, DEGRADED]"

definition agent_pinned :: "topology_row \<Rightarrow> bool" where
  "agent_pinned t \<longleftrightarrow> t_target_host_uuid t \<noteq> None \<and> t_target_host_uuid t \<noteq> Some []"

definition live_topology_or_none :: "nat \<Rightarrow> repo \<Rightarrow> topology_row option" where
  "live_topology_or_none tid r =
     (case find_topology tid r of
        None \<Rightarrow> None
      | Some t \<Rightarrow> if t_status t \<notin> set live_statuses then None
                else if agent_pinned t then None else Some t)"

definition BUILDX_WEDGE_SIGNATURE :: string where
  "BUILDX_WEDGE_SIGNATURE = ''failed to update builder last activity time''"

definition BUILDX_EROFS_SIGNATURE :: string where
  "BUILDX_EROFS_SIGNATURE = ''read-only file system''"

definition is_buildx_wedge :: "docker_reply \<Rightarrow> bool" where
  "is_buildx_wedge reply =
     (case reply of
        DkOk \<Rightarrow> False
      | DkError _ stderr str \<Rightarrow>
          let haystack = lower (stderr @ '' '' @ str)
          in contains BUILDX_WEDGE_SIGNATURE haystack \<and> contains BUILDX_EROFS_SIGNATURE haystack)"

text \<open>The second attempt, with the legacy builder (\<open>DOCKER_BUILDKIT=0\<close>), is marked \<open>True\<close>.\<close>

definition compose_up_with_buildkit_fallback :: "mutator_env \<Rightarrow> string list \<Rightarrow> (unit, world) op" where
  "compose_up_with_buildkit_fallback env args =
     bindS (docker_call env (ComposeUp args False)) (\<lambda>reply.
       case reply of
         DkOk \<Rightarrow> returnS ()
       | DkError _ _ _ \<Rightarrow>
           if \<not> is_buildx_wedge reply then raiseS DockerException
           else docker_do env (ComposeUp args True))"

definition decky_targets :: "(string \<rightharpoonup> service_plugin) \<Rightarrow> string \<Rightarrow> string list \<Rightarrow> string list" where
  "decky_targets reg decky_name services =
     decky_name # map (\<lambda>svc. decky_name @ ''-'' @ svc)
       (filter (\<lambda>svc. case reg svc of None \<Rightarrow> True | Some s \<Rightarrow> \<not> svc_fleet_singleton s) services)"

definition write_topology_compose :: "mutator_env \<Rightarrow> nat \<Rightarrow> hydrated \<Rightarrow> (unit, world) op" where
  "write_topology_compose env tid h =
     bindS (liftE (generate_topology_compose (env_id_str env) (env_services env) h)) (\<lambda>data.
       docker_do env (WriteCompose tid data))"

definition rerender_compose :: "mutator_env \<Rightarrow> nat \<Rightarrow> (unit, world) op" where
  "rerender_compose env tid =
     bindS (reads (hydrate tid)) (\<lambda>h.
       case h of None \<Rightarrow> returnS () | Some h \<Rightarrow> logged (write_topology_compose env tid h))"

section \<open>Materialisation\<close>

text \<open>The client is opened before the \<open>try\<close> block, so its exception is not caught.\<close>

definition materialise_lan_change ::
  "mutator_env \<Rightarrow> nat \<Rightarrow> (string \<times> string \<times> bool) option \<Rightarrow> string option \<Rightarrow> (unit, world) op" where
  "materialise_lan_change env tid created removed =
     bindS (reads (\<lambda>r. Inr (find_topology tid r))) (\<lambda>topology.
       case topology of
         None \<Rightarrow> returnS ()
       | Some t \<Rightarrow>
           if t_status t \<notin> set live_statuses then returnS ()
           else if agent_pinned t then returnS ()
           else bindS (docker_do env FromEnv) (\<lambda>_.
             logged (
               bindS (case created of
                        None \<Rightarrow> returnS ()
                      | Some (name, subnet, is_dmz) \<Rightarrow>
                          logged (docker_do env (CreateBridge (network_name (env_id_str env tid) name) subnet (\<not> is_dmz))))
                 (\<lambda>_. bindS (case removed of
                        None \<Rightarrow> returnS ()
                      | Some name \<Rightarrow> logged (docker_do env (RemoveBridge (network_name (env_id_str env tid) name))))
                 (\<lambda>_. bindS (reads (hydrate tid)) (\<lambda>h.
                        case h of None \<Rightarrow> returnS () | Some h \<Rightarrow> logged (write_topology_compose env tid h)))))))"

definition if_live :: "nat \<Rightarrow> 'a \<Rightarrow> ('a, world) op \<Rightarrow> ('a, world) op" where
  "if_live tid otherwise m =
     bindS (reads (\<lambda>r. Inr (live_topology_or_none tid r))) (\<lambda>t.
       case t of None \<Rightarrow> returnS otherwise | Some _ \<Rightarrow> m)"

definition materialise_decky_spawn ::
  "mutator_env \<Rightarrow> nat \<Rightarrow> string \<Rightarrow> string list \<Rightarrow> (bool, world) op" where
  "materialise_decky_spawn env tid decky_name services =
     if_live tid False (
       bindS (rerender_compose env tid) (\<lambda>_ w.
         case compose_up_with_buildkit_fallback env
                ([''up'', ''-d'', ''--no-deps'', ''--build''] @ decky_targets (env_services env) decky_name services) w of
           (Inl _, w') \<Rightarrow> (Inr False, w')
         | (Inr _, w') \<Rightarrow> (Inr True, w')))"

definition materialise_decky_remove ::
  "mutator_env \<Rightarrow> nat \<Rightarrow> string \<Rightarrow> string list \<Rightarrow> (unit, world) op" where
  "materialise_decky_remove env tid decky_name services =
     if_live tid () (
       let targets = decky_targets (env_services env) decky_name services in
       bindS (logged (docker_do env (ComposeRun (''stop'' # targets)))) (\<lambda>_.
       bindS (logged (docker_do env (ComposeRun ([''rm'', ''-f''] @ targets)))) (\<lambda>_.
         rerender_compose env tid)))"

definition materialise_decky_connect ::
  "mutator_env \<Rightarrow> nat \<Rightarrow> string \<Rightarrow> string \<Rightarrow> string \<Rightarrow> (unit, world) op" where
  "materialise_decky_connect env tid decky_name lan_name ip =
     if_live tid () (
       bindS (logged (bindS (docker_do env FromEnv) (\<lambda>_.
         docker_do env (NetConnect (network_name (env_id_str env tid) lan_name)
           (container_name (env_id_str env tid) decky_name) ip)))) (\<lambda>_.
         rerender_compose env tid))"

definition materialise_decky_disconnect ::
  "mutator_env \<Rightarrow> nat \<Rightarrow> string \<Rightarrow> string \<Rightarrow> (unit, world) op" where
  "materialise_decky_disconnect env tid decky_name lan_name =
     if_live tid () (
       bindS (logged (bindS (docker_do env FromEnv) (\<lambda>_.
         docker_do env (NetDisconnect (network_name (env_id_str env tid) lan_name)
           (container_name (env_id_str env tid) decky_name))))) (\<lambda>_.
         rerender_compose env tid))"

definition materialise_decky_services_diff ::
  "mutator_env \<Rightarrow> nat \<Rightarrow> string \<Rightarrow> string list \<Rightarrow> string list \<Rightarrow> (unit, world) op" where
  "materialise_decky_services_diff env tid decky_name added removed =
     (if added = [] \<and> removed = [] then returnS ()
      else if_live tid () (
        bindS (rerender_compose env tid) (\<lambda>_.
          let add_targets = tl (decky_targets (env_services env) decky_name added);
              rm_targets = tl (decky_targets (env_services env) decky_name removed)
          in bindS (if add_targets = [] then returnS ()
                    else logged (compose_up_with_buildkit_fallback env
                      ([''up'', ''-d'', ''--no-deps'', ''--build''] @ add_targets))) (\<lambda>_.
               if rm_targets = [] then returnS ()
               else bindS (logged (docker_do env (ComposeRun (''stop'' # rm_targets)))) (\<lambda>_.
                 logged (docker_do env (ComposeRun ([''rm'', ''-f''] @ rm_targets))))))))"

definition materialise_decky_recreate_base :: "mutator_env \<Rightarrow> nat \<Rightarrow> string \<Rightarrow> (unit, world) op" where
  "materialise_decky_recreate_base env tid decky_name =
     if_live tid () (
       bindS (rerender_compose env tid) (\<lambda>_.
         logged (docker_do env (ComposeUp [''up'', ''-d'', ''--no-deps'', ''--force-recreate'', decky_name] False))))"

section \<open>No Docker helper touches the repository\<close>

definition keeps_repo :: "('a, world) op \<Rightarrow> bool" where
  "keeps_repo m \<longleftrightarrow> (\<forall>w. w_repo (snd (m w)) = w_repo w)"

named_theorems keeps \<open>operations that leave the repository alone\<close>

lemma keeps_repoD: "keeps_repo m \<Longrightarrow> m w = (res, w') \<Longrightarrow> w_repo w' = w_repo w"
  unfolding keeps_repo_def by (metis snd_conv)

lemma keeps_basic [keeps, simp]:
  "keeps_repo (returnS x)" "keeps_repo (raiseS e)" "keeps_repo (liftE m)" "keeps_repo (reads f)"
  "keeps_repo (docker_call env c)" "keeps_repo (publish e')"
  by (simp_all add: keeps_repo_def reads_def docker_call_def publish_def)

lemma keeps_bindS [keeps, intro]: "keeps_repo m \<Longrightarrow> (\<And>x. keeps_repo (f x)) \<Longrightarrow> keeps_repo (bindS m f)"
  by (auto simp: keeps_repo_def bindS_def split: prod.split sum.split) (metis snd_conv)+

lemma keeps_logged [keeps, intro]: "keeps_repo m \<Longrightarrow> keeps_repo (logged m)"
  by (auto simp: keeps_repo_def logged_def split: prod.split) (metis snd_conv)

lemma keeps_docker_do [keeps, simp]: "keeps_repo (docker_do env c)"
  unfolding docker_do_def by (intro keeps_bindS) (auto split: docker_reply.split)

lemma keeps_if_live [keeps, intro]: "keeps_repo m \<Longrightarrow> keeps_repo (if_live tid x m)"
  unfolding if_live_def by (intro keeps_bindS) (auto split: option.split)

lemma keeps_compose_up [keeps, simp]: "keeps_repo (compose_up_with_buildkit_fallback env args)"
  unfolding compose_up_with_buildkit_fallback_def by (intro keeps_bindS) (auto split: docker_reply.split)

lemma keeps_write_compose [keeps, simp]: "keeps_repo (write_topology_compose env tid h)"
  unfolding write_topology_compose_def by (intro keeps_bindS) auto

lemma keeps_rerender [keeps, simp]: "keeps_repo (rerender_compose env tid)"
  unfolding rerender_compose_def by (intro keeps_bindS) (auto split: option.split)

lemma keeps_materialise [keeps, simp]:
  "keeps_repo (materialise_lan_change env tid created gone)"
  "keeps_repo (materialise_decky_spawn env tid name svcs)"
  "keeps_repo (materialise_decky_remove env tid name svcs)"
  "keeps_repo (materialise_decky_connect env tid name lan ip)"
  "keeps_repo (materialise_decky_disconnect env tid name lan)"
  "keeps_repo (materialise_decky_services_diff env tid name added removed)"
  "keeps_repo (materialise_decky_recreate_base env tid name)"
proof -
  have spawn: "keeps_repo (\<lambda>w. case compose_up_with_buildkit_fallback env args w of
      (Inl e, w') \<Rightarrow> (Inr False, w') | (Inr u, w') \<Rightarrow> (Inr True, w'))" for args
    using keeps_compose_up [of env args]
    by (auto simp: keeps_repo_def split: prod.split sum.split) (metis snd_conv)+
  show "keeps_repo (materialise_decky_spawn env tid name svcs)"
    unfolding materialise_decky_spawn_def by (intro keeps_if_live keeps_bindS spawn keeps_rerender)
  show "keeps_repo (materialise_lan_change env tid created gone)"
    unfolding materialise_lan_change_def
    by (intro keeps_bindS keeps_basic) (auto intro!: keeps_bindS keeps_logged split: option.split)
qed (auto simp: materialise_decky_remove_def materialise_decky_connect_def materialise_decky_disconnect_def
    materialise_decky_services_diff_def materialise_decky_recreate_base_def Let_def
    intro!: keeps_if_live keeps_bindS keeps_logged)

end
