(* ===== verification/Mutator_Ops.thy ===== *)
theory Mutator_Ops
  imports Mutator_Docker
begin

text \<open>
  The live mutations (\<open>decnet/mutator/ops.py\<close>): every \<open>apply_<op>\<close> reads the hydrated topology,
  writes through the repository, drives Docker best-effort, and runs the post-apply rules on the
  re-read topology.  The operations write first and check afterwards: an exception leaves what was
  written.  A key that is missing from the payload dict is \<open>None\<close> in the record and raises
  \<open>KeyError\<close> where the code indexes the dict.
\<close>

section \<open>Reading and checking\<close>

definition hydrated_of :: "nat \<Rightarrow> (hydrated, world) op" where
  "hydrated_of tid = bindS (reads (hydrate tid)) (\<lambda>h.
     case h of None \<Rightarrow> raiseS MutationError | Some h \<Rightarrow> returnS h)"

definition post_apply_issues :: "string list \<Rightarrow> hydrated \<Rightarrow> validation_issue list" where
  "post_apply_issues known h =
     check_names_unique h @ check_no_ip_collisions h @ check_no_subnet_overlap h @
     check_services_known known h @ check_service_config_shape h"

definition assert_valid_after :: "mutator_env \<Rightarrow> nat \<Rightarrow> (unit, world) op" where
  "assert_valid_after env tid =
     bindS (hydrated_of tid) (\<lambda>h. guardS (errors (post_apply_issues (env_known env) h) = []) MutationError)"

definition lan_by_name :: "hydrated \<Rightarrow> string \<Rightarrow> lan_row option" where
  "lan_by_name h name = find (\<lambda>l. l_name l = name) (h_lans h)"

definition decky_by_name :: "hydrated \<Rightarrow> string \<Rightarrow> decky_row option" where
  "decky_by_name h name = find (\<lambda>d. dc_name (config_of d) = Some name) (h_deckies h)"

definition found :: "'a option \<Rightarrow> ('a, 's) op" where
  "found x = (case x of None \<Rightarrow> raiseS MutationError | Some v \<Rightarrow> returnS v)"

text \<open>The block that both \<open>apply_add_decky\<close> and \<open>apply_attach_decky\<close> use for an address that is
  not pinned; the set of taken addresses is reserved in the order of the deckies.\<close>

definition taken_addresses :: "hydrated \<Rightarrow> string \<Rightarrow> string list" where
  "taken_addresses h lan_name =
     remdups (List.map_filter (\<lambda>d. map_of (ips_of (config_of d)) lan_name) (h_deckies h))"

definition reserve_all :: "string list \<Rightarrow> ip_allocator \<Rightarrow> ip_allocator result" where
  "reserve_all taken a = foldE (\<lambda>t a. if t = [] then Inr a
     else case IPAllocator_reserve t a of (Inl e, _) \<Rightarrow> Inl e | (Inr _, a') \<Rightarrow> Inr a') taken a"

definition allocate_address :: "hydrated \<Rightarrow> lan_row \<Rightarrow> string result" where
  "allocate_address h lan =
     bindE (IPAllocator_init (l_subnet lan)) (\<lambda>alloc.
     bindE (reserve_all (taken_addresses h (l_name lan)) alloc) (\<lambda>alloc.
       fst (IPAllocator_next_free alloc)))"

definition choose_address :: "string option \<Rightarrow> hydrated \<Rightarrow> lan_row \<Rightarrow> (string, world) op" where
  "choose_address pinned h lan =
     (case pinned of Some ip \<Rightarrow> returnS ip | None \<Rightarrow> liftE (allocate_address h lan))"

abbreviation set_config :: "mutator_env \<Rightarrow> nat \<Rightarrow> decky_config \<Rightarrow> (unit, world) op" where
  "set_config env du cfg \<equiv>
     on_repo (update_topology_decky (env_now env) du (no_decky_fields\<lparr>df_decky_config := Some (Some cfg)\<rparr>) None False)"

definition without_lan :: "decky_config \<Rightarrow> string \<Rightarrow> decky_config" where
  "without_lan cfg lan_name = cfg\<lparr>dc_ips_by_lan := Some (dict_pop lan_name (ips_of cfg))\<rparr>"

section \<open>LANs\<close>

definition apply_add_lan :: "mutator_env \<Rightarrow> nat \<Rightarrow> mutation_payload \<Rightarrow> (unit, world) op" where
  "apply_add_lan env tid payload =
     bindS (need (mp_name payload)) (\<lambda>name.
     bindS (case mp_subnet payload of
              Some subnet \<Rightarrow> returnS subnet
            | None \<Rightarrow> reads (\<lambda>r. bindE (SubnetAllocator_init ''172.16.0.0/12'' (reserved_subnets r)) (\<lambda>alloc.
                fst (SubnetAllocator_next_free alloc)))) (\<lambda>subnet.
     bindS (on_repo (add_lan tid name subnet (mp_is_dmz payload)
              (with_default None (mp_x payload)) (with_default None (mp_y payload)) None)) (\<lambda>_.
     bindS (materialise_lan_change env tid (Some (name, subnet, mp_is_dmz payload)) None) (\<lambda>_.
       assert_valid_after env tid))))"

definition is_home_lan :: "string \<Rightarrow> decky_row \<Rightarrow> bool" where
  "is_home_lan lan_name d \<longleftrightarrow> (case ips_of (config_of d) of [] \<Rightarrow> False | (home, _) # _ \<Rightarrow> home = lan_name)"

text \<open>The detaching loop of \<open>apply_remove_lan\<close>: the body for one edge of the LAN.\<close>

definition detach_member :: "mutator_env \<Rightarrow> nat \<Rightarrow> hydrated \<Rightarrow> string \<Rightarrow> edge_row \<Rightarrow> (unit, world) op" where
  "detach_member env tid h lan_name e =
     bindS (case find (\<lambda>d. d_uuid d = e_decky_uuid e) (h_deckies h) of
              None \<Rightarrow> returnS ()
            | Some d \<Rightarrow>
                bindS (set_config env (d_uuid d) (without_lan (config_of d) lan_name)) (\<lambda>_.
                bindS (need (dc_name (config_of d))) (\<lambda>decky_name.
                  materialise_decky_disconnect env tid decky_name lan_name))) (\<lambda>_.
       on_repo (delete_topology_edge (e_id e) None False))"

definition apply_remove_lan :: "mutator_env \<Rightarrow> nat \<Rightarrow> mutation_payload \<Rightarrow> (unit, world) op" where
  "apply_remove_lan env tid payload =
     bindS (hydrated_of tid) (\<lambda>h.
     bindS (need (mp_name payload)) (\<lambda>name.
     bindS (found (lan_by_name h name)) (\<lambda>lan.
     bindS (guardS (\<not> (\<exists>d \<in> set (h_deckies h). is_home_lan (l_name lan) d)) MutationError) (\<lambda>_.
     bindS (forS (detach_member env tid h (l_name lan)) (filter (\<lambda>e. e_lan_id e = l_id lan) (h_edges h))) (\<lambda>_.
     bindS (on_repo (delete_lan (l_id lan) None False)) (\<lambda>_.
     bindS (materialise_lan_change env tid None (Some (l_name lan))) (\<lambda>_.
       assert_valid_after env tid)))))))"

definition lan_patch :: "mutation_payload \<Rightarrow> lan_fields" where
  "lan_patch payload = no_lan_fields\<lparr>lf_name := mp_patch_name payload, lf_subnet := mp_patch_subnet payload,
     lf_is_dmz := mp_patch_is_dmz payload, lf_x := mp_x payload, lf_y := mp_y payload\<rparr>"

definition apply_update_lan :: "mutator_env \<Rightarrow> nat \<Rightarrow> mutation_payload \<Rightarrow> (unit, world) op" where
  "apply_update_lan env tid payload =
     bindS (hydrated_of tid) (\<lambda>h.
     bindS (need (mp_name payload)) (\<lambda>name.
     bindS (found (lan_by_name h name)) (\<lambda>lan.
       if lan_patch payload = no_lan_fields then returnS ()
       else
         bindS (reads (\<lambda>r. Inr (find_topology tid r))) (\<lambda>topology.
         bindS (guardS (\<not> ((case topology of None \<Rightarrow> False | Some t \<Rightarrow> t_status t \<in> set live_statuses) \<and>
                  (lf_subnet (lan_patch payload) \<noteq> None \<or> lf_is_dmz (lan_patch payload) \<noteq> None))) MutationError) (\<lambda>_.
         bindS (on_repo (update_lan (l_id lan) (lan_patch payload) None False)) (\<lambda>_.
           assert_valid_after env tid))))))"

section \<open>Deckies\<close>

definition new_decky_config :: "mutation_payload \<Rightarrow> string \<Rightarrow> string \<Rightarrow> string \<Rightarrow> decky_config" where
  "new_decky_config payload name lan_name ip =
     empty_config\<lparr>dc_name := Some name, dc_ips_by_lan := Some [(lan_name, ip)], dc_archetype := mp_archetype payload,
       dc_forwards_l3 := (if mp_forwards_l3 payload then Some True else None)\<rparr>"

definition apply_add_decky :: "mutator_env \<Rightarrow> nat \<Rightarrow> mutation_payload \<Rightarrow> (unit, world) op" where
  "apply_add_decky env tid payload =
     bindS (need (mp_name payload)) (\<lambda>name.
     bindS (hydrated_of tid) (\<lambda>h.
     bindS (guardS (decky_by_name h name = None) MutationError) (\<lambda>_.
     bindS (need (mp_lan payload)) (\<lambda>lan_name.
     bindS (found (lan_by_name h lan_name)) (\<lambda>lan.
     bindS (choose_address (mp_ip payload) h lan) (\<lambda>ip.
       let services = with_default [] (mp_services payload) in
     bindS (on_repo (add_topology_decky (env_now env) tid name services
              (Some (new_decky_config payload name (l_name lan) ip)) None
              (with_default None (mp_x payload)) (with_default None (mp_y payload)) None)) (\<lambda>du.
     bindS (on_repo (add_topology_edge tid du (l_id lan) False (mp_forwards_l3 payload) None)) (\<lambda>_.
     bindS (materialise_decky_spawn env tid name services) (\<lambda>spawned.
     bindS (if spawned
            then logged (on_repo (update_topology_decky (env_now env) du
                   (no_decky_fields\<lparr>df_state := Some ''running''\<rparr>) None False))
            else returnS ()) (\<lambda>_.
       assert_valid_after env tid))))))))))"

definition apply_attach_decky :: "mutator_env \<Rightarrow> nat \<Rightarrow> mutation_payload \<Rightarrow> (unit, world) op" where
  "apply_attach_decky env tid payload =
     bindS (hydrated_of tid) (\<lambda>h.
     bindS (need (mp_lan payload)) (\<lambda>lan_name.
     bindS (need (mp_decky payload)) (\<lambda>decky_name.
     bindS (found (lan_by_name h lan_name)) (\<lambda>lan.
     bindS (found (decky_by_name h decky_name)) (\<lambda>d.
     bindS (guardS (\<not> (\<exists>e \<in> set (h_edges h). e_decky_uuid e = d_uuid d \<and> e_lan_id e = l_id lan)) MutationError) (\<lambda>_.
     bindS (choose_address (mp_ip payload) h lan) (\<lambda>ip.
       let cfg = config_of d;
           cfg = cfg\<lparr>dc_ips_by_lan := Some (AList.update (l_name lan) ip (ips_of cfg))\<rparr>;
           cfg = (if mp_forwards_l3 payload then cfg\<lparr>dc_forwards_l3 := Some True\<rparr> else cfg) in
     bindS (set_config env (d_uuid d) cfg) (\<lambda>_.
     bindS (on_repo (add_topology_edge tid (d_uuid d) (l_id lan) True (mp_forwards_l3 payload) None)) (\<lambda>_.
     bindS (materialise_decky_connect env tid decky_name (l_name lan) ip) (\<lambda>_.
       assert_valid_after env tid))))))))))"

definition apply_detach_decky :: "mutator_env \<Rightarrow> nat \<Rightarrow> mutation_payload \<Rightarrow> (unit, world) op" where
  "apply_detach_decky env tid payload =
     bindS (hydrated_of tid) (\<lambda>h.
     bindS (need (mp_lan payload)) (\<lambda>lan_name.
     bindS (need (mp_decky payload)) (\<lambda>decky_name.
     bindS (found (lan_by_name h lan_name)) (\<lambda>lan.
     bindS (found (decky_by_name h decky_name)) (\<lambda>d.
     bindS (guardS (ips_of (config_of d) \<noteq> []) MutationError) (\<lambda>_.
     bindS (guardS (\<not> is_home_lan (l_name lan) d) MutationError) (\<lambda>_.
     bindS (found (find (\<lambda>e. e_decky_uuid e = d_uuid d \<and> e_lan_id e = l_id lan) (h_edges h))) (\<lambda>e.
     bindS (set_config env (d_uuid d) (without_lan (config_of d) (l_name lan))) (\<lambda>_.
     bindS (on_repo (delete_topology_edge (e_id e) None False)) (\<lambda>_.
     bindS (materialise_decky_disconnect env tid decky_name (l_name lan)) (\<lambda>_.
       assert_valid_after env tid)))))))))))"

definition apply_remove_decky :: "mutator_env \<Rightarrow> nat \<Rightarrow> mutation_payload \<Rightarrow> (unit, world) op" where
  "apply_remove_decky env tid payload =
     bindS (hydrated_of tid) (\<lambda>h.
     bindS (need (mp_decky payload)) (\<lambda>decky_name.
     bindS (found (decky_by_name h decky_name)) (\<lambda>d.
     bindS (on_repo (delete_topology_decky (d_uuid d) None False)) (\<lambda>_.
     bindS (materialise_decky_remove env tid decky_name (d_services d)) (\<lambda>_.
       assert_valid_after env tid)))))"

definition override :: "'a option \<Rightarrow> 'a option \<Rightarrow> 'a option" where
  "override old new = (case new of None \<Rightarrow> old | Some v \<Rightarrow> Some v)"

definition merge_config :: "decky_config \<Rightarrow> decky_config \<Rightarrow> decky_config" where
  "merge_config old patch = \<lparr>dc_name = override (dc_name old) (dc_name patch),
     dc_services = override (dc_services old) (dc_services patch),
     dc_ips_by_lan = override (dc_ips_by_lan old) (dc_ips_by_lan patch),
     dc_forwards_l3 = override (dc_forwards_l3 old) (dc_forwards_l3 patch),
     dc_service_config = override (dc_service_config old) (dc_service_config patch),
     dc_archetype = override (dc_archetype old) (dc_archetype patch)\<rparr>"

definition forwards :: "decky_config \<Rightarrow> bool" where
  "forwards cfg \<longleftrightarrow> dc_forwards_l3 cfg = Some True"

text \<open>The home LAN of a decky from its edges: the first non-bridge edge, else the first edge.\<close>

definition home_lan_of :: "hydrated \<Rightarrow> nat \<Rightarrow> lan_row option" where
  "home_lan_of h du =
     (case find (\<lambda>e. e_decky_uuid e = du \<and> \<not> e_is_bridge e) (h_edges h) of
        Some e \<Rightarrow> find (\<lambda>l. l_id l = e_lan_id e) (h_lans h)
      | None \<Rightarrow> (case find (\<lambda>e. e_decky_uuid e = du) (h_edges h) of
          Some e \<Rightarrow> find (\<lambda>l. l_id l = e_lan_id e) (h_lans h)
        | None \<Rightarrow> None))"

definition decky_patch :: "mutation_payload \<Rightarrow> decky_config \<Rightarrow> decky_fields" where
  "decky_patch payload new_cfg = no_decky_fields\<lparr>
     df_decky_config := (case mp_patch_config payload of
        None \<Rightarrow> None | Some c \<Rightarrow> if c = empty_config then None else Some (Some new_cfg)),
     df_services := mp_services payload, df_x := mp_x payload, df_y := mp_y payload\<rparr>"

definition patched_config :: "mutation_payload \<Rightarrow> decky_config \<Rightarrow> decky_config" where
  "patched_config payload old_cfg =
     (case mp_patch_config payload of None \<Rightarrow> old_cfg | Some c \<Rightarrow> merge_config old_cfg c)"

definition set_diff_sorted :: "string list \<Rightarrow> string list \<Rightarrow> string list" where
  "set_diff_sorted xs ys = sort (remdups (filter (\<lambda>x. x \<notin> set ys) xs))"

definition apply_update_decky :: "mutator_env \<Rightarrow> nat \<Rightarrow> mutation_payload \<Rightarrow> (unit, world) op" where
  "apply_update_decky env tid payload =
     bindS (hydrated_of tid) (\<lambda>h.
     bindS (need (mp_decky payload)) (\<lambda>decky_name.
     bindS (found (decky_by_name h decky_name)) (\<lambda>d.
       let old_services = d_services d;
           old_cfg = config_of d;
           new_cfg = patched_config payload old_cfg;
           new_services = with_default old_services (mp_services payload);
           patch = decky_patch payload new_cfg;
           flipped = (forwards new_cfg \<noteq> forwards old_cfg)
       in if patch = no_decky_fields then returnS ()
          else
     bindS (guardS (\<not> (flipped \<and> forwards new_cfg \<and>
              \<not> (case home_lan_of h (d_uuid d) of None \<Rightarrow> False | Some l \<Rightarrow> l_is_dmz l))) MutationError) (\<lambda>_.
     bindS (reads (\<lambda>r. Inr (live_topology_or_none tid r))) (\<lambda>live.
     bindS (guardS (\<not> (live \<noteq> None \<and> flipped \<and> \<not> mp_force payload)) MutationError) (\<lambda>_.
     bindS (on_repo (update_topology_decky (env_now env) (d_uuid d) patch None False)) (\<lambda>_.
       let added = set_diff_sorted new_services old_services;
           removed = set_diff_sorted old_services new_services in
     bindS (if added \<noteq> [] \<or> removed \<noteq> []
            then materialise_decky_services_diff env tid decky_name added removed else returnS ()) (\<lambda>_.
     bindS (if flipped then materialise_decky_recreate_base env tid decky_name else returnS ()) (\<lambda>_.
       assert_valid_after env tid)))))))))"

section \<open>Dispatch\<close>

definition DISPATCH :: "(string, mutator_env \<Rightarrow> nat \<Rightarrow> mutation_payload \<Rightarrow> (unit, world) op) dict" where
  "DISPATCH = [(''add_lan'', apply_add_lan), (''remove_lan'', apply_remove_lan), (''add_decky'', apply_add_decky),
     (''attach_decky'', apply_attach_decky), (''detach_decky'', apply_detach_decky),
     (''remove_decky'', apply_remove_decky), (''update_decky'', apply_update_decky), (''update_lan'', apply_update_lan)]"

definition dispatch :: "mutator_env \<Rightarrow> nat \<Rightarrow> string \<Rightarrow> mutation_payload \<Rightarrow> (unit, world) op" where
  "dispatch env tid opn payload =
     (case map_of DISPATCH opn of None \<Rightarrow> raiseS MutationError | Some fn \<Rightarrow> fn env tid payload)"

end
