(* ===== verification/Op_Hoare.thy ===== *)
theory Op_Hoare
  imports Decnet_Prelude
begin

text \<open>
  A small Hoare logic for operations that may raise.  \<open>valid P m Q E\<close>: started in a state with \<open>P\<close>,
  the operation ends in a state with \<open>Q x\<close> when it returns \<open>x\<close>, and with \<open>E\<close> when it raises.
  The operations are total, so this is total correctness.  The collection \<open>wp\<close> holds the rules
  that compute a precondition.
\<close>

named_theorems wp \<open>precondition rules\<close>

definition valid :: "('s \<Rightarrow> bool) \<Rightarrow> ('a, 's) op \<Rightarrow> ('a \<Rightarrow> 's \<Rightarrow> bool) \<Rightarrow> ('s \<Rightarrow> bool) \<Rightarrow> bool" where
  "valid P m Q E \<longleftrightarrow> (\<forall>s. P s \<longrightarrow> (case m s of (Inl _, s') \<Rightarrow> E s' | (Inr x, s') \<Rightarrow> Q x s'))"

lemma validI:
  assumes "\<And>s e s'. P s \<Longrightarrow> m s = (Inl e, s') \<Longrightarrow> E s'"
    and "\<And>s x s'. P s \<Longrightarrow> m s = (Inr x, s') \<Longrightarrow> Q x s'"
  shows "valid P m Q E"
  unfolding valid_def using assms by (auto split: prod.split sum.split)

lemma valid_Inr: "valid P m Q E \<Longrightarrow> P s \<Longrightarrow> m s = (Inr x, s') \<Longrightarrow> Q x s'"
  unfolding valid_def by fastforce

lemma valid_Inl: "valid P m Q E \<Longrightarrow> P s \<Longrightarrow> m s = (Inl e, s') \<Longrightarrow> E s'"
  unfolding valid_def by fastforce

lemma valid_weaken:
  assumes "valid P m Q E" and "\<And>s. P' s \<Longrightarrow> P s" and "\<And>x s. Q x s \<Longrightarrow> Q' x s" and "\<And>s. E s \<Longrightarrow> E' s"
  shows "valid P' m Q' E'"
proof (rule validI)
  fix s e s' assume "P' s" "m s = (Inl e, s')"
  then show "E' s'" using valid_Inl [OF assms(1)] assms(2,4) by blast
next
  fix s x s' assume "P' s" "m s = (Inr x, s')"
  then show "Q' x s'" using valid_Inr [OF assms(1)] assms(2,3) by blast
qed

lemma valid_pre: "valid P m Q E \<Longrightarrow> (\<And>s. P' s \<Longrightarrow> P s) \<Longrightarrow> valid P' m Q E"
  by (erule valid_weaken)

lemma valid_conj:
  assumes "valid P m Q E" "valid P' m Q' E'"
  shows "valid (\<lambda>s. P s \<and> P' s) m (\<lambda>x s. Q x s \<and> Q' x s) (\<lambda>s. E s \<and> E' s)"
  by (rule validI) (use valid_Inl [OF assms(1)] valid_Inl [OF assms(2)] valid_Inr [OF assms(1)] valid_Inr [OF assms(2)] in blast)+

lemma valid_bindS:
  assumes "valid P m Q E" and "\<And>x. valid (Q x) (f x) R E"
  shows "valid P (bindS m f) R E"
proof (rule validI)
  fix s e s' assume "P s" "bindS m f s = (Inl e, s')"
  then show "E s'" unfolding bindS_Inl using valid_Inl [OF assms(1)] valid_Inr [OF assms(1)] valid_Inl [OF assms(2)] by blast
next
  fix s x s' assume "P s" "bindS m f s = (Inr x, s')"
  then show "R x s'" unfolding bindS_Inr using valid_Inr [OF assms(1)] valid_Inr [OF assms(2)] by blast
qed

text \<open>The precondition of the continuation first, so that rules can be chained backwards.\<close>

lemma valid_seq [wp]:
  assumes "\<And>x. valid (Q x) (f x) R E" and "valid P m Q E"
  shows "valid P (bindS m f) R E"
  using assms(2,1) by (rule valid_bindS)

lemma valid_returnS [wp]: "valid (Q x) (returnS x) Q E"
  by (auto intro!: validI)

lemma valid_raiseS [wp]: "valid E (raiseS e) Q E"
  by (auto intro!: validI)

lemma valid_liftE [wp]: "valid (\<lambda>s. (\<forall>e. m = Inl e \<longrightarrow> E s) \<and> (\<forall>x. m = Inr x \<longrightarrow> Q x s)) (liftE m) Q E"
  by (auto intro!: validI)

lemma valid_guardS [wp]: "valid (\<lambda>s. (b \<longrightarrow> Q () s) \<and> (\<not> b \<longrightarrow> E s)) (guardS b e) Q E"
  by (cases b) (auto intro!: validI)

lemma valid_if [wp]:
  "valid P m Q E \<Longrightarrow> valid P' m' Q E \<Longrightarrow>
   valid (\<lambda>s. (b \<longrightarrow> P s) \<and> (\<not> b \<longrightarrow> P' s)) (if b then m else m') Q E"
  by (cases b) (auto elim: valid_pre)

lemma valid_case_option [wp]:
  assumes "valid P m Q E" and "\<And>x. valid (P' x) (f x) Q E"
  shows "valid (\<lambda>s. (opt = None \<longrightarrow> P s) \<and> (\<forall>x. opt = Some x \<longrightarrow> P' x s)) (case opt of None \<Rightarrow> m | Some x \<Rightarrow> f x) Q E"
  using assms by (cases opt) (auto elim: valid_pre)

lemma valid_forS:
  assumes "\<And>x. x \<in> set xs \<Longrightarrow> valid I (f x) (\<lambda>_. I) E"
  shows "valid I (forS f xs) (\<lambda>_. I) E"
  using assms by (induction xs) (auto intro!: valid_returnS valid_seq)

text \<open>An invariant: kept whether the operation returns or raises.\<close>

lemma valid_inv: "valid I m (\<lambda>_. I) I \<longleftrightarrow> (\<forall>s. I s \<longrightarrow> I (snd (m s)))"
proof
  assume v: "valid I m (\<lambda>_. I) I"
  show "\<forall>s. I s \<longrightarrow> I (snd (m s))"
  proof (intro allI impI)
    fix s assume "I s"
    obtain res s' where ms: "m s = (res, s')" by fastforce
    with \<open>I s\<close> v show "I (snd (m s))" by (cases res) (auto dest: valid_Inl valid_Inr)
  qed
next
  assume *: "\<forall>s. I s \<longrightarrow> I (snd (m s))"
  show "valid I m (\<lambda>_. I) I"
    by (rule validI; use * in \<open>metis snd_conv\<close>)
qed

section \<open>Which exceptions\<close>

text \<open>\<open>raises_only E m\<close>: whatever the state, \<open>m\<close> raises only exceptions in \<open>E\<close>.\<close>

definition raises_only :: "exn set \<Rightarrow> ('a, 's) op \<Rightarrow> bool" where
  "raises_only E m \<longleftrightarrow> (\<forall>s e s'. m s = (Inl e, s') \<longrightarrow> e \<in> E)"

named_theorems raises \<open>rules for the exceptions of an operation\<close>

lemma raises_onlyD: "raises_only E m \<Longrightarrow> m s = (Inl e, s') \<Longrightarrow> e \<in> E"
  unfolding raises_only_def by blast

lemma raises_simple [raises]:
  "raises_only E (returnS x)"
  "raises_only E (raiseS e) \<longleftrightarrow> e \<in> E"
  "raises_only E (liftE m) \<longleftrightarrow> (\<forall>e. m = Inl e \<longrightarrow> e \<in> E)"
  by (auto simp: raises_only_def)

lemma raises_bindS [intro]: "raises_only E m \<Longrightarrow> (\<And>x. raises_only E (f x)) \<Longrightarrow> raises_only E (bindS m f)"
  unfolding raises_only_def bindS_Inl by blast

lemma raises_forS [intro]: "(\<And>x. raises_only E (f x)) \<Longrightarrow> raises_only E (forS f xs)"
  by (induction xs) (auto simp: raises)

text \<open>The same for results.\<close>

definition raisesE :: "exn set \<Rightarrow> 'a result \<Rightarrow> bool" where
  "raisesE E m \<longleftrightarrow> (\<forall>e. m = Inl e \<longrightarrow> e \<in> E)"

lemma raisesE_simple [raises, simp]: "raisesE E (Inr x)" "raisesE E (Inl e) \<longleftrightarrow> e \<in> E"
  by (auto simp: raisesE_def)

lemma raisesE_bindE: "raisesE E m \<Longrightarrow> (\<And>x. raisesE E (f x)) \<Longrightarrow> raisesE E (bindE m f)"
  by (cases m) simp_all

lemma raisesE_foldE: "(\<And>x acc. raisesE E (f x acc)) \<Longrightarrow> raisesE E (foldE f xs acc)"
  by (induction xs arbitrary: acc) (simp_all add: raisesE_bindE)

lemmas raisesE_intros = raisesE_bindE raisesE_foldE

end
