(* ===== verification/Mutator_Inv.thy ===== *)
theory Mutator_Inv
  imports Mutator_Ops Op_Hoare Topology_Validate_Sound
begin

text \<open>
  What a live mutation guarantees, whatever Docker answers.  Every operation keeps the tables well
  formed, even when it raises half-way; and an operation that returns after writing leaves a
  topology on which the post-apply rules find nothing.
\<close>

section \<open>Rules for the world\<close>

lemma snd_on_repo [simp]: "w_repo (snd (on_repo m w)) = snd (m (w_repo w))"
  by (simp add: on_repo_def split: prod.split)

lemma valid_on_repo [wp]:
  assumes "valid P m Q E"
  shows "valid (\<lambda>w. P (w_repo w)) (on_repo m) (\<lambda>x w. Q x (w_repo w)) (\<lambda>w. E (w_repo w))"
proof (rule validI)
  fix w e w' assume "P (w_repo w)" "on_repo m w = (Inl e, w')"
  then show "E (w_repo w')" using valid_Inl [OF assms] by (auto simp: on_repo_def split: prod.splits)
next
  fix w x w' assume "P (w_repo w)" "on_repo m w = (Inr x, w')"
  then show "Q x (w_repo w')" using valid_Inr [OF assms] by (auto simp: on_repo_def split: prod.splits)
qed

lemma valid_keeps:
  assumes "keeps_repo m" and "\<And>x r. P r \<Longrightarrow> Q x r" and "\<And>r. P r \<Longrightarrow> E r"
  shows "valid (\<lambda>w. P (w_repo w)) m (\<lambda>x w. Q x (w_repo w)) (\<lambda>w. E (w_repo w))"
  by (rule validI) (use keeps_repoD [OF assms(1)] assms(2,3) in metis)+

lemma valid_reads [wp]:
  "valid (\<lambda>w. (\<forall>e. f (w_repo w) = Inl e \<longrightarrow> E w) \<and> (\<forall>x. f (w_repo w) = Inr x \<longrightarrow> Q x w)) (reads f) Q E"
  by (rule validI) (auto simp: reads_def)

lemma valid_need [wp]: "valid (\<lambda>s. (x = None \<longrightarrow> E s) \<and> (\<forall>v. x = Some v \<longrightarrow> Q v s)) (need x) Q E"
  by (cases x) (auto simp: need_def intro!: validI)

lemma valid_found [wp]: "valid (\<lambda>s. (x = None \<longrightarrow> E s) \<and> (\<forall>v. x = Some v \<longrightarrow> Q v s)) (found x) Q E"
  by (cases x) (auto simp: found_def intro!: validI)

lemma valid_logged: "valid P m (\<lambda>_. Q) Q \<Longrightarrow> valid P (logged m) (\<lambda>_. Q) E"
  unfolding valid_def logged_def by (auto split: prod.splits sum.splits)

lemma valid_hydrated_of [wp]:
  "valid (\<lambda>w. (\<forall>h. hydrate tid (w_repo w) = Inr (Some h) \<longrightarrow> Q h w) \<and> E w) (hydrated_of tid) Q E"
  unfolding hydrated_of_def
  by (rule validI) (auto simp: bindS_Inl reads_def split: option.splits)

abbreviation has_lan :: "nat \<Rightarrow> nat \<Rightarrow> repo \<Rightarrow> bool" where
  "has_lan tid lid r \<equiv> \<exists>l \<in> set (r_lans r). l_id l = lid \<and> l_topology_id l = tid"

abbreviation has_decky :: "nat \<Rightarrow> nat \<Rightarrow> repo \<Rightarrow> bool" where
  "has_decky tid du r \<equiv> \<exists>d \<in> set (r_deckies r). d_uuid d = du \<and> d_topology_id d = tid"

lemma keeps_checks [keeps, simp]:
  "keeps_repo (need x)" "keeps_repo (found x)" "keeps_repo (guardS b e)" "keeps_repo (hydrated_of tid)"
  "keeps_repo (assert_valid_after env tid)" "keeps_repo (choose_address pin h lan)"
proof -
  show h: "keeps_repo (hydrated_of tid)" for tid
    unfolding hydrated_of_def by (intro keeps_bindS) (auto split: option.split)
  show g: "keeps_repo (guardS b e)" for b e by (cases b) (simp_all add: keeps_repo_def)
  show "keeps_repo (assert_valid_after env tid)"
    unfolding assert_valid_after_def by (intro keeps_bindS h g)
qed (auto simp: need_def found_def choose_address_def split: option.split)

text \<open>The rows behind a hydrated topology.\<close>

lemma hydrate_rows:
  assumes "hydrate tid r = Inr (Some h)"
  shows "h_lans h = list_lans_for_topology tid r" "h_edges h = list_topology_edges tid r"
    "\<exists>topo. find_topology tid r = Some topo \<and> h_topology h = topo"
    "backfill_decky_configs (list_lans_for_topology tid r) (list_topology_deckies tid r) (list_topology_edges tid r)
       = Inr (h_deckies h)"
  using assms by (auto simp: hydrate_def Let_def split: option.splits)

lemma find_SomeD: "find P xs = Some x \<Longrightarrow> x \<in> set xs \<and> P x"
  by (auto simp: find_Some_iff)

lemma hydrate_lan:
  assumes "hydrate tid r = Inr (Some h)" "lan_by_name h name = Some lan"
  shows "lan \<in> set (r_lans r)" "l_topology_id lan = tid" "l_name lan = name"
  using find_SomeD [OF assms(2) [unfolded lan_by_name_def]] hydrate_rows(1) [OF assms(1)]
  by (auto simp: list_lans_for_topology_def)

lemma backfill_rows:
  assumes "backfill_decky_configs lans ds es = Inr ds'"
  shows "\<exists>c. ds' = map (\<lambda>d. d\<lparr>d_decky_config := c d\<rparr>) ds"
  using assms by (auto simp: backfill_decky_configs_def Let_def)

lemma hydrate_decky:
  assumes "hydrate tid r = Inr (Some h)" "d \<in> set (h_deckies h)"
  shows "has_decky tid (d_uuid d) r"
proof -
  from backfill_rows [OF hydrate_rows(4) [OF assms(1)]] assms(2) obtain d0 c where
    "d0 \<in> set (list_topology_deckies tid r)" "d = d0\<lparr>d_decky_config := c\<rparr>" by auto
  then show ?thesis by (auto simp: list_topology_deckies_def)
qed

lemma decky_by_name_in: "decky_by_name h name = Some d \<Longrightarrow> d \<in> set (h_deckies h)"
  by (auto simp: decky_by_name_def find_Some_iff)

text \<open>Steps that only read, in front of a continuation that is verified under the assumption
  they establish.\<close>

lemma seq_hydrated:
  assumes "\<And>h. valid (\<lambda>w. P (w_repo w) \<and> hydrate tid (w_repo w) = Inr (Some h)) (f h) Q (\<lambda>w. E (w_repo w))"
    and "\<And>r. P r \<Longrightarrow> E r"
  shows "valid (\<lambda>w. P (w_repo w)) (bindS (hydrated_of tid) f) Q (\<lambda>w. E (w_repo w))"
  by (rule valid_seq, rule assms(1), rule valid_pre [OF valid_hydrated_of]) (use assms(2) in auto)

lemma seq_found:
  assumes "\<And>v. x = Some v \<Longrightarrow> valid P (f v) Q E" and "\<And>w. P w \<Longrightarrow> E w"
  shows "valid P (bindS (found x) f) Q E"
proof (cases x)
  case None
  then have "bindS (found x) f = raiseS MutationError" by (simp add: found_def bindS_def fun_eq_iff)
  with assms(2) show ?thesis by (auto intro!: validI)
next
  case (Some v)
  then have "bindS (found x) f = f v" by (simp add: found_def bindS_def fun_eq_iff)
  with Some assms(1) show ?thesis by simp
qed

lemma seq_keeps:
  assumes "keeps_repo m" and "\<And>x. valid (\<lambda>w. P (w_repo w)) (f x) Q (\<lambda>w. E (w_repo w))" and "\<And>r. P r \<Longrightarrow> E r"
  shows "valid (\<lambda>w. P (w_repo w)) (bindS m f) Q (\<lambda>w. E (w_repo w))"
  by (rule valid_bindS [OF valid_keeps [OF assms(1)] assms(2)]) (use assms(3) in auto)

lemma check_None [simp]: "check_and_bump_version tid None r = Inr r"
  by (simp add: check_and_bump_version_def)

section \<open>Invariants of the mutator's writes\<close>

text \<open>The repository calls a live mutation makes, all of them unversioned; an edge is added only
  between a decky and a LAN of the topology.  A property of the tables that these calls keep is
  kept by every operation, also when it raises half-way.\<close>

locale edit_invariant =
  fixes tid :: nat and I :: "repo \<Rightarrow> bool"
  assumes inv_add_lan: "I r \<Longrightarrow> I (snd (add_lan tid name subnet dmz x y None r))"
    and inv_update_lan: "I r \<Longrightarrow> I (snd (update_lan lid lf None p r))"
    and inv_delete_lan: "I r \<Longrightarrow> I (snd (delete_lan lid None p r))"
    and inv_add_decky: "I r \<Longrightarrow> I (snd (add_topology_decky now tid name svcs cfg ip x y None r))"
    and inv_update_decky: "I r \<Longrightarrow> I (snd (update_topology_decky now du df None p r))"
    and inv_delete_decky: "I r \<Longrightarrow> I (snd (delete_topology_decky du None p r))"
    and inv_add_edge: "I r \<Longrightarrow> has_decky tid du r \<Longrightarrow> has_lan tid lid r \<Longrightarrow>
      I (snd (add_topology_edge tid du lid br fwd None r))"
    and inv_delete_edge: "I r \<Longrightarrow> I (snd (delete_topology_edge eid None p r))"
begin

abbreviation kept :: "('a, world) op \<Rightarrow> bool" where
  "kept m \<equiv> valid (\<lambda>w. I (w_repo w)) m (\<lambda>_ w. I (w_repo w)) (\<lambda>w. I (w_repo w))"

lemma kept_bindS: "kept m \<Longrightarrow> (\<And>x. kept (f x)) \<Longrightarrow> kept (bindS m f)"
  by (rule valid_bindS)

lemma kept_keeps: "keeps_repo m \<Longrightarrow> kept m"
  by (rule valid_keeps)

lemma kept_on_repo: "(\<And>r. I r \<Longrightarrow> I (snd (m r))) \<Longrightarrow> kept (on_repo m)"
  by (rule valid_on_repo) (simp add: valid_inv)

lemma kept_if: "kept m \<Longrightarrow> kept m' \<Longrightarrow> kept (if b then m else m')"
  by simp

lemma kept_option: "kept m \<Longrightarrow> (\<And>x. kept (f x)) \<Longrightarrow> kept (case opt of None \<Rightarrow> m | Some x \<Rightarrow> f x)"
  by (cases opt) simp_all

lemma kept_logged: "kept m \<Longrightarrow> kept (logged m)"
  by (rule valid_logged)

lemma kept_forS: "(\<And>x. x \<in> set xs \<Longrightarrow> kept (f x)) \<Longrightarrow> kept (forS f xs)"
  by (rule valid_forS)

lemmas kept_rules = kept_bindS kept_if kept_option kept_logged kept_forS

lemma kept_simple [simp]:
  "kept (need x)" "kept (found x)" "kept (guardS b e)" "kept (hydrated_of tid')"
  "kept (assert_valid_after env tid')" "kept (choose_address pin h lan)" "kept (returnS y)"
  "kept (raiseS e)" "kept (reads g)"
  "kept (materialise_lan_change env tid' c gone)" "kept (materialise_decky_remove env tid' name svcs)"
  "kept (materialise_decky_spawn env tid' name svcs)"
  "kept (materialise_decky_connect env tid' name lan' ip)" "kept (materialise_decky_disconnect env tid' name lan')"
  "kept (materialise_decky_services_diff env tid' name added removed)"
  "kept (materialise_decky_recreate_base env tid' name)"
  by (rule kept_keeps, simp)+

lemma kept_repo [simp]:
  "kept (on_repo (add_lan tid name subnet dmz x y None))" "kept (on_repo (update_lan lid lf None p))"
  "kept (on_repo (delete_lan lid None p))" "kept (on_repo (update_topology_decky now du df None p))"
  "kept (on_repo (delete_topology_decky du None p))" "kept (on_repo (delete_topology_edge eid None p))"
  by (rule kept_on_repo, erule inv_add_lan inv_update_lan inv_delete_lan inv_update_decky inv_delete_decky inv_delete_edge)+

lemma kept_remove_lan: "kept (apply_remove_lan env tid payload)"
  unfolding apply_remove_lan_def detach_member_def by (intro kept_rules) simp_all

lemma kept_others:
  "kept (apply_add_lan env tid payload)" "kept (apply_update_lan env tid payload)"
  "kept (apply_detach_decky env tid payload)" "kept (apply_remove_decky env tid payload)"
  "kept (apply_update_decky env tid payload)"
  unfolding apply_add_lan_def apply_update_lan_def apply_detach_decky_def apply_remove_decky_def
    apply_update_decky_def Let_def
  by (intro kept_rules; simp)+

lemma add_decky_edge_kept:
  assumes "\<And>x. kept (rest x)"
  shows "valid (\<lambda>w. I (w_repo w) \<and> has_lan tid lid (w_repo w))
    (bindS (on_repo (add_topology_decky now tid name svcs cfg ip x y None)) (\<lambda>du.
       bindS (on_repo (add_topology_edge tid du lid br fwd None)) (\<lambda>_. rest du)))
    (\<lambda>_ w. I (w_repo w)) (\<lambda>w. I (w_repo w))"
proof (rule valid_bindS)
  show "valid (\<lambda>w. I (w_repo w) \<and> has_lan tid lid (w_repo w))
      (on_repo (add_topology_decky now tid name svcs cfg ip x y None))
      (\<lambda>du w. I (w_repo w) \<and> has_decky tid du (w_repo w) \<and> has_lan tid lid (w_repo w))
      (\<lambda>w. I (w_repo w))"
  proof (rule valid_on_repo, rule validI)
    fix r e r' assume "I r \<and> has_lan tid lid r" "add_topology_decky now tid name svcs cfg ip x y None r = (Inl e, r')"
    then show "I r'" using inv_add_decky by (metis snd_conv)
  next
    fix r du r' assume *: "I r \<and> has_lan tid lid r" "add_topology_decky now tid name svcs cfg ip x y None r = (Inr du, r')"
    then have "I r'" using inv_add_decky by (metis snd_conv)
    moreover from *(2) have "has_decky tid du r'" "r_lans r' = r_lans r" by (auto elim!: add_topology_decky_InrE)
    ultimately show "I r' \<and> has_decky tid du r' \<and> has_lan tid lid r'" using * by simp
  qed
  fix du
  show "valid (\<lambda>w. I (w_repo w) \<and> has_decky tid du (w_repo w) \<and> has_lan tid lid (w_repo w))
      (bindS (on_repo (add_topology_edge tid du lid br fwd None)) (\<lambda>_. rest du))
      (\<lambda>_ w. I (w_repo w)) (\<lambda>w. I (w_repo w))"
    by (rule valid_bindS [OF valid_on_repo assms], rule validI; use inv_add_edge in \<open>metis snd_conv\<close>)
qed

abbreviation seen :: "hydrated \<Rightarrow> repo \<Rightarrow> bool" where
  "seen h r \<equiv> I r \<and> hydrate tid r = Inr (Some h)"

lemmas seq_seen = seq_keeps [where P = "seen h" and E = I for h]
lemmas seq_see = seq_hydrated [where P = I and E = I]

lemma kept_add_decky: "kept (apply_add_decky env tid payload)"
  unfolding apply_add_decky_def Let_def
  apply (rule kept_bindS, simp, rule seq_see)
   apply (rule seq_seen, simp, rule seq_seen, simp, rule seq_found)
      apply (rule seq_seen, simp, rule valid_pre [OF add_decky_edge_kept])
        apply (intro kept_rules kept_simple kept_repo)
  by (auto dest: hydrate_lan)

lemma set_config_edge_kept:
  assumes "kept rest"
  shows "valid (\<lambda>w. I (w_repo w) \<and> has_decky tid du (w_repo w) \<and> has_lan tid lid (w_repo w))
    (bindS (on_repo (update_topology_decky now du df None p)) (\<lambda>_.
       bindS (on_repo (add_topology_edge tid du lid br fwd None)) (\<lambda>_. rest)))
    (\<lambda>_ w. I (w_repo w)) (\<lambda>w. I (w_repo w))"
proof (rule valid_bindS)
  let ?P = "\<lambda>r. I r \<and> has_decky tid du r \<and> has_lan tid lid r"
  show "valid (\<lambda>w. ?P (w_repo w)) (on_repo (update_topology_decky now du df None p)) (\<lambda>_ w. ?P (w_repo w))
      (\<lambda>w. I (w_repo w))"
  proof (rule valid_on_repo, rule validI)
    fix r e r' assume "?P r" "update_topology_decky now du df None p r = (Inl e, r')"
    then show "I r'" using inv_update_decky by (metis snd_conv)
  next
    fix r u r' assume *: "?P r" "update_topology_decky now du df None p r = (Inr u, r')"
    then have "I r'" using inv_update_decky by (metis snd_conv)
    moreover have "has_decky tid du r' \<and> r_lans r' = r_lans r"
      using *(2)
    proof (cases rule: update_topology_decky_InrE)
      case (2 d r1)
      from *(1) obtain x where x: "x \<in> set (r_deckies r)" "d_uuid x = du" "d_topology_id x = tid" by blast
      then have "set_decky_fields now df x \<in> set (r_deckies r')" using 2 by (force simp: image_iff)
      moreover have "d_uuid (set_decky_fields now df x) = du" "d_topology_id (set_decky_fields now df x) = tid"
        using x by (simp_all add: set_decky_fields_def)
      ultimately have "has_decky tid du r'" by blast
      with 2 show ?thesis by simp
    qed (use *(1) in simp)
    ultimately show "?P r'" using *(1) by simp
  qed
  show "valid (\<lambda>w. ?P (w_repo w)) (bindS (on_repo (add_topology_edge tid du lid br fwd None)) (\<lambda>_. rest))
      (\<lambda>_ w. I (w_repo w)) (\<lambda>w. I (w_repo w))"
    by (rule valid_bindS [OF valid_on_repo assms], rule validI; use inv_add_edge in \<open>metis snd_conv\<close>)
qed

lemma kept_attach_decky: "kept (apply_attach_decky env tid payload)"
  unfolding apply_attach_decky_def Let_def
  apply (rule seq_see)
   apply (rule seq_seen, simp, rule seq_seen, simp, rule seq_found, rule seq_found)
       apply (rule seq_seen, simp, rule seq_seen, simp, rule valid_pre [OF set_config_edge_kept])
         apply (intro kept_rules kept_simple kept_repo)
  by (auto dest: hydrate_lan hydrate_decky [OF _ decky_by_name_in])

lemma dispatch_kept: "kept (dispatch env tid opn payload)"
  unfolding dispatch_def DISPATCH_def
  by (simp add: kept_others kept_remove_lan kept_add_decky kept_attach_decky)

end

section \<open>Well-formed tables\<close>

definition mut_ok :: "nat \<Rightarrow> repo \<Rightarrow> bool" where
  "mut_ok tid r \<longleftrightarrow> repo_wf r \<and> topology_exists tid r"

text \<open>No unversioned edit of the mutator changes the topology table.\<close>

lemma unversioned_frame:
  "r_topologies (snd (add_lan tid name subnet dmz x y None r)) = r_topologies r"
  "r_topologies (snd (update_lan lid lf None p r)) = r_topologies r"
  "r_topologies (snd (delete_lan lid None p r)) = r_topologies r"
  "r_topologies (snd (add_topology_decky now tid name svcs cfg ip x y None r)) = r_topologies r"
  "r_topologies (snd (update_topology_decky now du df None p r)) = r_topologies r"
  "r_topologies (snd (delete_topology_decky du None p r)) = r_topologies r"
  "r_topologies (snd (add_topology_edge tid du lid br fwd None r)) = r_topologies r"
  "r_topologies (snd (delete_topology_edge eid None p r)) = r_topologies r"
  by (auto simp: add_lan_def update_lan_def delete_lan_def add_topology_decky_def update_topology_decky_def
      delete_topology_decky_def add_topology_edge_def delete_topology_edge_def session_def bindE_def Let_def
      split: option.split sum.split prod.split)

lemma mut_ok_edits:
  "mut_ok tid r \<Longrightarrow> mut_ok tid (snd (add_lan tid name subnet dmz x y None r))"
  "mut_ok tid r \<Longrightarrow> mut_ok tid (snd (update_lan lid lf None p r))"
  "mut_ok tid r \<Longrightarrow> mut_ok tid (snd (delete_lan lid None p r))"
  "mut_ok tid r \<Longrightarrow> mut_ok tid (snd (add_topology_decky now tid name svcs cfg ip x y None r))"
  "mut_ok tid r \<Longrightarrow> mut_ok tid (snd (update_topology_decky now du df None p r))"
  "mut_ok tid r \<Longrightarrow> mut_ok tid (snd (delete_topology_decky du None p r))"
  "mut_ok tid r \<Longrightarrow> has_decky tid du r \<Longrightarrow> has_lan tid lid r \<Longrightarrow>
     mut_ok tid (snd (add_topology_edge tid du lid br fwd None r))"
  "mut_ok tid r \<Longrightarrow> mut_ok tid (snd (delete_topology_edge eid None p r))"
  by (auto simp: mut_ok_def topology_exists_def unversioned_frame)

interpretation mut: edit_invariant tid "mut_ok tid" for tid
  by unfold_locales (erule mut_ok_edits; assumption?)+

section \<open>What an applied mutation leaves behind\<close>

definition post_apply_valid :: "string list \<Rightarrow> hydrated \<Rightarrow> bool" where
  "post_apply_valid known h \<longleftrightarrow>
     distinct (map l_name (h_lans h)) \<and> distinct (map d_name (h_deckies h)) \<and>
     (\<forall>p \<in> set (declared_ips h). ip_good (dict_of l_name (\<lambda>l. l) (h_lans h)) p) \<and> distinct (declared_ips h) \<and>
     (\<forall>l \<in> set (h_lans h). \<exists>n. parse_net True (l_subnet l) = Inr n) \<and>
     sorted_wrt (\<lambda>a b. \<not> overlaps a b) (lan_nets (h_lans h)) \<and>
     (\<forall>d \<in> set (h_deckies h). set (d_services d) \<subseteq> set known) \<and>
     (\<forall>d \<in> set (h_deckies h). fst ` set (with_default [] (dc_service_config (config_of d))) \<subseteq> set (d_services d))"

lemma check_ip_errors:
  "\<forall>i \<in> set (snd st). vi_severity i = ''error'' \<Longrightarrow> \<forall>i \<in> set (snd (check_ip by_name d p st)). vi_severity i = ''error''"
  by (cases st; cases p) (auto simp: check_ip_def Let_def split: option.splits sum.splits)

lemma check_ips_errors:
  "\<forall>i \<in> set (snd st). vi_severity i = ''error'' \<Longrightarrow>
   \<forall>i \<in> set (snd (fold (\<lambda>(n, p). check_ip by_name n p) xs st)). vi_severity i = ''error''"
proof (induction xs arbitrary: st)
  case (Cons x xs)
  obtain n p where x: "x = (n, p)" by (cases x)
  from Cons.IH [OF check_ip_errors [OF Cons.prems]] show ?case by (simp add: x)
qed simp

lemma overlap_issues_errors: "i \<in> set (overlap_issues nets) \<Longrightarrow> vi_severity i = ''error''"
  by (induction nets rule: overlap_issues.induct) auto

lemma post_apply_errors: "errors (post_apply_issues known h) = post_apply_issues known h"
proof -
  have "vi_severity i = ''error''" if "i \<in> set (check_no_ip_collisions h)" for i
    using that check_ips_errors [of "([], [])"]
    unfolding check_no_ip_collisions_def Let_def
      fold_nested [of "check_ip (dict_of l_name (\<lambda>l. l) (h_lans h))" d_name "\<lambda>d. ips_of (config_of d)" "h_deckies h"]
    by simp
  moreover have "vi_severity i = ''error''" if "i \<in> set (check_no_subnet_overlap h)" for i
    using that overlap_issues_errors by (auto simp: check_no_subnet_overlap_def)
  ultimately show ?thesis
    unfolding errors_def post_apply_issues_def filter_id_conv
    by (auto simp: check_names_unique_def check_services_known_def check_service_config_shape_def)
qed

lemma post_apply_sound: "errors (post_apply_issues known h) = [] \<longleftrightarrow> post_apply_valid known h"
  unfolding post_apply_errors
  by (auto simp: post_apply_issues_def post_apply_valid_def names_check ips_check subnets_check services_check
      service_config_check)

definition post_ok :: "mutator_env \<Rightarrow> nat \<Rightarrow> repo \<Rightarrow> bool" where
  "post_ok env tid r \<longleftrightarrow> (\<exists>h. hydrate tid r = Inr (Some h) \<and> post_apply_valid (env_known env) h)"

abbreviation ends_ok :: "mutator_env \<Rightarrow> nat \<Rightarrow> (unit, world) op \<Rightarrow> bool" where
  "ends_ok env tid m \<equiv> valid (\<lambda>_. True) m (\<lambda>_ w. post_ok env tid (w_repo w)) (\<lambda>_. True)"

abbreviation applies :: "mutator_env \<Rightarrow> nat \<Rightarrow> repo \<Rightarrow> (unit, world) op \<Rightarrow> bool" where
  "applies env tid r0 m \<equiv> valid (\<lambda>w. w_repo w = r0) m (\<lambda>_ w. w_repo w = r0 \<or> post_ok env tid (w_repo w)) (\<lambda>_. True)"

lemma ends_bindS: "(\<And>x. ends_ok env tid (f x)) \<Longrightarrow> ends_ok env tid (bindS m f)"
  by (rule valid_bindS [where Q = "\<lambda>_ _. True"]) (auto intro!: validI)

lemma ends_assert: "ends_ok env tid (assert_valid_after env tid)"
  unfolding assert_valid_after_def
  by (rule validI) (auto simp: hydrated_of_def reads_def guardS_def post_ok_def post_apply_sound split: option.splits if_splits)

lemma applies_ends: "ends_ok env tid m \<Longrightarrow> applies env tid r0 m"
  by (erule valid_weaken) simp_all

lemma applies_keeps: "keeps_repo m \<Longrightarrow> (\<And>x. applies env tid r0 (f x)) \<Longrightarrow> applies env tid r0 (bindS m f)"
  by (rule seq_keeps [where P = "\<lambda>r. r = r0" and E = "\<lambda>_. True"]) simp_all

lemma applies_return: "applies env tid r0 (returnS ())"
  by (auto intro!: validI)

lemma applies_raise: "applies env tid r0 (raiseS e)"
  by (auto intro!: validI)

lemma applies_if: "applies env tid r0 m \<Longrightarrow> applies env tid r0 m' \<Longrightarrow> applies env tid r0 (if b then m else m')"
  by simp

lemma ends_ops:
  "ends_ok env tid (apply_add_lan env tid payload)" "ends_ok env tid (apply_remove_lan env tid payload)"
  "ends_ok env tid (apply_add_decky env tid payload)" "ends_ok env tid (apply_attach_decky env tid payload)"
  "ends_ok env tid (apply_detach_decky env tid payload)" "ends_ok env tid (apply_remove_decky env tid payload)"
  unfolding apply_add_lan_def apply_remove_lan_def apply_add_decky_def apply_attach_decky_def
    apply_detach_decky_def apply_remove_decky_def Let_def
  by (intro ends_bindS ends_assert)+

lemma applies_update_lan: "applies env tid r0 (apply_update_lan env tid payload)"
  unfolding apply_update_lan_def
  by (rule applies_keeps, simp, rule applies_keeps, simp, rule applies_keeps, simp,
      rule applies_if, rule applies_return, rule applies_ends, intro ends_bindS ends_assert)

lemma applies_update_decky: "applies env tid r0 (apply_update_decky env tid payload)"
  unfolding apply_update_decky_def Let_def
  by (rule applies_keeps, simp, rule applies_keeps, simp, rule applies_keeps, simp,
      rule applies_if, rule applies_return, rule applies_ends, intro ends_bindS ends_assert)

lemma dispatch_applies: "applies env tid r0 (dispatch env tid opn payload)"
  unfolding dispatch_def DISPATCH_def
  by (simp add: applies_ends ends_ops applies_update_lan applies_update_decky applies_raise)

section \<open>Removing and renaming a LAN\<close>

text \<open>The backfill only adds addresses: what a row declares is still declared after hydration.\<close>

lemma fill_gap_keys:
  assumes "fill_gap by_id primary lid (ips, allocs) = Inr (ips', allocs')"
  shows "fst ` set ips \<subseteq> fst ` set ips'"
proof -
  have "ips' = ips \<or> (\<exists>k v. ips' = AList.update k v ips)"
  proof (cases "map_of by_id lid")
    case (Some lan)
    show ?thesis
    proof (cases "l_name lan \<in> fst ` set ips")
      case False
      from assms obtain a al where "alloc_for lan allocs = Inr (a, al)"
        and rest: "(case a of None \<Rightarrow> Inr (ips, al)
          | Some a \<Rightarrow> if primary_fits primary lan a = Inr True then
                 (case primary of None \<Rightarrow> Inr (ips, al)
                  | Some ip \<Rightarrow> Inr (AList.update (l_name lan) ip ips, AList.update lid (snd (IPAllocator_reserve ip a)) al))
               else (case IPAllocator_next_free a of (Inl e, _) \<Rightarrow> Inl e
                  | (Inr ip, a') \<Rightarrow> Inr (AList.update (l_name lan) ip ips, AList.update lid a' al))) = Inr (ips', allocs')"
        unfolding fill_gap_def using Some False by (simp, blast)
      show ?thesis
      proof (cases a)
        case (Some a')
        obtain res a'' where n: "IPAllocator_next_free a' = (res, a'')" by fastforce
        from rest Some n show ?thesis by (cases primary; cases res) (auto split: if_splits)
      qed (use rest in simp)
    qed (use assms Some in \<open>simp add: fill_gap_def\<close>)
  qed (use assms in \<open>simp add: fill_gap_def\<close>)
  then show ?thesis by (auto simp only: dom_update)
qed

lemma backfill_decky_keys:
  assumes "backfill_decky by_id edges d (out, allocs) = Inr (out', allocs')"
  shows "\<exists>cfg. out' = AList.update (d_uuid d) cfg out \<and> fst ` set (ips_of (config_of d)) \<subseteq> fst ` set (ips_of cfg)"
proof -
  let ?c = "if dc_name (config_of d) = None then (config_of d)\<lparr>dc_name := Some (d_name d)\<rparr> else config_of d"
  from assms obtain ips where
    f: "foldE (fill_gap by_id (d_ip d)) (decky_edges edges (d_uuid d)) (ips_of ?c, allocs) = Inr (ips, allocs')"
    and out: "out' = AList.update (d_uuid d) (?c\<lparr>dc_ips_by_lan := Some ips\<rparr>) out"
    by (auto simp: backfill_decky_def Let_def simp del: foldE.simps)
  have ic: "ips_of ?c = ips_of (config_of d)" by simp
  have "fst ` set (ips_of (config_of d)) \<subseteq> fst ` set (fst (ips, allocs'))"
  proof (rule foldE_invariant [OF f [unfolded ic], where P = "\<lambda>_ st. fst ` set (ips_of (config_of d)) \<subseteq> fst ` set (fst st)"])
    fix ys x zs t t'
    assume "fst ` set (ips_of (config_of d)) \<subseteq> fst ` set (fst t)" and "fill_gap by_id (d_ip d) x t = Inr t'"
    moreover obtain a b a' b' where "t = (a, b)" "t' = (a', b')" by (cases t; cases t')
    ultimately show "fst ` set (ips_of (config_of d)) \<subseteq> fst ` set (fst t')"
      using fill_gap_keys [of by_id "d_ip d" x a b a' b'] by (simp only: fst_conv) (meson subset_trans)
  qed simp
  then have "fst ` set (ips_of (config_of d)) \<subseteq> fst ` set (ips_of (?c\<lparr>dc_ips_by_lan := Some ips\<rparr>))" by simp
  with out show ?thesis by blast
qed

lemma backfill_all_keys:
  assumes "foldE (backfill_decky by_id edges) ds ([], allocs) = Inr (out, allocs')" and "distinct (map d_uuid ds)" "d \<in> set ds"
  shows "\<exists>cfg. map_of out (d_uuid d) = Some cfg \<and> fst ` set (ips_of (config_of d)) \<subseteq> fst ` set (ips_of cfg)"
proof -
  let ?done = "\<lambda>out d. \<exists>cfg. map_of out (d_uuid d) = Some cfg \<and> fst ` set (ips_of (config_of d)) \<subseteq> fst ` set (ips_of cfg)"
  have "\<forall>d \<in> set ds. ?done (fst (out, allocs')) d"
  proof (rule foldE_invariant [OF assms(1), where P = "\<lambda>ys st. \<forall>d \<in> set ys. ?done (fst st) d"])
    fix ys x zs t t' assume ds: "ds = ys @ x # zs" and IH: "\<forall>d \<in> set ys. ?done (fst t) d"
      and st: "backfill_decky by_id edges x t = Inr t'"
    obtain o1 a1 o2 a2 where t: "t = (o1, a1)" "t' = (o2, a2)" by (cases t; cases t')
    from backfill_decky_keys [OF st [unfolded t]] obtain cfg where
      cfg: "o2 = AList.update (d_uuid x) cfg o1" "fst ` set (ips_of (config_of x)) \<subseteq> fst ` set (ips_of cfg)" by blast
    from ds assms(2) have "d_uuid x \<notin> d_uuid ` set ys" by simp
    then have "\<forall>d \<in> set ys. d_uuid d \<noteq> d_uuid x" by (metis imageI)
    then have "\<forall>d \<in> set ys. map_of o2 (d_uuid d) = map_of o1 (d_uuid d)" by (simp add: cfg(1) update_conv')
    with IH have "\<forall>d \<in> set ys. ?done o2 d" by (simp add: t)
    moreover have "?done o2 x" using cfg by (simp add: update_conv')
    ultimately show "\<forall>d \<in> set (ys @ [x]). ?done (fst t') d" by (simp add: t)
  qed simp
  with assms(3) show ?thesis by simp
qed

lemma declared_lans:
  "k \<in> fst ` set (declared_ips h) \<longleftrightarrow> (\<exists>d \<in> set (h_deckies h). k \<in> fst ` set (ips_of (config_of d)))"
  by (simp add: declared_ips_def image_UN)

lemma hydrate_declares:
  assumes wf: "repo_wf r" and h: "hydrate tid r = Inr (Some h)"
    and d: "d \<in> set (r_deckies r)" "d_topology_id d = tid" and k: "k \<in> fst ` set (ips_of (config_of d))"
  shows "k \<in> fst ` set (declared_ips h)"
proof -
  let ?ds = "list_topology_deckies tid r" and ?es = "list_topology_edges tid r" and ?ls = "list_lans_for_topology tid r"
  let ?ord = "sort_key (\<lambda>d. (d_name d, d_uuid d)) ?ds"
  from hydrate_rows(4) [OF h] obtain allocs out al where
    f: "foldE (backfill_decky (lans_by_id ?ls) ?es) ?ord ([], allocs) = Inr (out, al)"
    and hd: "h_deckies h = map (\<lambda>d. d\<lparr>d_decky_config := map_of out (d_uuid d)\<rparr>) ?ds"
    by (auto simp: backfill_decky_configs_def Let_def simp del: foldE.simps)
  have din: "d \<in> set ?ds" using d by (simp add: list_topology_deckies_def)
  have "distinct (map d_uuid (r_deckies r))" using wf by (simp add: repo_wf_defs rows_ok_def)
  then have "inj_on d_uuid (set ?ord)" "distinct ?ord"
    by (auto simp: list_topology_deckies_def distinct_map intro: inj_on_subset)
  then have dis: "distinct (map d_uuid ?ord)" by (simp add: distinct_map)
  have "d \<in> set ?ord" using din by simp
  from backfill_all_keys [OF f dis this] obtain cfg where
    cfg: "map_of out (d_uuid d) = Some cfg" "fst ` set (ips_of (config_of d)) \<subseteq> fst ` set (ips_of cfg)" by blast
  have "d\<lparr>d_decky_config := Some cfg\<rparr> \<in> set (h_deckies h)" using din cfg(1) hd by force
  moreover have "k \<in> fst ` set (ips_of (config_of (d\<lparr>d_decky_config := Some cfg\<rparr>)))" using k cfg(2) by auto
  ultimately show ?thesis by (simp only: declared_lans) (rule bexI)
qed

lemma post_apply_known:
  assumes "post_apply_valid known h"
  shows "fst ` set (declared_ips h) \<subseteq> l_name ` set (h_lans h)"
proof
  fix k assume "k \<in> fst ` set (declared_ips h)"
  with assms have "map_of (dict_of l_name (\<lambda>l. l) (h_lans h)) k \<noteq> None"
    by (fastforce simp: post_apply_valid_def ip_good_def)
  with assms show "k \<in> l_name ` set (h_lans h)"
    by (auto simp: post_apply_valid_def dict_of_distinct dest!: map_of_SomeD)
qed

text \<open>A rename is written, and the check that follows finds the old name in the addresses of any
  decky that is on the LAN: the operation raises and the new name stays.\<close>

lemma rename_lan_raises:
  assumes ok: "mut_ok tid (w_repo w)" and h: "hydrate tid (w_repo w) = Inr (Some h)"
    and pl: "mp_name payload = Some name" "mp_patch_name payload = Some new" "new \<noteq> name"
      "mp_patch_subnet payload = None" "mp_patch_is_dmz payload = None"
    and lan: "lan_by_name h name = Some lan" and free: "lan_by_name h new = None"
    and d: "d \<in> set (r_deckies (w_repo w))" "d_topology_id d = tid" "name \<in> fst ` set (ips_of (config_of d))"
  shows "\<exists>e w'. apply_update_lan env tid payload w = (Inl e, w') \<and>
    (\<exists>l \<in> set (r_lans (w_repo w')). l_id l = l_id lan \<and> l_name l = new)"
proof -
  let ?r = "w_repo w" and ?lf = "lan_patch payload"
  note row = hydrate_lan [OF h lan]
  have ne: "?lf \<noteq> no_lan_fields" "lf_subnet ?lf = None" "lf_is_dmz ?lf = None" "lf_name ?lf = Some new"
    using pl by (auto simp: lan_patch_def no_lan_fields_def)
  define r' where "r' = ?r\<lparr>r_lans := map (\<lambda>l. if l_id l = l_id lan then set_lan_fields ?lf l else l) (r_lans ?r)\<rparr>"
  have wf: "repo_wf ?r" using ok by (simp add: mut_ok_def)
  have fl: "find_lan (l_id lan) ?r = Some lan"
    using wf row(1) by (simp add: find_lan_def repo_wf_defs rows_ok_def find_key_iff)
  have names: "l_name l \<noteq> new" if "l \<in> set (r_lans ?r)" "l_topology_id l = tid" for l
    using free that hydrate_rows(1) [OF h] by (auto simp: lan_by_name_def find_None_iff list_lans_for_topology_def)
  have up: "update_lan (l_id lan) ?lf None False ?r = (Inr (), r')"
    using fl ne names row(2) by (auto simp: update_lan_def session_def Let_def r'_def set_lan_fields_def)
  then have wf': "repo_wf r'" using update_lan_wf [OF wf] by (metis snd_conv)
  have no_old: "l_name l \<noteq> name" if "l \<in> set (list_lans_for_topology tid r')" for l
  proof
    assume "l_name l = name"
    with that pl(3) obtain x where x: "x \<in> set (r_lans ?r)" "l_topology_id x = tid" "l_name x = name" "l_id x \<noteq> l_id lan"
      using ne(4) by (auto simp: list_lans_for_topology_def r'_def set_lan_fields_def split: if_splits)
    from wf x row show False by (auto simp: repo_wf_defs distinct_map dest!: inj_onD [of lan_key _ x lan])
  qed
  have bad: "\<not> post_ok env tid r'"
  proof
    assume "post_ok env tid r'"
    then obtain h' where h': "hydrate tid r' = Inr (Some h')" "post_apply_valid (env_known env) h'"
      by (auto simp: post_ok_def)
    have "name \<in> fst ` set (declared_ips h')"
      by (rule hydrate_declares [OF wf' h'(1) _ d(2,3)]) (use d(1) in \<open>simp add: r'_def\<close>)
    with post_apply_known [OF h'(2)] have "name \<in> l_name ` set (h_lans h')" by blast
    with no_old hydrate_rows(1) [OF h'(1)] show False by auto
  qed
  obtain res w' where run: "assert_valid_after env tid (w\<lparr>w_repo := r'\<rparr>) = (res, w')" by fastforce
  have w': "w_repo w' = r'" using keeps_repoD [OF keeps_checks(5) run] by simp
  have "res \<noteq> Inr ()" using valid_Inr [OF ends_assert _ run [THEN trans]] bad w' run by (metis ends_assert valid_Inr)
  then obtain e where e: "res = Inl e" by (cases res) auto
  have "apply_update_lan env tid payload w = (Inl e, w')"
    using h pl(1) lan ne up run e
    by (simp add: apply_update_lan_def hydrated_of_def bindS_def reads_def need_def found_def guardS_def on_repo_def
        split: option.split)
  moreover have "set_lan_fields ?lf lan \<in> set (r_lans r')" using row(1) by (force simp: r'_def)
  moreover have "l_id (set_lan_fields ?lf lan) = l_id lan" "l_name (set_lan_fields ?lf lan) = new"
    using ne(4) by (simp_all add: set_lan_fields_def)
  ultimately show ?thesis using w' by blast
qed

text \<open>After a successful removal nothing of the LAN is left in the hydrated topology.\<close>

lemma detach_member_lans:
  "valid (\<lambda>w. r_lans (w_repo w) = L) (detach_member env tid h lan_name e) (\<lambda>_ w. r_lans (w_repo w) = L) (\<lambda>_. True)"
proof -
  have frame: "r_lans (snd (update_topology_decky now du df None p r)) = r_lans r"
    "r_lans (snd (delete_topology_edge eid None p r)) = r_lans r" for now du df p r eid
    by (auto simp: update_topology_decky_def delete_topology_edge_def session_def bindE_def Let_def
        split: option.split sum.split prod.split)
  have keep: "valid (\<lambda>w. r_lans (w_repo w) = L) m (\<lambda>_ w. r_lans (w_repo w) = L) (\<lambda>_. True)" if "keeps_repo m"
    for m :: "('x, world) op"
    by (rule valid_keeps [OF that]) simp_all
  have repo: "valid (\<lambda>w. r_lans (w_repo w) = L) (on_repo m) (\<lambda>_ w. r_lans (w_repo w) = L) (\<lambda>_. True)"
    if "\<And>r. r_lans (snd (m r)) = r_lans r" for m :: "('x, repo) op"
    by (rule valid_on_repo) (auto intro!: validI dest: arg_cong [of _ _ "\<lambda>p. r_lans (snd p)"] simp: that)
  have bind: "valid (\<lambda>w. r_lans (w_repo w) = L) (bindS m f) (\<lambda>_ w. r_lans (w_repo w) = L) (\<lambda>_. True)"
    if "valid (\<lambda>w. r_lans (w_repo w) = L) m (\<lambda>_ w. r_lans (w_repo w) = L) (\<lambda>_. True)"
      "\<And>x. valid (\<lambda>w. r_lans (w_repo w) = L) (f x) (\<lambda>_ w. r_lans (w_repo w) = L) (\<lambda>_. True)"
    for m :: "('x, world) op" and f :: "'x \<Rightarrow> (unit, world) op"
    using that by (rule valid_bindS)
  show ?thesis
    unfolding detach_member_def
  proof (rule bind)
    show "valid (\<lambda>w. r_lans (w_repo w) = L) (on_repo (delete_topology_edge (e_id e) None False))
        (\<lambda>_ w. r_lans (w_repo w) = L) (\<lambda>_. True)" by (rule repo, rule frame)
    show "valid (\<lambda>w. r_lans (w_repo w) = L) (case find (\<lambda>d. d_uuid d = e_decky_uuid e) (h_deckies h) of
              None \<Rightarrow> returnS ()
            | Some d \<Rightarrow>
                bindS (set_config env (d_uuid d) (without_lan (config_of d) lan_name)) (\<lambda>_.
                bindS (need (dc_name (config_of d))) (\<lambda>decky_name.
                  materialise_decky_disconnect env tid decky_name lan_name))) (\<lambda>_ w. r_lans (w_repo w) = L) (\<lambda>_. True)"
      by (cases "find (\<lambda>d. d_uuid d = e_decky_uuid e) (h_deckies h)"; simp only: option.case)
        (rule keep, simp, rule bind, rule repo, rule frame, rule keep, rule keeps_bindS, simp_all)
  qed
qed

lemma delete_lan_gone:
  "valid (\<lambda>r. mut_ok tid r \<and> r_lans r = L) (delete_lan lid None False)
     (\<lambda>_ r. (\<forall>l \<in> set (r_lans r). l \<in> set L \<and> l_id l \<noteq> lid) \<and> (\<forall>e \<in> set (r_edges r). e_lan_id e \<noteq> lid)) (\<lambda>_. True)"
proof (rule validI)
  fix r u r' assume P: "mut_ok tid r \<and> r_lans r = L" and del: "delete_lan lid None False r = (Inr u, r')"
  from del show "(\<forall>l \<in> set (r_lans r'). l \<in> set L \<and> l_id l \<noteq> lid) \<and> (\<forall>e \<in> set (r_edges r'). e_lan_id e \<noteq> lid)"
  proof (cases rule: delete_lan_InrE)
    case 1
    then have no: "lid \<notin> l_id ` set (r_lans r)" by (simp add: find_lan_def find_key_None)
    have "e_lan_id e \<in> l_id ` set (r_lans r)" if "e \<in> set (r_edges r)" for e
    proof -
      from P that have "\<exists>l \<in> set (r_lans r). l_id l = e_lan_id e" by (auto simp: mut_ok_def repo_wf_defs)
      then show ?thesis by (metis imageI)
    qed
    with no have "\<forall>e \<in> set (r_edges r). e_lan_id e \<noteq> lid" by blast
    moreover from no have "\<forall>l \<in> set (r_lans r). l_id l \<noteq> lid" by blast
    ultimately show ?thesis using P 1 by simp
  next
    case (2 lan r1)
    with P show ?thesis by auto
  qed
qed simp

lemma remove_lan_gone:
  assumes ok: "mut_ok tid (w_repo w)" and h: "hydrate tid (w_repo w) = Inr (Some h)"
    and pl: "mp_name payload = Some name" "lan_by_name h name = Some lan"
    and run: "apply_remove_lan env tid payload w = (Inr (), w')"
  shows "\<exists>h'. hydrate tid (w_repo w') = Inr (Some h') \<and> name \<notin> l_name ` set (h_lans h') \<and>
    name \<notin> fst ` set (declared_ips h') \<and> l_id lan \<notin> e_lan_id ` set (h_edges h')"
proof -
  let ?L = "r_lans (w_repo w)"
  let ?G = "\<lambda>r. (\<forall>l \<in> set (r_lans r). l \<in> set ?L \<and> l_id l \<noteq> l_id lan) \<and> (\<forall>e \<in> set (r_edges r). e_lan_id e \<noteq> l_id lan)"
  note row = hydrate_lan [OF h pl(2)]
  let ?es = "filter (\<lambda>e. e_lan_id e = l_id lan) (h_edges h)"
  let ?tail = "bindS (forS (detach_member env tid h (l_name lan)) ?es) (\<lambda>_.
     bindS (on_repo (delete_lan (l_id lan) None False)) (\<lambda>_.
     bindS (materialise_lan_change env tid None (Some (l_name lan))) (\<lambda>_. assert_valid_after env tid)))"
  have kd: "mut.kept tid (detach_member env tid h (l_name lan) e)" for e
    unfolding detach_member_def by (intro mut.kept_rules mut.kept_simple mut.kept_repo)
  have V: "valid (\<lambda>w. mut_ok tid (w_repo w) \<and> r_lans (w_repo w) = ?L) ?tail (\<lambda>_ w. ?G (w_repo w)) (\<lambda>_. True)"
  proof (rule valid_bindS)
    show "valid (\<lambda>w. mut_ok tid (w_repo w) \<and> r_lans (w_repo w) = ?L) (forS (detach_member env tid h (l_name lan)) ?es)
       (\<lambda>_ w. mut_ok tid (w_repo w) \<and> r_lans (w_repo w) = ?L) (\<lambda>_. True)"
      by (rule valid_weaken [OF valid_conj [OF mut.kept_forS valid_forS]], rule kd, rule detach_member_lans) auto
    show "valid (\<lambda>w. mut_ok tid (w_repo w) \<and> r_lans (w_repo w) = ?L)
       (bindS (on_repo (delete_lan (l_id lan) None False)) (\<lambda>_.
        bindS (materialise_lan_change env tid None (Some (l_name lan))) (\<lambda>_. assert_valid_after env tid)))
       (\<lambda>_ w. ?G (w_repo w)) (\<lambda>_. True)"
      by (rule valid_bindS [OF valid_on_repo [OF delete_lan_gone]], rule valid_keeps [OF keeps_bindS]) simp_all
  qed
  have T: "?tail w = (Inr (), w')"
    using run h pl
    by (auto simp: apply_remove_lan_def hydrated_of_def reads_def need_def found_def guardS_def bindS_def [of "hydrated_of tid"]
        split: if_splits simp del: forS.simps)
  have G: "?G (w_repo w')" using valid_Inr [OF V _ T] ok by simp
  from valid_Inr [OF ends_ops(2) _ run] obtain h' where
    h': "hydrate tid (w_repo w') = Inr (Some h')" "post_apply_valid (env_known env) h'" by (auto simp: post_ok_def)
  have no: "name \<notin> l_name ` set (h_lans h')"
  proof
    assume "name \<in> l_name ` set (h_lans h')"
    then obtain l where l: "l \<in> set ?L" "l_id l \<noteq> l_id lan" "l_topology_id l = tid" "l_name l = name"
      using G hydrate_rows(1) [OF h'(1)] by (auto simp: list_lans_for_topology_def)
    have "distinct (map lan_key ?L)" using ok by (simp add: mut_ok_def repo_wf_defs)
    with l row show False by (auto simp: distinct_map dest!: inj_onD [of lan_key _ l lan])
  qed
  moreover have "l_id lan \<notin> e_lan_id ` set (h_edges h')"
    using G hydrate_rows(2) [OF h'(1)] by (auto simp: list_topology_edges_def)
  ultimately show ?thesis using h'(1) post_apply_known [OF h'(2)] by blast
qed

end
