(* ===== verification/Mutator_Engine.thy ===== *)
theory Mutator_Engine
  imports Mutator_Inv
begin

text \<open>
  The reconciler (\<open>decnet/mutator/engine.py\<close>): for every live topology it claims the pending
  mutations one by one, dispatches them, and writes the outcome back; the first failure of a
  topology marks the mutation failed, degrades the topology and ends its turn.
\<close>

section \<open>One mutation\<close>

definition degrade :: "mutator_env \<Rightarrow> nat \<Rightarrow> string \<Rightarrow> (unit, world) op" where
  "degrade env tid reason w =
     (case on_repo (transition_status (env_now env) tid DEGRADED (Some reason)) w of
        (Inr _, w') \<Rightarrow> publish (TopologyState tid DEGRADED reason) w'
      | (Inl e, w') \<Rightarrow> if e = TopologyStatusError then (Inr (), w') else (Inl e, w'))"

definition apply_mutation :: "mutator_env \<Rightarrow> nat \<Rightarrow> mutation_row \<Rightarrow> (bool, world) op" where
  "apply_mutation env tid mut w =
     (case bindS (dispatch env tid (m_op mut) (m_payload mut)) (\<lambda>_.
             on_repo (mark_mutation_applied (env_now env) (m_id mut))) w of
        (Inr _, w') \<Rightarrow>
          bindS (publish (MutationApplied tid (m_id mut) (m_op mut))) (\<lambda>_. returnS True) w'
      | (Inl e, w') \<Rightarrow>
          let reason = env_reason env e in
          bindS (on_repo (mark_mutation_failed (env_now env) (m_id mut) reason)) (\<lambda>_.
          bindS (publish (MutationFailed tid (m_id mut) (m_op mut) reason)) (\<lambda>_.
          bindS (degrade env tid reason) (\<lambda>_. returnS False))) w')"

section \<open>What a mutation leaves alone\<close>

lemma unversioned_mutations:
  "r_mutations (snd (add_lan tid name subnet dmz x y None r)) = r_mutations r"
  "r_mutations (snd (update_lan lid lf None p r)) = r_mutations r"
  "r_mutations (snd (delete_lan lid None p r)) = r_mutations r"
  "r_mutations (snd (add_topology_decky now tid name svcs cfg ip x y None r)) = r_mutations r"
  "r_mutations (snd (update_topology_decky now du df None p r)) = r_mutations r"
  "r_mutations (snd (delete_topology_decky du None p r)) = r_mutations r"
  "r_mutations (snd (add_topology_edge tid du lid br fwd None r)) = r_mutations r"
  "r_mutations (snd (delete_topology_edge eid None p r)) = r_mutations r"
  by (auto simp: add_lan_def update_lan_def delete_lan_def add_topology_decky_def update_topology_decky_def
      delete_topology_decky_def add_topology_edge_def delete_topology_edge_def session_def bindE_def Let_def
      split: option.split sum.split prod.split)

interpretation queue: edit_invariant tid "\<lambda>r. r_mutations r = M" for tid M
  by unfold_locales (simp_all add: unversioned_mutations)

interpretation topos: edit_invariant tid "\<lambda>r. r_topologies r = T" for tid T
  by unfold_locales (simp_all add: unversioned_frame)

text \<open>Every write of the mutator is a command of the repository's state machine, so what holds in
  every reachable database holds after a mutation.\<close>

lemma reach_edit: "reach r \<Longrightarrow> edit_ok c r \<Longrightarrow> reach (snd (run_edit c ev r))"
  using reach.step [of r "CEdit c ev"] by simp

interpretation reachable: edit_invariant tid "\<lambda>r. reach r \<and> topology_exists tid r" for tid
proof
  fix r name subnet dmz x y assume "reach r \<and> topology_exists tid r"
  then show "reach (snd (add_lan tid name subnet dmz x y None r)) \<and> topology_exists tid (snd (add_lan tid name subnet dmz x y None r))"
    using reach_edit [of r "EAddLan tid name subnet dmz x y" None] by (simp add: topology_exists_def unversioned_frame)
next
  fix r lid lf p assume "reach r \<and> topology_exists tid r"
  then show "reach (snd (update_lan lid lf None p r)) \<and> topology_exists tid (snd (update_lan lid lf None p r))"
    using reach_edit [of r "EUpdateLan lid lf p" None] by (simp add: topology_exists_def unversioned_frame)
next
  fix r lid p assume "reach r \<and> topology_exists tid r"
  then show "reach (snd (delete_lan lid None p r)) \<and> topology_exists tid (snd (delete_lan lid None p r))"
    using reach_edit [of r "EDeleteLan lid p" None] by (simp add: topology_exists_def unversioned_frame)
next
  fix r now name svcs cfg ip x y assume "reach r \<and> topology_exists tid r"
  then show "reach (snd (add_topology_decky now tid name svcs cfg ip x y None r)) \<and>
      topology_exists tid (snd (add_topology_decky now tid name svcs cfg ip x y None r))"
    using reach_edit [of r "EAddDecky now tid name svcs cfg ip x y" None] by (simp add: topology_exists_def unversioned_frame)
next
  fix r now du df p assume "reach r \<and> topology_exists tid r"
  then show "reach (snd (update_topology_decky now du df None p r)) \<and> topology_exists tid (snd (update_topology_decky now du df None p r))"
    using reach_edit [of r "EUpdateDecky now du df p" None] by (simp add: topology_exists_def unversioned_frame)
next
  fix r du p assume "reach r \<and> topology_exists tid r"
  then show "reach (snd (delete_topology_decky du None p r)) \<and> topology_exists tid (snd (delete_topology_decky du None p r))"
    using reach_edit [of r "EDeleteDecky du p" None] by (simp add: topology_exists_def unversioned_frame)
next
  fix r du lid br fwd assume "reach r \<and> topology_exists tid r" "has_decky tid du r" "has_lan tid lid r"
  then show "reach (snd (add_topology_edge tid du lid br fwd None r)) \<and> topology_exists tid (snd (add_topology_edge tid du lid br fwd None r))"
    using reach_edit [of r "EAddEdge tid du lid br fwd" None] by (simp add: topology_exists_def unversioned_frame)
next
  fix r eid p assume "reach r \<and> topology_exists tid r"
  then show "reach (snd (delete_topology_edge eid None p r)) \<and> topology_exists tid (snd (delete_topology_edge eid None p r))"
    using reach_edit [of r "EDeleteEdge eid p" None] by (simp add: topology_exists_def unversioned_frame)
qed

section \<open>Draining a topology\<close>

definition pending_count :: "nat \<Rightarrow> repo \<Rightarrow> nat" where
  "pending_count tid r = length (filter (\<lambda>m. m_topology_id m = tid \<and> m_state m = M_PENDING) (r_mutations r))"

lemma length_filter_map_le:
  "(\<And>x. P (f x) \<Longrightarrow> P x) \<Longrightarrow> length (filter P (map f xs)) \<le> length (filter P xs)"
  by (induction xs) (auto intro: le_SucI)

lemma length_filter_map_less:
  assumes "\<And>x. P (f x) \<Longrightarrow> P x" and "x \<in> set xs" "P x" "\<not> P (f x)"
  shows "length (filter P (map f xs)) < length (filter P xs)"
  using assms(2)
proof (induction xs)
  case (Cons y ys)
  have "length (filter P (map f ys)) \<le> length (filter P ys)" by (rule length_filter_map_le) (rule assms(1))
  with Cons assms(1,3,4) show ?case by (auto simp: less_Suc_eq_le)
qed simp

lemma claim_decreases:
  assumes "claim_next_mutation tid r = (Inr (Some m), r')"
  shows "pending_count tid r' < pending_count tid r"
proof (cases "oldest_mutation tid M_PENDING r")
  case None
  with assms show ?thesis by (simp add: claim_next_mutation_def session_def)
next
  case (Some nxt)
  note old = oldest_mutation_Some [OF Some]
  from assms Some have r': "r_mutations r' = map (\<lambda>m. if m_id m = m_id nxt \<and> m_state m = M_PENDING
      then m\<lparr>m_state := M_APPLYING\<rparr> else m) (r_mutations r)"
    by (auto simp: claim_next_mutation_def session_def Let_def)
  show ?thesis
    unfolding pending_count_def r'
    by (rule length_filter_map_less [where x = nxt]) (use old in \<open>auto split: if_splits\<close>)
qed

text \<open>The effect of one mutation on the queue and on the topologies.\<close>

lemma dispatch_frame:
  assumes "dispatch env tid opn payload w = (res, w')"
  shows "r_mutations (w_repo w') = r_mutations (w_repo w)" "r_topologies (w_repo w') = r_topologies (w_repo w)"
    "reach (w_repo w) \<Longrightarrow> topology_exists tid (w_repo w) \<Longrightarrow> reach (w_repo w') \<and> topology_exists tid (w_repo w')"
  using queue.dispatch_kept [of "r_mutations (w_repo w)" env tid opn payload]
    topos.dispatch_kept [of "r_topologies (w_repo w)" env tid opn payload]
    reachable.dispatch_kept [of tid env opn payload] assms
  unfolding valid_inv by (metis snd_conv)+

lemma find_topology_status:
  assumes "find_topology tid r = Some t"
  shows "find_topology k (snd (update_topology_status now tid st reason r)) =
    (if k = tid then Some (t\<lparr>t_status := st, t_status_changed_at := now\<rparr>) else find_topology k r)"
proof -
  have id: "find_topology j r = Some u \<Longrightarrow> t_id u = j" for j u
    unfolding find_topology_def by (auto dest: find_key_SomeD)
  have "find_topology k (snd (update_topology_status now tid st reason r)) =
      find_topology k (update_topology tid (\<lambda>t. t\<lparr>t_status := st, t_status_changed_at := now\<rparr>) r)"
    using assms by (simp add: update_topology_status_def session_def Let_def find_topology_def)
  also have "\<dots> = (if k = tid then Some (t\<lparr>t_status := st, t_status_changed_at := now\<rparr>) else find_topology k r)"
    using assms id by (cases "find_topology k r") (auto simp: find_update_topology)
  finally show ?thesis .
qed

lemma transition_to_degraded:
  assumes t: "find_topology tid r = Some t" and live: "t_status t \<in> {ACTIVE, DEGRADED}"
    and run: "transition_status now tid DEGRADED reason r = (res, r')"
  shows "res = Inr () \<or> res = Inl TopologyStatusError"
    and "r_mutations r' = r_mutations r"
    and "k \<noteq> tid \<Longrightarrow> find_topology k r' = find_topology k r"
    and "\<exists>t'. find_topology tid r' = Some t' \<and> t_status t' = DEGRADED"
proof -
  have upd: "fst (update_topology_status now tid DEGRADED reason r) = Inr ()"
    "r_mutations (snd (update_topology_status now tid DEGRADED reason r)) = r_mutations r"
    using t by (simp_all add: update_topology_status_def session_def Let_def)
  consider "(res, r') = (Inl TopologyStatusError, r)" "t_status t = DEGRADED"
    | "(res, r') = update_topology_status now tid DEGRADED reason r"
  proof (cases "status_step (t_status t) DEGRADED")
    case True
    then have "assert_transition (t_status t) DEGRADED = Inr ()" by (simp add: status_step_iff_Inr)
    with run t that show ?thesis by (simp add: transition_status_cases)
  next
    case False
    with live have "t_status t = DEGRADED" by (auto simp: status_step_table)
    moreover from False have "assert_transition (t_status t) DEGRADED = Inl TopologyStatusError"
      using assert_transition_cases [of "t_status t" DEGRADED] by (auto simp: status_step_iff_Inr)
    ultimately show ?thesis using run t that by (simp add: transition_status_cases)
  qed
  note cases = this
  show "res = Inr () \<or> res = Inl TopologyStatusError"
    by (rule cases) (use upd in \<open>auto simp: prod_eq_iff\<close>)
  show "r_mutations r' = r_mutations r" by (rule cases) (use upd in \<open>auto simp: prod_eq_iff\<close>)
  show "k \<noteq> tid \<Longrightarrow> find_topology k r' = find_topology k r"
    by (rule cases) (use find_topology_status [OF t, of k] in \<open>auto simp: prod_eq_iff\<close>)
  show "\<exists>t'. find_topology tid r' = Some t' \<and> t_status t' = DEGRADED"
    by (rule cases) (use t find_topology_status [OF t, of tid] in \<open>auto simp: prod_eq_iff\<close>)
qed

lemma pending_map_le:
  assumes "r_mutations r' = map f (r_mutations r)"
    and "\<And>m. m_topology_id (f m) = m_topology_id m" "\<And>m. m_state (f m) = M_PENDING \<Longrightarrow> m_state m = M_PENDING"
  shows "pending_count k r' \<le> pending_count k r"
  unfolding pending_count_def assms(1) by (rule length_filter_map_le) (auto simp: assms(2) intro: assms(3))

lemma marked_pending:
  "pending_count k (snd (mark_mutation_applied now mid r)) \<le> pending_count k r"
  "pending_count k (snd (mark_mutation_failed now mid reason r)) \<le> pending_count k r"
  by (rule pending_map_le [where f = "\<lambda>m. if m_id m = mid then m\<lparr>m_state := M_APPLIED, m_applied_at := Some now\<rparr> else m"];
      auto simp: mark_mutation_applied_def session_def split: if_splits)
    (rule pending_map_le [where f = "\<lambda>m. if m_id m = mid then m\<lparr>m_state := M_FAILED, m_applied_at := Some now,
        m_reason := Some reason\<rparr> else m"];
      auto simp: mark_mutation_failed_def session_def split: if_splits)

lemma marked_frame:
  "fst (mark_mutation_applied now mid r) = Inr ()" "fst (mark_mutation_failed now mid reason r) = Inr ()"
  "r_topologies (snd (mark_mutation_applied now mid r)) = r_topologies r"
  "r_topologies (snd (mark_mutation_failed now mid reason r)) = r_topologies r"
  by (simp_all add: mark_mutation_applied_def mark_mutation_failed_def session_def)

lemma transition_mutations: "r_mutations (snd (transition_status now tid st reason r)) = r_mutations r"
  by (auto simp: transition_status_cases update_topology_status_def session_def Let_def split: option.split sum.split)

text \<open>The two shapes of a turn: the mutation is applied, or its failure is recorded.\<close>

definition failed_turn :: "mutator_env \<Rightarrow> nat \<Rightarrow> mutation_row \<Rightarrow> exn \<Rightarrow> repo \<Rightarrow> repo" where
  "failed_turn env tid mut e r =
     snd (transition_status (env_now env) tid DEGRADED (Some (env_reason env e))
       (snd (mark_mutation_failed (env_now env) (m_id mut) (env_reason env e) r)))"

lemma apply_mutation_cases:
  assumes "dispatch env tid (m_op mut) (m_payload mut) w = (res, w1)"
  shows "case res of
      Inr _ \<Rightarrow> fst (apply_mutation env tid mut w) = Inr True \<and>
        w_repo (snd (apply_mutation env tid mut w)) = snd (mark_mutation_applied (env_now env) (m_id mut) (w_repo w1))
    | Inl e \<Rightarrow> w_repo (snd (apply_mutation env tid mut w)) = failed_turn env tid mut e (w_repo w1) \<and>
        (fst (transition_status (env_now env) tid DEGRADED (Some (env_reason env e))
           (snd (mark_mutation_failed (env_now env) (m_id mut) (env_reason env e) (w_repo w1))))
         \<in> {Inr (), Inl TopologyStatusError} \<longrightarrow> fst (apply_mutation env tid mut w) = Inr False)"
proof (cases res)
  case (Inr u)
  obtain r2 where "mark_mutation_applied (env_now env) (m_id mut) (w_repo w1) = (Inr (), r2)"
    using marked_frame(1) by (metis prod.collapse)
  with assms Inr show ?thesis by (simp add: apply_mutation_def bindS_def on_repo_def publish_def)
next
  case (Inl e)
  obtain r2 where m: "mark_mutation_failed (env_now env) (m_id mut) (env_reason env e) (w_repo w1) = (Inr (), r2)"
    using marked_frame(2) by (metis prod.collapse)
  obtain d r3 where "transition_status (env_now env) tid DEGRADED (Some (env_reason env e)) r2 = (d, r3)"
    by fastforce
  with m assms Inl show ?thesis
    by (cases d) (simp_all add: apply_mutation_def bindS_def on_repo_def publish_def degrade_def failed_turn_def Let_def)
qed

lemma apply_mutation_pending:
  "pending_count k (w_repo (snd (apply_mutation env tid mut w))) \<le> pending_count k (w_repo w)"
proof -
  obtain res w1 where d: "dispatch env tid (m_op mut) (m_payload mut) w = (res, w1)" by fastforce
  have eq: "pending_count k (w_repo w1) = pending_count k (w_repo w)"
    by (simp add: pending_count_def dispatch_frame(1) [OF d])
  have "pending_count k (failed_turn env tid mut e (w_repo w1)) \<le> pending_count k (w_repo w1)" for e
    using marked_pending(2) [of k "env_now env" "m_id mut" "env_reason env e" "w_repo w1"]
    by (simp add: failed_turn_def pending_count_def transition_mutations)
  with apply_mutation_cases [OF d] eq marked_pending(1) [of k "env_now env" "m_id mut" "w_repo w1"]
  show ?thesis by (auto split: sum.splits)
qed

lemma find_topology_cong: "r_topologies r = r_topologies r' \<Longrightarrow> find_topology k r = find_topology k r'"
  by (simp add: find_topology_def)

lemma apply_mutation_live:
  assumes t: "find_topology tid (w_repo w) = Some t" and live: "t_status t \<in> {ACTIVE, DEGRADED}"
    and run: "apply_mutation env tid mut w = (res, w')"
  obtains ok t' where "res = Inr ok" "find_topology tid (w_repo w') = Some t'"
    "t_status t' = (if ok then t_status t else DEGRADED)"
    "\<And>k. k \<noteq> tid \<Longrightarrow> find_topology k (w_repo w') = find_topology k (w_repo w)"
proof -
  obtain d w1 where d: "dispatch env tid (m_op mut) (m_payload mut) w = (d, w1)" by fastforce
  have same: "find_topology k (w_repo w1) = find_topology k (w_repo w)" for k
    by (rule find_topology_cong) (rule dispatch_frame(2) [OF d])
  show thesis
  proof (cases d)
    case (Inr u)
    with apply_mutation_cases [OF d] run
    have out: "res = Inr True" "w_repo w' = snd (mark_mutation_applied (env_now env) (m_id mut) (w_repo w1))" by simp_all
    have "find_topology k (w_repo w') = find_topology k (w_repo w)" for k
      unfolding out same [symmetric] by (rule find_topology_cong) (rule marked_frame)
    with out(1) t that [of True t] show thesis by simp
  next
    case (Inl e)
    define r2 where "r2 = snd (mark_mutation_failed (env_now env) (m_id mut) (env_reason env e) (w_repo w1))"
    have r2: "find_topology k r2 = find_topology k (w_repo w)" for k
      unfolding same [symmetric] by (rule find_topology_cong) (simp add: r2_def marked_frame)
    with t have t2: "find_topology tid r2 = Some t" by simp
    obtain s r3 where s: "transition_status (env_now env) tid DEGRADED (Some (env_reason env e)) r2 = (s, r3)" by fastforce
    note trans = transition_to_degraded [OF t2 live s]
    from apply_mutation_cases [OF d] Inl run s trans(1)
    have out: "res = Inr False" "w_repo w' = r3" by (auto simp: r2_def [symmetric] failed_turn_def)
    from trans(4) obtain t' where "find_topology tid r3 = Some t'" "t_status t' = DEGRADED" by blast
    then show thesis using that [of False t'] out trans(3) r2 by simp
  qed
qed

lemma apply_mutation_reach:
  assumes "reach (w_repo w)" "topology_exists tid (w_repo w)"
  shows "reach (w_repo (snd (apply_mutation env tid mut w)))"
proof -
  obtain d w1 where d: "dispatch env tid (m_op mut) (m_payload mut) w = (d, w1)" by fastforce
  with assms dispatch_frame(3) [OF d] have r1: "reach (w_repo w1)" by blast
  show ?thesis
  proof (cases d)
    case (Inr u)
    with apply_mutation_cases [OF d] reach.step [OF r1, of "CApplied (env_now env) (m_id mut)"] show ?thesis by simp
  next
    case (Inl e)
    have "reach (snd (mark_mutation_failed (env_now env) (m_id mut) (env_reason env e) (w_repo w1)))" (is "reach ?r2")
      using reach.step [OF r1, of "CFailed (env_now env) (m_id mut) (env_reason env e)"] by simp
    with apply_mutation_cases [OF d] Inl
      reach.step [of ?r2 "CTransition (env_now env) tid DEGRADED (Some (env_reason env e))"]
    show ?thesis by (simp add: failed_turn_def)
  qed
qed

section \<open>The reconciler\<close>

lemma drain_decreases:
  assumes "on_repo (claim_next_mutation tid) w = (Inr (Some mut), w1)"
    and "apply_mutation env tid mut (snd (publish ev w1)) = (res, w2)"
  shows "pending_count tid (w_repo w2) < pending_count tid (w_repo w)"
proof -
  from assms(1) have "pending_count tid (w_repo w1) < pending_count tid (w_repo w)"
    by (auto simp: on_repo_def split: prod.splits intro: claim_decreases)
  moreover have "pending_count tid (w_repo w2) \<le> pending_count tid (w_repo w1)"
    using apply_mutation_pending [of tid env tid mut "snd (publish ev w1)"] assms(2) by (simp add: publish_def)
  ultimately show ?thesis by simp
qed

function (sequential) drain :: "mutator_env \<Rightarrow> nat \<Rightarrow> nat \<Rightarrow> (nat, world) op" where
  "drain env tid drained w =
     (case on_repo (claim_next_mutation tid) w of
        (Inl e, w1) \<Rightarrow> (Inl e, w1)
      | (Inr None, w1) \<Rightarrow> (Inr drained, w1)
      | (Inr (Some mut), w1) \<Rightarrow>
          (case apply_mutation env tid mut (snd (publish (MutationApplying tid (m_id mut) (m_op mut)) w1)) of
             (Inl e, w2) \<Rightarrow> (Inl e, w2)
           | (Inr True, w2) \<Rightarrow> drain env tid (Suc drained) w2
           | (Inr False, w2) \<Rightarrow> (Inr drained, w2)))"
  by pat_completeness auto
termination
  by (relation "measure (\<lambda>(env, tid, n, w). pending_count tid (w_repo w))")
    (auto dest!: sym [where s = "(_, _)"] intro: drain_decreases)

declare drain.simps [simp del]

text \<open>The claim itself.\<close>

lemma no_oldest_mutation:
  "oldest_mutation tid st r = None \<longleftrightarrow> filter (\<lambda>m. m_topology_id m = tid \<and> m_state m = st) (r_mutations r) = []"
  unfolding oldest_mutation_def
  by (metis (no_types, lifting) list.case_eq_if option.distinct(1) set_empty set_sort)

lemma claim_frame:
  obtains res where "fst (claim_next_mutation tid r) = Inr res"
    "r_topologies (snd (claim_next_mutation tid r)) = r_topologies r"
    "pending_count k (snd (claim_next_mutation tid r)) \<le> pending_count k r"
    "res = None \<Longrightarrow> pending_count tid (snd (claim_next_mutation tid r)) = 0"
proof (cases "oldest_mutation tid M_PENDING r")
  case None
  then have "pending_count tid r = 0"
    unfolding no_oldest_mutation pending_count_def by simp
  with None show thesis using that by (simp add: claim_next_mutation_def session_def)
next
  case (Some nxt)
  let ?f = "\<lambda>m. if m_id m = m_id nxt \<and> m_state m = M_PENDING then m\<lparr>m_state := M_APPLYING\<rparr> else m"
  have muts: "r_mutations (snd (claim_next_mutation tid r)) = map ?f (r_mutations r)"
    using Some by (simp add: claim_next_mutation_def session_def Let_def)
  have le: "pending_count k (snd (claim_next_mutation tid r)) \<le> pending_count k r"
    by (rule pending_map_le [OF muts]) (auto split: if_splits)
  from oldest_mutation_Some [OF Some] have "nxt \<in> set (r_mutations r)" "m_topology_id nxt = tid" "m_state nxt = M_PENDING"
    by auto
  then have "?f nxt \<in> set (map ?f (r_mutations r))" "m_topology_id (?f nxt) = tid" "m_state (?f nxt) = M_APPLYING"
    by (simp_all only: set_map imageI) simp_all
  then have "filter (\<lambda>m. m_topology_id m = tid \<and> m_state m = M_APPLYING) (map ?f (r_mutations r)) \<noteq> []"
    unfolding filter_empty_conv by blast
  then have "fst (claim_next_mutation tid r) \<noteq> Inr None"
    using Some by (simp add: claim_next_mutation_def session_def Let_def no_oldest_mutation del: filter_map)
  with le Some show thesis using that by (auto simp: claim_next_mutation_def session_def Let_def)
qed

lemma claim_world:
  obtains c w1 where "on_repo (claim_next_mutation tid) w = (Inr c, w1)"
    "\<And>k. find_topology k (w_repo w1) = find_topology k (w_repo w)"
    "\<And>k. pending_count k (w_repo w1) \<le> pending_count k (w_repo w)"
    "c = None \<Longrightarrow> pending_count tid (w_repo w1) = 0"
    "reach (w_repo w) \<Longrightarrow> reach (w_repo w1)"
proof -
  obtain d r1 where d: "claim_next_mutation tid (w_repo w) = (d, r1)" by fastforce
  obtain c where c: "d = Inr c" "r_topologies r1 = r_topologies (w_repo w)" "c = None \<Longrightarrow> pending_count tid r1 = 0"
    using claim_frame [of tid "w_repo w" tid] unfolding d fst_conv snd_conv by blast
  have "pending_count k r1 \<le> pending_count k (w_repo w)" for k
    using claim_frame [of tid "w_repo w" k] unfolding d fst_conv snd_conv by blast
  moreover have "find_topology k r1 = find_topology k (w_repo w)" for k by (rule find_topology_cong) (rule c(2))
  moreover have "reach (w_repo w) \<Longrightarrow> reach r1"
    using reach.step [of "w_repo w" "CClaim tid"] d c(1) by (simp add: discard_def bindS_def)
  ultimately show thesis using that [of c "w\<lparr>w_repo := r1\<rparr>"] d c by (simp add: on_repo_def)
qed

text \<open>\<open>settled\<close>: the queue of the topology is empty, or its last mutation failed and degraded it.\<close>

definition settled :: "nat \<Rightarrow> repo \<Rightarrow> bool" where
  "settled tid r \<longleftrightarrow>
     (\<exists>t. find_topology tid r = Some t \<and> t_status t \<in> {ACTIVE, DEGRADED} \<and>
        (pending_count tid r = 0 \<or> t_status t = DEGRADED))"

definition live :: "nat \<Rightarrow> repo \<Rightarrow> bool" where
  "live tid r \<longleftrightarrow> (\<exists>t. find_topology tid r = Some t \<and> t_status t \<in> {ACTIVE, DEGRADED})"

lemma live_exists: "live tid r \<Longrightarrow> topology_exists tid r"
  by (auto simp: live_def topology_exists_def find_topology_def dest!: find_key_SomeD)

lemma live_cong: "find_topology k r' = find_topology k r \<Longrightarrow> live k r' \<longleftrightarrow> live k r"
  by (simp add: live_def)

definition drained_to :: "nat \<Rightarrow> nat \<Rightarrow> world \<Rightarrow> nat \<Rightarrow> world \<Rightarrow> bool" where
  "drained_to tid n w n' w' \<longleftrightarrow>
     n \<le> n' \<and> n' + pending_count tid (w_repo w') \<le> n + pending_count tid (w_repo w) \<and>
     settled tid (w_repo w') \<and>
     (\<forall>k. k \<noteq> tid \<longrightarrow> find_topology k (w_repo w') = find_topology k (w_repo w) \<and>
        pending_count k (w_repo w') \<le> pending_count k (w_repo w)) \<and>
     (reach (w_repo w) \<longrightarrow> reach (w_repo w'))"

lemma drain_live:
  assumes "live tid (w_repo w)"
  shows "\<exists>n' w'. drain env tid n w = (Inr n', w') \<and> drained_to tid n w n' w'"
  using assms
proof (induction env tid n w rule: drain.induct)
  case (1 env tid n w)
  obtain c w1 where c: "on_repo (claim_next_mutation tid) w = (Inr c, w1)"
    and same1: "\<And>k. find_topology k (w_repo w1) = find_topology k (w_repo w)"
    and le1: "\<And>k. pending_count k (w_repo w1) \<le> pending_count k (w_repo w)"
    and none: "c = None \<Longrightarrow> pending_count tid (w_repo w1) = 0"
    and reach1: "reach (w_repo w) \<Longrightarrow> reach (w_repo w1)"
    using claim_world [of tid w] by blast
  show ?case
  proof (cases c)
    case None
    with c have "drain env tid n w = (Inr n, w1)" by (subst drain.simps) simp
    moreover have "drained_to tid n w n w1"
      using "1.prems" none [OF None] same1 le1 reach1 by (auto simp: drained_to_def settled_def live_def)
    ultimately show ?thesis by blast
  next
    case (Some mut)
    define w2 where "w2 = snd (publish (MutationApplying tid (m_id mut) (m_op mut)) w1)"
    have repo2: "w_repo w2 = w_repo w1" by (simp add: w2_def publish_def)
    obtain t where t: "find_topology tid (w_repo w2) = Some t" "t_status t \<in> {ACTIVE, DEGRADED}"
      using "1.prems" same1 by (auto simp: live_def repo2)
    obtain res w3 where ap: "apply_mutation env tid mut w2 = (res, w3)" by fastforce
    obtain ok t' where ok: "res = Inr ok" "find_topology tid (w_repo w3) = Some t'"
      "t_status t' = (if ok then t_status t else DEGRADED)"
      "\<And>k. k \<noteq> tid \<Longrightarrow> find_topology k (w_repo w3) = find_topology k (w_repo w2)"
      using apply_mutation_live [OF t ap] by blast
    have le3: "pending_count k (w_repo w3) \<le> pending_count k (w_repo w)" for k
      using apply_mutation_pending [of k env tid mut w2] ap le1 [of k] repo2 by simp
    have less: "pending_count tid (w_repo w3) < pending_count tid (w_repo w)"
      using drain_decreases [of tid w mut w1 env] c Some ap by (simp add: w2_def)
    have reach3: "reach (w_repo w) \<Longrightarrow> reach (w_repo w3)"
      using apply_mutation_reach [of w2 tid env mut] ap reach1 live_exists [of tid "w_repo w2"] t
      by (auto simp: repo2 live_def)
    have unfold: "drain env tid n w = (if ok then drain env tid (Suc n) w3 else (Inr n, w3))"
      using c Some ap ok(1) by (subst drain.simps) (simp add: w2_def split: bool.split)
    show ?thesis
    proof (cases ok)
      case True
      have "live tid (w_repo w3)" using ok(2,3) t(2) by (simp add: live_def True)
      then have "\<exists>n' w'. drain env tid (Suc n) w3 = (Inr n', w') \<and> drained_to tid (Suc n) w3 n' w'"
        using "1.IH" [of "Inr c" w1 c mut "Inr ok" w3 ok] c Some ap ok(1) by (simp add: w2_def True)
      then obtain n' w' where rec: "drain env tid (Suc n) w3 = (Inr n', w')" "drained_to tid (Suc n) w3 n' w'" by blast
      have "drained_to tid n w n' w'"
        using rec(2) less le3 ok(4) same1 reach3 repo2 unfolding drained_to_def by (auto intro: order_trans)
      with rec(1) unfold True show ?thesis by auto
    next
      case False
      have "drained_to tid n w n w3"
        unfolding drained_to_def settled_def using ok le3 less same1 reach3 repo2 False by auto
      with unfold False show ?thesis by auto
    qed
  qed
qed

fun reconcile_loop :: "mutator_env \<Rightarrow> nat list \<Rightarrow> nat \<Rightarrow> (nat, world) op" where
  "reconcile_loop env [] drained w = (Inr drained, w)"
| "reconcile_loop env (tid # tids) drained w =
     bindS (drain env tid drained) (reconcile_loop env tids) w"

definition reconcile_topologies :: "mutator_env \<Rightarrow> (nat, world) op" where
  "reconcile_topologies env w = reconcile_loop env (list_live_topology_ids (w_repo w)) 0 w"

lemma drained_to_other:
  assumes "drained_to tid n w n' w'" "k \<noteq> tid"
  shows "live k (w_repo w) \<Longrightarrow> live k (w_repo w')" "settled k (w_repo w) \<Longrightarrow> settled k (w_repo w')"
  using assms by (fastforce simp: drained_to_def live_def settled_def)+

lemma settled_live: "settled k r \<Longrightarrow> live k r"
  by (auto simp: settled_def live_def)

lemma reconcile_loop_settles:
  assumes "\<forall>tid \<in> set tids. live tid (w_repo w)" "distinct tids"
  shows "\<exists>n' w'. reconcile_loop env tids n w = (Inr n', w') \<and> n \<le> n' \<and>
    (\<forall>tid \<in> set tids. settled tid (w_repo w')) \<and>
    (\<forall>k. k \<notin> set tids \<longrightarrow> find_topology k (w_repo w') = find_topology k (w_repo w)) \<and>
    (reach (w_repo w) \<longrightarrow> reach (w_repo w')) \<and>
    (\<forall>k. k \<notin> set tids \<longrightarrow> settled k (w_repo w) \<longrightarrow> settled k (w_repo w'))"
  using assms
proof (induction tids arbitrary: n w)
  case (Cons tid tids)
  from Cons.prems drain_live obtain n1 w1 where d: "drain env tid n w = (Inr n1, w1)" "drained_to tid n w n1 w1" by fastforce
  have "\<forall>k \<in> set tids. live k (w_repo w1)"
    using Cons.prems drained_to_other(1) [OF d(2)] by (metis distinct.simps(2) list.set_intros(2))
  with Cons obtain n' w' where rec: "reconcile_loop env tids n1 w1 = (Inr n', w')" "n1 \<le> n'"
    "\<forall>tid \<in> set tids. settled tid (w_repo w')"
    "\<forall>k. k \<notin> set tids \<longrightarrow> find_topology k (w_repo w') = find_topology k (w_repo w1)"
    "reach (w_repo w1) \<longrightarrow> reach (w_repo w')"
    "\<forall>k. k \<notin> set tids \<longrightarrow> settled k (w_repo w1) \<longrightarrow> settled k (w_repo w')"
    by (metis distinct.simps(2))
  have "settled tid (w_repo w1)" using d(2) by (simp add: drained_to_def)
  with rec(6) Cons.prems(2) have here: "settled tid (w_repo w')" by simp
  have "reconcile_loop env (tid # tids) n w = (Inr n', w')" using d(1) rec(1) by (simp add: bindS_def)
  moreover have "\<forall>k. k \<notin> set (tid # tids) \<longrightarrow> find_topology k (w_repo w') = find_topology k (w_repo w)"
    using rec(4) d(2) by (simp add: drained_to_def)
  moreover have "\<forall>k. k \<notin> set (tid # tids) \<longrightarrow> settled k (w_repo w) \<longrightarrow> settled k (w_repo w')"
    using rec(6) drained_to_other(2) [OF d(2)] by simp
  ultimately show ?case using rec(2,3,5) d(2) here by (auto simp: drained_to_def)
qed simp

text \<open>\<open>list_live_topology_ids\<close> of a well-formed table.\<close>

lemma find_topology_id:
  assumes "repo_wf r" "t \<in> set (r_topologies r)"
  shows "find_topology (t_id t) r = Some t"
proof -
  have d: "distinct (map t_id (r_topologies r))" using assms(1) by (simp add: repo_wf_defs rows_ok_def)
  obtain u where u: "find_topology (t_id t) r = Some u"
    using assms(2) unfolding find_topology_def by (metis (mono_tags, lifting) find_None_iff not_None_eq)
  then have "u \<in> set (r_topologies r)" "t_id u = t_id t" unfolding find_topology_def by (auto dest: find_key_SomeD)
  with assms(2) d have "u = t" by (auto simp: distinct_map dest: inj_onD)
  with u show ?thesis by simp
qed

lemma live_ids_iff: "repo_wf r \<Longrightarrow> k \<in> set (list_live_topology_ids r) \<longleftrightarrow> live k r"
  by (auto simp: list_live_topology_ids_def live_def find_topology_id)
    (auto simp: find_topology_def image_iff dest!: find_key_SomeD)

lemma distinct_live_ids: "repo_wf r \<Longrightarrow> distinct (list_live_topology_ids r)"
  unfolding list_live_topology_ids_def by (rule distinct_map_filter) (simp add: repo_wf_defs rows_ok_def)

lemma reconcile_settles:
  assumes "reach (w_repo w)"
  shows "\<exists>n w'. reconcile_topologies env w = (Inr n, w') \<and> reach (w_repo w') \<and>
    (\<forall>tid. live tid (w_repo w) \<longrightarrow> settled tid (w_repo w')) \<and>
    (\<forall>tid. \<not> live tid (w_repo w) \<longrightarrow> find_topology tid (w_repo w') = find_topology tid (w_repo w))"
proof -
  have wf: "repo_wf (w_repo w)" by (rule reach_repo_wf) (rule assms)
  have "\<forall>tid \<in> set (list_live_topology_ids (w_repo w)). live tid (w_repo w)" using live_ids_iff [OF wf] by blast
  from reconcile_loop_settles [OF this distinct_live_ids [OF wf], of env 0] assms
  show ?thesis unfolding reconcile_topologies_def Ball_def live_ids_iff [OF wf] by blast
qed

end
