(* ===== verification/Json_Dumps.thy ===== *)
theory Json_Dumps
  imports Py_Json
begin

text \<open>
  \<open>json.dumps(value, sort_keys=True, separators=(",", ":"))\<close> of the standard library: the compact
  text of a JSON value with the keys of every dict in order.  The text of a float is the argument
  \<open>fl\<close>.  Two values without floats have the same text exactly when they are equal up to the order of
  dict keys (\<open>dumps_inject\<close>).
\<close>

section \<open>Text\<close>

definition hex_digit :: "nat \<Rightarrow> char" where
  "hex_digit n = (if n < 10 then char_of (48 + n) else char_of (87 + n))"

definition json_escape :: "char \<Rightarrow> string" where
  "json_escape c =
     (let n = of_char c :: nat in
      if n = 34 then [CHR 0x5C, c]
      else if n = 92 then [c, c]
      else if n = 10 then [CHR 0x5C, CHR ''n'']
      else if n = 13 then [CHR 0x5C, CHR ''r'']
      else if n = 9 then [CHR 0x5C, CHR ''t'']
      else if n = 12 then [CHR 0x5C, CHR ''f'']
      else if n = 8 then [CHR 0x5C, CHR ''b'']
      else if 32 \<le> n \<and> n \<le> 126 then [c]
      else [CHR 0x5C, CHR ''u'', CHR ''0'', CHR ''0'', hex_digit (n div 16), hex_digit (n mod 16)])"

definition json_string :: "string \<Rightarrow> string" where
  "json_string s = CHR 0x22 # concat (map json_escape s) @ [CHR 0x22]"

definition int_str :: "int \<Rightarrow> string" where
  "int_str i = (if i < 0 then ''-'' @ nat_str (nat (- i)) else nat_str (nat i))"

primrec dumps :: "(rat \<Rightarrow> string) \<Rightarrow> json \<Rightarrow> string" where
  "dumps fl JNull = ''null''"
| "dumps fl (JBool b) = (if b then ''true'' else ''false'')"
| "dumps fl (JInt i) = int_str i"
| "dumps fl (JFloat q) = fl q"
| "dumps fl (JStr s) = json_string s"
| "dumps fl (JArr xs) = ''['' @ join '','' (map (dumps fl) xs) @ '']''"
| "dumps fl (JObj kvs) = ''{'' @ join '','' (map (\<lambda>(k, s). json_string k @ '':'' @ s)
     (sort_key fst (map (map_prod id (dumps fl)) kvs))) @ ''}''"

section \<open>Key order\<close>

primrec canon :: "json \<Rightarrow> json" where
  "canon JNull = JNull"
| "canon (JBool b) = JBool b"
| "canon (JInt i) = JInt i"
| "canon (JFloat q) = JFloat q"
| "canon (JStr s) = JStr s"
| "canon (JArr xs) = JArr (map canon xs)"
| "canon (JObj kvs) = JObj (sort_key fst (map (map_prod id canon) kvs))"

lemma insort_map_prod: "insort_key fst (map_prod id f x) (map (map_prod id f) xs) = map (map_prod id f) (insort_key fst x xs)"
  by (induction xs) auto

lemma sort_map_prod: "sort_key fst (map (map_prod id f) xs) = map (map_prod id f) (sort_key fst xs)"
  by (induction xs) (simp_all add: insort_map_prod [unfolded id_def])

lemma sort_sort_key: "sort_key f (sort_key f xs) = sort_key f xs"
  by (simp add: sort_key_id_if_sorted)

primrec emit :: "(rat \<Rightarrow> string) \<Rightarrow> json \<Rightarrow> string" where
  "emit fl JNull = ''null''"
| "emit fl (JBool b) = (if b then ''true'' else ''false'')"
| "emit fl (JInt i) = int_str i"
| "emit fl (JFloat q) = fl q"
| "emit fl (JStr s) = json_string s"
| "emit fl (JArr xs) = ''['' @ join '','' (map (emit fl) xs) @ '']''"
| "emit fl (JObj kvs) = ''{'' @ join '','' (map (\<lambda>(k, s). json_string k @ '':'' @ s)
     (map (map_prod id (emit fl)) kvs)) @ ''}''"

lemma dumps_emit: "dumps fl j = emit fl (canon j)"
proof (induction j)
  case (JArr xs)
  then have "map (dumps fl) xs = map (emit fl) (map canon xs)" by simp
  then show ?case by (simp only: dumps.simps canon.simps emit.simps)
next
  case (JObj kvs)
  then have "map (map_prod id (dumps fl)) kvs = map (map_prod id (emit fl)) (map (map_prod id canon) kvs)"
    by (auto simp: snds.simps)
  then show ?case by (simp only: dumps.simps canon.simps emit.simps sort_map_prod)
qed simp_all

section \<open>The text determines the value\<close>

text \<open>A reader for one escaped character, the left inverse of \<open>json_escape\<close>.\<close>

definition unhex :: "char \<Rightarrow> nat" where
  "unhex c = (let n = of_char c in if n < 58 then n - 48 else n - 87)"

fun unescape1 :: "string \<Rightarrow> char \<times> string" where
  "unescape1 [] = (CHR 0x22, [])"
| "unescape1 (x # r) =
     (if x \<noteq> CHR 0x5C then (x, r)
      else case r of
        [] \<Rightarrow> (x, [])
      | y # r' \<Rightarrow>
          if y = CHR ''n'' then (char_of (10::nat), r')
          else if y = CHR ''r'' then (char_of (13::nat), r')
          else if y = CHR ''t'' then (char_of (9::nat), r')
          else if y = CHR ''f'' then (char_of (12::nat), r')
          else if y = CHR ''b'' then (char_of (8::nat), r')
          else if y = CHR ''u'' then (char_of (16 * unhex (r' ! 2) + unhex (r' ! 3)), drop 4 r')
          else (y, r'))"

lemma unhex_hex: "n < 16 \<Longrightarrow> unhex (hex_digit n) = n"
  by (simp add: unhex_def hex_digit_def Let_def)

lemma char_code: "of_char c = n \<Longrightarrow> c = char_of (n::nat)"
  by (metis char_of_char)

lemma quote_codes: "char_of (34::nat) = CHR 0x22" "char_of (92::nat) = CHR 0x5C"
  by code_simp+

lemma unescape1_escape: "unescape1 (json_escape c @ u) = (c, u)"
proof -
  have "16 * (of_char c div 16) + of_char c mod 16 = (of_char c :: nat)" by simp
  moreover have "of_char c div 16 < (16::nat)" using of_char_mod_256 [of c] by (simp add: less_mult_imp_div_less)
  ultimately have hex: "char_of (16 * unhex (hex_digit (of_char c div 16)) + unhex (hex_digit (of_char c mod 16))) = c"
    by (simp add: unhex_hex)
  show ?thesis
  proof (cases "of_char c \<in> {34, 92, 10, 13, 9, 12, 8::nat}")
    case True
    then show ?thesis by (auto simp: json_escape_def quote_codes dest!: char_code)
  next
    case False
    then have "c \<noteq> CHR 0x5C" by auto
    with False hex show ?thesis by (auto simp: json_escape_def Let_def nth_Cons')
  qed
qed

lemma json_escape_inject: "json_escape c @ u = json_escape d @ v \<Longrightarrow> c = d \<and> u = v"
  by (metis unescape1_escape prod.inject)

lemma json_escape_hd: "\<exists>x xs. json_escape c = x # xs \<and> x \<noteq> CHR 0x22"
  by (auto simp: json_escape_def Let_def)

lemma json_string_inject:
  assumes "json_string a @ r = json_string b @ s"
  shows "a = b \<and> r = s"
proof -
  have "a = b \<and> r = s" if "concat (map json_escape a) @ CHR 0x22 # r = concat (map json_escape b) @ CHR 0x22 # s"
    using that
  proof (induction a arbitrary: b)
    case Nil
    show ?case
    proof (cases b)
      case (Cons d b')
      with Nil json_escape_hd [of d] show ?thesis by auto
    qed (use Nil in simp)
  next
    case (Cons c a)
    show ?case
    proof (cases b)
      case Nil
      with Cons.prems json_escape_hd [of c] show ?thesis by auto
    next
      case (Cons d b')
      with Cons.prems have "json_escape c @ (concat (map json_escape a) @ CHR 0x22 # r) =
          json_escape d @ (concat (map json_escape b') @ CHR 0x22 # s)" by simp
      from json_escape_inject [OF this] Cons.IH [of b'] Cons show ?thesis by simp
    qed
  qed
  with assms show ?thesis by (simp add: json_string_def)
qed

definition delim :: "string \<Rightarrow> bool" where
  "delim r \<longleftrightarrow> r = [] \<or> hd r \<in> {CHR '','', CHR '']'', CHR ''}''}"

lemma digits_prefix:
  assumes "xs @ r = ys @ s" "\<forall>c \<in> set xs. P c" "\<forall>c \<in> set ys. P c" "r = [] \<or> \<not> P (hd r)" "s = [] \<or> \<not> P (hd s)"
  shows "xs = ys \<and> r = s"
  using assms
proof (induction xs arbitrary: ys)
  case Nil
  then show ?case by (cases ys) auto
next
  case (Cons x xs)
  then show ?case by (cases ys) auto
qed

lemma delim_no_digit: "delim r \<Longrightarrow> r = [] \<or> \<not> is_digit (hd r)"
  by (auto simp: delim_def is_digit_def)

lemma int_str_inject:
  assumes "int_str i @ r = int_str j @ s" "delim r" "delim s"
  shows "i = j \<and> r = s"
proof -
  have nat: "m = n \<and> r = s" if "nat_str m @ r = nat_str n @ s" for m n
    using digits_prefix [OF that, of is_digit] nat_str_digits delim_no_digit assms(2,3) by auto
  have minus: "nat_str m @ u \<noteq> CHR ''-'' # v" for m u v
    using nat_str_digits [of "hd (nat_str m)" m] by (cases "nat_str m") (auto simp: is_digit_def)
  show ?thesis
  proof (cases "i < 0"; cases "j < 0")
    assume "i < 0" "j < 0"
    with assms(1) nat [of "nat (- i)" "nat (- j)"] show ?thesis by (simp add: int_str_def eq_nat_nat_iff)
  next
    assume "\<not> i < 0" "\<not> j < 0"
    with assms(1) nat [of "nat i" "nat j"] show ?thesis by (simp add: int_str_def eq_nat_nat_iff)
  next
    assume "i < 0" "\<not> j < 0"
    with assms(1) minus [of "nat j" s] show ?thesis by (simp add: int_str_def) metis
  next
    assume "\<not> i < 0" "j < 0"
    with assms(1) minus [of "nat i" r] show ?thesis by (simp add: int_str_def)
  qed
qed

lemma join_Cons: "join sep (w # ws) = w @ (if ws = [] then [] else sep @ join sep ws)"
  by (cases ws) simp_all

text \<open>A printer of items that is injective before a delimiter, and starts with no closing bracket,
  prints comma separated lists injectively.\<close>

lemma join_inject:
  assumes inj: "\<And>x y r s. x \<in> set xs \<Longrightarrow> P y \<Longrightarrow> g x @ r = g y @ s \<Longrightarrow> delim r \<Longrightarrow> delim s \<Longrightarrow> x = y \<and> r = s"
    and start: "\<And>x. x \<in> set xs \<or> P x \<Longrightarrow> \<exists>c cs. g x = c # cs \<and> c \<notin> {CHR '']'', CHR ''}''}"
    and close: "c \<in> {CHR '']'', CHR ''}''}" and ys: "\<forall>y \<in> set ys. P y"
    and eq: "join '','' (map g xs) @ c # r = join '','' (map g ys) @ c # s"
  shows "xs = ys \<and> r = s"
  using inj start ys eq
proof (induction xs arbitrary: ys)
  case Nil
  show ?case
  proof (cases ys)
    case (Cons y ys')
    with Nil.prems(3) Nil.prems(2) [of y] obtain d cs where "g y = d # cs" "d \<notin> {CHR '']'', CHR ''}''}" by auto
    with Nil.prems(4) Cons close show ?thesis by (auto simp: join_Cons)
  qed (use Nil.prems in simp)
next
  case (Cons x xs)
  show ?case
  proof (cases ys)
    case Nil
    from Cons.prems(2) [of x] obtain d cs where "g x = d # cs" "d \<notin> {CHR '']'', CHR ''}''}" by auto
    with Cons.prems(4) Nil close show ?thesis by (auto simp: join_Cons)
  next
    case ys: (Cons y ys')
    let ?rest = "\<lambda>zs t. (if map g zs = [] then [] else '','' @ join '','' (map g zs)) @ c # t"
    have "g x @ ?rest xs r = g y @ ?rest ys' s" using Cons.prems(4) ys by (simp add: join_Cons)
    moreover have "delim (?rest zs t)" for zs t using close by (auto simp: delim_def)
    ultimately have xy: "x = y" "?rest xs r = ?rest ys' s"
      using Cons.prems(1) [of x y "?rest xs r" "?rest ys' s"] Cons.prems(3) ys by (simp_all only: list.set_intros)
    have "join '','' (map g xs) @ c # r = join '','' (map g ys') @ c # s"
      using xy(2) close by (auto split: if_splits)
    with Cons.IH [of ys'] Cons.prems(1-3) ys have "xs = ys' \<and> r = s" by (auto simp del: append_eq_Cons_conv)
    with xy(1) ys show ?thesis by simp
  qed
qed

primrec floatless :: "json \<Rightarrow> bool" where
  "floatless JNull = True"
| "floatless (JBool b) = True"
| "floatless (JInt i) = True"
| "floatless (JFloat q) = False"
| "floatless (JStr s) = True"
| "floatless (JArr xs) = list_all (\<lambda>b. b) (map floatless xs)"
| "floatless (JObj kvs) = list_all snd (map (map_prod id floatless) kvs)"

lemma int_str_hd: "\<exists>c cs. int_str i = c # cs \<and> (is_digit c \<or> c = CHR ''-'')"
  using nat_str_digits [of "hd (nat_str (nat i))" "nat i"]
  by (cases "nat_str (nat i)") (auto simp: int_str_def)

lemma emit_hd: "floatless j \<Longrightarrow> \<exists>c cs. emit fl j = c # cs \<and> c \<notin> {CHR '']'', CHR ''}''}"
  using int_str_hd [of "case j of JInt i \<Rightarrow> i"] by (cases j) (auto simp: json_string_def is_digit_def)

lemma emit_inject:
  assumes "floatless a" "floatless b" "emit fl a @ r = emit fl b @ s" "delim r" "delim s"
  shows "a = b \<and> r = s"
  using assms
proof (induction a arbitrary: b r s)
  case JNull
  show ?case
  proof (cases b)
    case (JInt j)
    with JNull.prems int_str_hd [of j] show ?thesis by (auto simp: is_digit_def split: if_splits)
  qed (use JNull.prems in \<open>auto simp: json_string_def split: if_splits\<close>)
next
  case (JBool x)
  show ?case
  proof (cases b)
    case (JInt j)
    with JBool.prems int_str_hd [of j] show ?thesis by (auto simp: is_digit_def split: if_splits)
  qed (use JBool.prems in \<open>auto simp: json_string_def split: if_splits\<close>)
next
  case (JInt i)
  obtain c cs where i: "int_str i = c # cs" "is_digit c \<or> c = CHR ''-''" using int_str_hd by blast
  show ?case
  proof (cases b)
    case (JInt j)
    with int_str_inject [of i r j s] JInt.prems show ?thesis by simp
  qed (use JInt.prems i in \<open>auto simp: json_string_def is_digit_def split: if_splits\<close>)
next
  case (JStr x)
  show ?case
  proof (cases b)
    case (JStr y)
    with json_string_inject [of x r y s] JStr.prems show ?thesis by simp
  next
    case (JInt j)
    with JStr.prems int_str_hd [of j] show ?thesis by (auto simp: json_string_def is_digit_def)
  qed (use JStr.prems in \<open>auto simp: json_string_def split: if_splits\<close>)
next
  case (JArr xs)
  show ?case
  proof (cases b)
    case (JArr ys)
    have "xs = ys \<and> r = s"
    proof (rule join_inject [where P = floatless and g = "emit fl" and c = "CHR '']''"])
      fix x y u v assume "x \<in> set xs" "floatless y" "emit fl x @ u = emit fl y @ v" "delim u" "delim v"
      with JArr.IH [of x y u v] JArr.prems(1) show "x = y \<and> u = v" by (auto simp: list_all_iff)
    next
      fix x assume "x \<in> set xs \<or> floatless x"
      with JArr.prems(1) show "\<exists>c cs. emit fl x = c # cs \<and> c \<notin> {CHR '']'', CHR ''}''}"
        by (intro emit_hd) (auto simp: list_all_iff)
    qed (use JArr.prems JArr in \<open>auto simp: list_all_iff\<close>)
    with JArr show ?thesis by simp
  next
    case (JInt j)
    with JArr.prems int_str_hd [of j] show ?thesis by (auto simp: is_digit_def)
  qed (use JArr.prems in \<open>auto simp: json_string_def split: if_splits\<close>)
next
  case (JObj kvs)
  let ?g = "\<lambda>(k, v). json_string k @ '':'' @ emit fl v"
  have maps: "map (\<lambda>(k, s). json_string k @ '':'' @ s) (map (map_prod id (emit fl)) zs) = map ?g zs" for zs
    by (induction zs) auto
  show ?case
  proof (cases b)
    case (JObj kws)
    have "kvs = kws \<and> r = s"
    proof (rule join_inject [where P = "\<lambda>(k, v). floatless v" and g = ?g and c = "CHR ''}''"])
      fix x y u v assume x: "x \<in> set kvs" "case y of (k, v) \<Rightarrow> floatless v" "?g x @ u = ?g y @ v" "delim u" "delim v"
      obtain k w k' w' where xy: "x = (k, w)" "y = (k', w')" by fastforce
      from x(3) xy json_string_inject [of k _ k'] have "k = k'" "emit fl w @ u = emit fl w' @ v" by auto
      moreover have "floatless w" using JObj.prems(1) x(1) xy by (auto simp: list_all_iff)
      ultimately have "k = k' \<and> w = w' \<and> u = v"
        using JObj.IH [of x w w' u v] x xy by simp
      with xy show "x = y \<and> u = v" by simp
    next
      fix x assume "x \<in> set kvs \<or> (case x of (k, v) \<Rightarrow> floatless v)"
      show "\<exists>c cs. ?g x = c # cs \<and> c \<notin> {CHR '']'', CHR ''}''}" by (cases x) (simp add: json_string_def)
    next
      show "join '','' (map ?g kvs) @ CHR ''}'' # r = join '','' (map ?g kws) @ CHR ''}'' # s"
        using JObj.prems(3) JObj by (simp only: emit.simps maps) simp
    qed (use JObj.prems JObj in \<open>auto simp: list_all_iff\<close>)
    with JObj show ?thesis by simp
  next
    case (JInt j)
    with JObj.prems int_str_hd [of j] show ?thesis by (auto simp: is_digit_def)
  qed (use JObj.prems in \<open>auto simp: json_string_def split: if_splits\<close>)
qed simp

lemma floatless_canon: "floatless (canon j) = floatless j"
  by (induction j) (auto simp: list_all_iff)

lemma dumps_inject:
  assumes "floatless a" "floatless b"
  shows "dumps fl a = dumps fl b \<longleftrightarrow> canon a = canon b"
  using emit_inject [of "canon a" "canon b" fl "[]" "[]"] assms by (auto simp: dumps_emit floatless_canon delim_def)

end
