(* ===== verification/Topology_Hash.thy ===== *)
theory Topology_Hash
  imports Topology_Persistence Json_Dumps
begin

text \<open>
  The applied-state hash of a topology (\<open>decnet/topology/hashing.py\<close>) and the JSON form of a
  hydrated topology, the dump of its read models (\<open>TopologySummary\<close>, \<open>LANRow\<close>, \<open>DeckyRow\<close>,
  \<open>EdgeRow\<close>).  SHA-256 is the argument \<open>sha\<close>, the text of floats, keys and times are the arguments
  \<open>fl\<close>, \<open>id_str\<close> and \<open>ts\<close>.  Up to collisions of \<open>sha\<close>, two values have the same hash exactly when
  they are equal after the volatile keys are dropped and keys are ordered.
\<close>

definition VOLATILE_KEYS :: "string list" where
  "VOLATILE_KEYS = [''created_at'', ''status_changed_at'', ''updated_at'', ''last_seen'', ''status'', ''version'',
     ''last_error'', ''x'', ''y'', ''w'', ''h'']"

primrec strip_volatile :: "json \<Rightarrow> json" where
  "strip_volatile JNull = JNull"
| "strip_volatile (JBool b) = JBool b"
| "strip_volatile (JInt i) = JInt i"
| "strip_volatile (JFloat q) = JFloat q"
| "strip_volatile (JStr s) = JStr s"
| "strip_volatile (JArr xs) = JArr (map strip_volatile xs)"
| "strip_volatile (JObj kvs) = JObj (filter (\<lambda>(k, _). k \<notin> set VOLATILE_KEYS) (map (map_prod id strip_volatile) kvs))"

definition canonical_hash :: "(string \<Rightarrow> string) \<Rightarrow> (rat \<Rightarrow> string) \<Rightarrow> json \<Rightarrow> string" where
  "canonical_hash sha fl hydrated = sha (dumps fl (strip_volatile hydrated))"

text \<open>\<open>model_dump(mode="json")\<close> of the four read models.\<close>

definition json_opt :: "('a \<Rightarrow> json) \<Rightarrow> 'a option \<Rightarrow> json" where
  "json_opt f x = (case x of None \<Rightarrow> JNull | Some v \<Rightarrow> f v)"

definition json_key :: "string \<Rightarrow> ('a \<Rightarrow> json) \<Rightarrow> 'a option \<Rightarrow> jdict" where
  "json_key k f x = (case x of None \<Rightarrow> [] | Some v \<Rightarrow> [(k, f v)])"

definition json_dict :: "('a \<Rightarrow> json) \<Rightarrow> (string, 'a) dict \<Rightarrow> json" where
  "json_dict f d = JObj (map (map_prod id f) d)"

definition topology_json :: "(nat \<Rightarrow> string) \<Rightarrow> (nat \<Rightarrow> string) \<Rightarrow> topology_row \<Rightarrow> json" where
  "topology_json id_str ts t = JObj
     [(''id'', JStr (id_str (t_id t))), (''name'', JStr (t_name t)), (''mode'', JStr (t_mode t)),
      (''target_host_uuid'', json_opt JStr (t_target_host_uuid t)), (''status'', JStr (t_status t)),
      (''version'', JInt (t_version t)), (''needs_resync'', JBool (t_needs_resync t)),
      (''created_at'', JStr (ts (t_created_at t))), (''status_changed_at'', JStr (ts (t_status_changed_at t))),
      (''email_personas'', JStr (t_email_personas t)), (''language_default'', JStr (t_language_default t))]"

definition lan_json :: "(nat \<Rightarrow> string) \<Rightarrow> lan_row \<Rightarrow> json" where
  "lan_json id_str l = JObj
     [(''id'', JStr (id_str (l_id l))), (''topology_id'', JStr (id_str (l_topology_id l))), (''name'', JStr (l_name l)),
      (''subnet'', JStr (l_subnet l)), (''is_dmz'', JBool (l_is_dmz l)),
      (''docker_network_id'', json_opt JStr (l_docker_network_id l)), (''x'', json_opt JFloat (l_x l)),
      (''y'', json_opt JFloat (l_y l))]"

definition config_json :: "decky_config \<Rightarrow> json" where
  "config_json c = JObj
     (json_key ''name'' JStr (dc_name c) @ json_key ''services'' (\<lambda>s. JArr (map JStr s)) (dc_services c) @
      json_key ''ips_by_lan'' (json_dict JStr) (dc_ips_by_lan c) @ json_key ''forwards_l3'' JBool (dc_forwards_l3 c) @
      json_key ''service_config'' (json_dict (json_dict JStr)) (dc_service_config c) @
      json_key ''archetype'' JStr (dc_archetype c))"

definition decky_json :: "(nat \<Rightarrow> string) \<Rightarrow> decky_row \<Rightarrow> json" where
  "decky_json id_str d = JObj
     [(''uuid'', JStr (id_str (d_uuid d))), (''topology_id'', JStr (id_str (d_topology_id d))), (''name'', JStr (d_name d)),
      (''services'', JArr (map JStr (d_services d))), (''decky_config'', json_opt config_json (d_decky_config d)),
      (''ip'', json_opt JStr (d_ip d)), (''state'', JStr (d_state d)), (''last_error'', json_opt JStr (d_last_error d)),
      (''x'', json_opt JFloat (d_x d)), (''y'', json_opt JFloat (d_y d))]"

definition edge_json :: "(nat \<Rightarrow> string) \<Rightarrow> edge_row \<Rightarrow> json" where
  "edge_json id_str e = JObj
     [(''id'', JStr (id_str (e_id e))), (''topology_id'', JStr (id_str (e_topology_id e))),
      (''decky_uuid'', JStr (id_str (e_decky_uuid e))), (''lan_id'', JStr (id_str (e_lan_id e))),
      (''is_bridge'', JBool (e_is_bridge e)), (''forwards_l3'', JBool (e_forwards_l3 e))]"

definition hydrated_json :: "(nat \<Rightarrow> string) \<Rightarrow> (nat \<Rightarrow> string) \<Rightarrow> hydrated \<Rightarrow> json" where
  "hydrated_json id_str ts h = JObj
     [(''topology'', topology_json id_str ts (h_topology h)), (''lans'', JArr (map (lan_json id_str) (h_lans h))),
      (''deckies'', JArr (map (decky_json id_str) (h_deckies h))), (''edges'', JArr (map (edge_json id_str) (h_edges h)))]"

record hash_env =
  he_sha :: "string \<Rightarrow> string"
  he_fl :: "rat \<Rightarrow> string"
  he_id :: "nat \<Rightarrow> string"
  he_ts :: "nat \<Rightarrow> string"

definition topology_hash :: "hash_env \<Rightarrow> hydrated \<Rightarrow> string" where
  "topology_hash e h = canonical_hash (he_sha e) (he_fl e) (hydrated_json (he_id e) (he_ts e) h)"

section \<open>What the hash tells apart\<close>

lemma canonical_hash_iff:
  assumes "floatless (strip_volatile a)" "floatless (strip_volatile b)"
    and "sha (dumps fl (strip_volatile a)) = sha (dumps fl (strip_volatile b)) \<Longrightarrow>
      dumps fl (strip_volatile a) = dumps fl (strip_volatile b)"
  shows "canonical_hash sha fl a = canonical_hash sha fl b \<longleftrightarrow> canon (strip_volatile a) = canon (strip_volatile b)"
  using dumps_inject [OF assms(1,2), of fl] assms(3) by (auto simp: canonical_hash_def)

lemmas volatile_simps = VOLATILE_KEYS_def json_opt_def json_key_def json_dict_def list_all_iff

lemma floatless_opt: "(\<And>v. x = Some v \<Longrightarrow> floatless (strip_volatile (f v))) \<Longrightarrow> floatless (strip_volatile (json_opt f x))"
  by (cases x) (simp_all add: json_opt_def)

lemma floatless_JObj:
  "list_all (\<lambda>(k, v). k \<in> set VOLATILE_KEYS \<or> floatless (strip_volatile v)) kvs \<Longrightarrow> floatless (strip_volatile (JObj kvs))"
  by (fastforce simp: list_all_iff)

lemma floatless_JArr: "(\<And>x. x \<in> set xs \<Longrightarrow> floatless (strip_volatile x)) \<Longrightarrow> floatless (strip_volatile (JArr xs))"
  by (auto simp: list_all_iff)

lemma floatless_dict: "(\<And>v. floatless (strip_volatile (f v))) \<Longrightarrow> floatless (strip_volatile (json_dict f d))"
  unfolding json_dict_def by (rule floatless_JObj) (auto simp: list_all_iff)

lemma floatless_key:
  "(\<And>v. floatless (strip_volatile (f v))) \<Longrightarrow>
   list_all (\<lambda>(k, v). k \<in> set VOLATILE_KEYS \<or> floatless (strip_volatile v)) (json_key k' f x)"
  by (cases x) (simp_all add: json_key_def)

lemma floatless_config: "floatless (strip_volatile (config_json c))"
  unfolding config_json_def
  by (intro floatless_JObj) (simp only: list_all_append, intro conjI floatless_key floatless_dict floatless_JArr; auto)

lemma floatless_hydrated: "floatless (strip_volatile (hydrated_json id_str ts h))"
proof -
  have opt: "floatless (strip_volatile (json_opt JStr x))" for x by (rule floatless_opt) simp
  have cfg: "floatless (strip_volatile (json_opt config_json x))" for x by (rule floatless_opt) (rule floatless_config)
  have pos: "''x'' \<in> set VOLATILE_KEYS" "''y'' \<in> set VOLATILE_KEYS" by (simp_all add: VOLATILE_KEYS_def)
  have arr: "floatless (strip_volatile (JArr (map JStr xs)))" for xs by (rule floatless_JArr) auto
  have "floatless (strip_volatile (topology_json id_str ts t))" for t
    unfolding topology_json_def by (rule floatless_JObj) (simp add: opt)
  moreover have "floatless (strip_volatile (lan_json id_str l))" for l
    unfolding lan_json_def by (rule floatless_JObj) (simp add: opt pos)
  moreover have "floatless (strip_volatile (decky_json id_str d))" for d
    unfolding decky_json_def by (rule floatless_JObj) (simp add: opt pos arr cfg del: strip_volatile.simps(6) add: strip_volatile.simps(5))
  moreover have "floatless (strip_volatile (edge_json id_str e))" for e
    unfolding edge_json_def by (rule floatless_JObj) simp
  ultimately show ?thesis
    unfolding hydrated_json_def
    by (intro floatless_JObj) (auto intro!: floatless_JArr simp del: strip_volatile.simps)
qed

lemma canon_JObj_set:
  "canon (JObj a) = canon (JObj b) \<Longrightarrow> map_prod id canon ` set a = map_prod id canon ` set b"
proof -
  assume "canon (JObj a) = canon (JObj b)"
  then have "set (sort_key fst (map (map_prod id canon) a)) = set (sort_key fst (map (map_prod id canon) b))"
    by (simp only: canon.simps json.inject)
  then show ?thesis by (simp only: set_sort set_map)
qed

lemma canon_JObj_lookup:
  assumes "canon (JObj a) = canon (JObj b)" "(k, v) \<in> set a" "\<And>w. (k, w) \<in> set b \<Longrightarrow> w = v'"
  shows "canon v = canon v'"
proof -
  have "(k, canon v) \<in> map_prod id canon ` set b"
    using canon_JObj_set [OF assms(1)] assms(2) by (force simp: image_iff)
  with assms(3) show ?thesis by auto
qed

text \<open>A change of status, version, times or canvas positions does not show.\<close>

definition same_deployment :: "hydrated \<Rightarrow> hydrated \<Rightarrow> bool" where
  "same_deployment h h' \<longleftrightarrow>
     (h_topology h)\<lparr>t_status := [], t_version := 0, t_created_at := 0, t_status_changed_at := 0, t_config_snapshot := None\<rparr> =
     (h_topology h')\<lparr>t_status := [], t_version := 0, t_created_at := 0, t_status_changed_at := 0, t_config_snapshot := None\<rparr> \<and>
     map (\<lambda>l. l\<lparr>l_x := None, l_y := None\<rparr>) (h_lans h) = map (\<lambda>l. l\<lparr>l_x := None, l_y := None\<rparr>) (h_lans h') \<and>
     map (\<lambda>d. d\<lparr>d_last_error := None, d_compose_hash := None, d_last_seen := None, d_updated_at := 0, d_x := None, d_y := None\<rparr>) (h_deckies h) =
     map (\<lambda>d. d\<lparr>d_last_error := None, d_compose_hash := None, d_last_seen := None, d_updated_at := 0, d_x := None, d_y := None\<rparr>) (h_deckies h') \<and>
     h_edges h = h_edges h'"

lemma strip_topology_json:
  "strip_volatile (topology_json id_str ts (t\<lparr>t_status := s, t_version := v, t_created_at := c,
     t_status_changed_at := cc, t_config_snapshot := cs\<rparr>)) = strip_volatile (topology_json id_str ts t)"
  by (simp add: topology_json_def volatile_simps)

lemma strip_lan_json: "strip_volatile (lan_json id_str (l\<lparr>l_x := x, l_y := y\<rparr>)) = strip_volatile (lan_json id_str l)"
  by (simp add: lan_json_def volatile_simps)

lemma strip_decky_json:
  "strip_volatile (decky_json id_str (d\<lparr>d_last_error := a, d_compose_hash := b, d_last_seen := c, d_updated_at := u, d_x := x, d_y := y\<rparr>)) =
   strip_volatile (decky_json id_str d)"
  by (simp add: decky_json_def volatile_simps)

lemma same_deployment_hash:
  assumes "same_deployment h h'"
  shows "topology_hash e h = topology_hash e h'"
proof -
  have "strip_volatile (topology_json (he_id e) (he_ts e) (h_topology h)) = strip_volatile (topology_json (he_id e) (he_ts e) (h_topology h'))"
    using assms strip_topology_json unfolding same_deployment_def by metis
  moreover have "map (strip_volatile \<circ> lan_json (he_id e)) (h_lans h) = map (strip_volatile \<circ> lan_json (he_id e)) (h_lans h')"
  proof -
    have "map (strip_volatile \<circ> lan_json (he_id e)) ls =
        map (strip_volatile \<circ> lan_json (he_id e)) (map (\<lambda>l. l\<lparr>l_x := None, l_y := None\<rparr>) ls)" for ls
      by (simp add: strip_lan_json)
    with assms show ?thesis unfolding same_deployment_def by metis
  qed
  moreover have "map (strip_volatile \<circ> decky_json (he_id e)) (h_deckies h) = map (strip_volatile \<circ> decky_json (he_id e)) (h_deckies h')"
  proof -
    have "map (strip_volatile \<circ> decky_json (he_id e)) ds = map (strip_volatile \<circ> decky_json (he_id e))
        (map (\<lambda>d. d\<lparr>d_last_error := None, d_compose_hash := None, d_last_seen := None, d_updated_at := 0, d_x := None, d_y := None\<rparr>) ds)" for ds
      by (simp add: strip_decky_json)
    with assms show ?thesis unfolding same_deployment_def by metis
  qed
  ultimately show ?thesis
    using assms by (simp add: topology_hash_def canonical_hash_def hydrated_json_def VOLATILE_KEYS_def same_deployment_def)
qed

text \<open>The resync flag is not a volatile key: it shows.\<close>

lemma resync_flag_in_hash:
  assumes "t_needs_resync (h_topology h) \<noteq> t_needs_resync (h_topology h')"
  shows "canon (strip_volatile (hydrated_json id_str ts h)) \<noteq> canon (strip_volatile (hydrated_json id_str ts h'))"
proof
  assume eq: "canon (strip_volatile (hydrated_json id_str ts h)) = canon (strip_volatile (hydrated_json id_str ts h'))"
  let ?T = "\<lambda>h. strip_volatile (topology_json id_str ts (h_topology h))"
  have "canon (?T h) = canon (?T h')"
    by (rule canon_JObj_lookup [OF eq [unfolded hydrated_json_def strip_volatile.simps], of "''topology''"])
      (auto simp: VOLATILE_KEYS_def)
  then have "canon (JBool (t_needs_resync (h_topology h))) = canon (JBool (t_needs_resync (h_topology h')))"
    unfolding topology_json_def strip_volatile.simps
    by (rule canon_JObj_lookup [where k = "''needs_resync''"]) (auto simp: VOLATILE_KEYS_def)
  with assms show False by simp
qed

text \<open>The keys are dropped at every level, also where they are names of LANs: a LAN called \<open>x\<close>
  hides the addresses of all deckies on it.\<close>

definition readdress :: "string \<Rightarrow> string \<Rightarrow> decky_row \<Rightarrow> decky_row" where
  "readdress lan ip d = d\<lparr>d_decky_config := map_option (\<lambda>c.
     c\<lparr>dc_ips_by_lan := map_option (AList.update lan ip) (dc_ips_by_lan c)\<rparr>) (d_decky_config d)\<rparr>"

lemma strip_dict_update:
  "k \<in> set VOLATILE_KEYS \<Longrightarrow> strip_volatile (json_dict f (AList.update k v d)) = strip_volatile (json_dict f d)"
  unfolding json_dict_def strip_volatile.simps by (induction d) auto

lemma strip_readdress:
  assumes "lan \<in> set VOLATILE_KEYS"
  shows "strip_volatile (decky_json id_str (readdress lan ip d)) = strip_volatile (decky_json id_str d)"
proof -
  have "strip_volatile (config_json (c\<lparr>dc_ips_by_lan := map_option (AList.update lan ip) (dc_ips_by_lan c)\<rparr>)) =
      strip_volatile (config_json c)" for c
    using strip_dict_update [OF assms, of JStr ip]
    by (cases "dc_ips_by_lan c") (simp_all add: config_json_def json_key_def VOLATILE_KEYS_def)
  then show ?thesis
    by (cases "d_decky_config d") (simp_all add: decky_json_def readdress_def json_opt_def VOLATILE_KEYS_def)
qed

lemma hash_hides_address:
  assumes "lan \<in> set VOLATILE_KEYS"
  shows "topology_hash e (h\<lparr>h_deckies := map (readdress lan ip) (h_deckies h)\<rparr>) = topology_hash e h"
  by (simp add: topology_hash_def canonical_hash_def hydrated_json_def VOLATILE_KEYS_def comp_def strip_readdress [OF assms])

end
