(* ===== verification/Topology_Deploy.thy ===== *)
theory Topology_Deploy
  imports Mutator_Engine Topology_Hash
begin

text \<open>
  Deployment and teardown of a topology (the second half of \<open>decnet/engine/deployer.py\<close>), on the
  world of the live mutations.  Docker's SDK answers through \<open>env_docker\<close> as before; a run of
  \<open>docker compose\<close> answers through \<open>dep_proc\<close> (exit code and error text, or no executable), and the
  other things outside the program are further fields of \<open>deploy_env\<close>: leaked build mounts, the
  compose file's existence, the rows of \<open>docker compose ps\<close>, the enrolled hosts, the bound ports.
  The text of the recovery hint (\<open>dep_hint\<close>) and of an exception (\<open>dep_reason\<close>) are arguments.  The
  best-effort seeding of canary tokens, after the status is written, is left out.
\<close>

section \<open>Running compose\<close>

datatype proc_reply = ProcExit nat string | ProcMissing

record ps_row =
  ps_name :: string
  ps_service :: string
  ps_state :: string
  ps_exit :: "string option"

record deploy_env =
  dep_env :: mutator_env
  dep_hash :: hash_env
  dep_proc :: "docker_cmd list \<Rightarrow> docker_cmd \<Rightarrow> proc_reply"
  dep_mounts :: "docker_cmd list \<Rightarrow> nat"
  dep_file :: "docker_cmd list \<Rightarrow> nat \<Rightarrow> bool"
  dep_ps :: "docker_cmd list \<Rightarrow> ps_row list"
  dep_bound :: "nat set option"
  dep_host :: "string \<Rightarrow> bool"
  dep_hint :: "nat \<Rightarrow> string \<Rightarrow> string"
  dep_reason :: "exn \<Rightarrow> string"

definition PERMANENT_ERRORS :: "string list" where
  "PERMANENT_ERRORS = [''manifest unknown'', ''manifest for'', ''not found'', ''pull access denied'', ''repository does not exist'']"

definition BUILDKIT_MOUNT_THRESHOLD :: nat where
  "BUILDKIT_MOUNT_THRESHOLD = 10"

definition topology_compose_project :: "deploy_env \<Rightarrow> nat \<Rightarrow> string" where
  "topology_compose_project env tid = ''decnet-topo-'' @ take 8 (env_id_str (dep_env env) tid)"

definition sleep :: "nat \<Rightarrow> (unit, world) op" where
  "sleep delay w = (Inr (), w\<lparr>w_docker := w_docker w @ [Sleep delay]\<rparr>)"

definition run_proc :: "deploy_env \<Rightarrow> docker_cmd \<Rightarrow> (nat \<times> string, world) op" where
  "run_proc env c w =
     ((case dep_proc env (w_docker w) c of ProcMissing \<Rightarrow> Inl FileNotFoundError | ProcExit rc err \<Rightarrow> Inr (rc, err)),
      w\<lparr>w_docker := w_docker w @ [c]\<rparr>)"

definition compose :: "deploy_env \<Rightarrow> string \<Rightarrow> string list \<Rightarrow> (unit, world) op" where
  "compose env project args =
     bindS (run_proc env (ComposeCli project args)) (\<lambda>(rc, err).
       if rc \<noteq> 0 then raiseS (CalledProcessError err) else returnS ())"

definition permanent_error :: "string \<Rightarrow> bool" where
  "permanent_error err \<longleftrightarrow> list_ex (\<lambda>pat. contains pat (lower err)) PERMANENT_ERRORS"

definition buildx_wedged :: "string \<Rightarrow> bool" where
  "buildx_wedged err \<longleftrightarrow> contains BUILDX_WEDGE_SIGNATURE (lower err) \<and> contains BUILDX_EROFS_SIGNATURE (lower err)"

definition leaked_mounts :: "deploy_env \<Rightarrow> (nat, world) op" where
  "leaked_mounts env w = (Inr (dep_mounts env (w_docker w)), w)"

text \<open>The loop over the attempts; \<open>left\<close> counts the attempts after this one.\<close>

fun compose_attempts :: "deploy_env \<Rightarrow> docker_cmd \<Rightarrow> nat \<Rightarrow> nat \<Rightarrow> exn \<Rightarrow> (unit, world) op" where
  "compose_attempts env c 0 delay last_exc = raiseS last_exc"
| "compose_attempts env c (Suc left) delay last_exc =
     bindS (run_proc env c) (\<lambda>(rc, err).
       if rc = 0 then returnS ()
       else if permanent_error err then raiseS (CalledProcessError err)
       else if buildx_wedged err then
         bindS (leaked_mounts env) (\<lambda>leaked. raiseS (CalledProcessError (dep_hint env leaked err)))
       else if left > 0 then
         bindS (sleep delay) (\<lambda>_. compose_attempts env c left (2 * delay) (CalledProcessError err))
       else raiseS (CalledProcessError err))"

definition compose_with_retry :: "deploy_env \<Rightarrow> nat \<Rightarrow> string \<Rightarrow> string list \<Rightarrow> (unit, world) op" where
  "compose_with_retry env retries project args =
     bindS (if ''--build'' \<in> set args \<or> ''build'' \<in> set args then leaked_mounts env else returnS 0) (\<lambda>leaked.
       if BUILDKIT_MOUNT_THRESHOLD \<le> leaked then raiseS (CalledProcessError (dep_hint env leaked []))
       else compose_attempts env (ComposeCli project args) retries 5 RuntimeError)"

section \<open>Networks and files\<close>

definition teardown_order :: "lan_row list \<Rightarrow> string list" where
  "teardown_order lans = rev (sort (map l_name lans))"

definition compose_exists :: "deploy_env \<Rightarrow> nat \<Rightarrow> (bool, world) op" where
  "compose_exists env tid w = (Inr (dep_file env (w_docker w) tid), w)"

definition unlink :: "deploy_env \<Rightarrow> nat \<Rightarrow> (unit, world) op" where
  "unlink env tid = bindS (docker_call (dep_env env) (UnlinkCompose tid)) (\<lambda>reply.
     case reply of DkOk \<Rightarrow> returnS () | DkError _ _ _ \<Rightarrow> raiseS OSError)"

text \<open>The networks of the \<open>try\<close> block: also on failure the names created so far are known.\<close>

fun create_networks ::
  "deploy_env \<Rightarrow> nat \<Rightarrow> lan_row list \<Rightarrow> string list \<Rightarrow> world \<Rightarrow> (unit result \<times> string list) \<times> world" where
  "create_networks env tid [] created w = ((Inr (), created), w)"
| "create_networks env tid (lan # lans) created w =
     (let net_name = network_name (env_id_str (dep_env env) tid) (l_name lan) in
      case docker_do (dep_env env) (CreateBridge net_name (l_subnet lan) (\<not> l_is_dmz lan)) w of
        (Inl e, w') \<Rightarrow> ((Inl e, created), w')
      | (Inr _, w') \<Rightarrow> create_networks env tid lans (created @ [net_name]) w')"

definition warn_if_userland_proxy_enabled :: "deploy_env \<Rightarrow> hydrated \<Rightarrow> (unit, world) op" where
  "warn_if_userland_proxy_enabled env h =
     (if list_ex (\<lambda>d. dc_forwards_l3 (config_of d) = Some True) (h_deckies h)
      then logged (bindS (docker_do (dep_env env) FromEnv) (\<lambda>_. docker_do (dep_env env) DockerInfo))
      else returnS ())"

section \<open>Agent-pinned topologies\<close>

definition agent_call :: "deploy_env \<Rightarrow> docker_cmd \<Rightarrow> (unit, world) op" where
  "agent_call env c = bindS (docker_call (dep_env env) c) (\<lambda>reply.
     case reply of DkOk \<Rightarrow> returnS () | DkError _ _ _ \<Rightarrow> raiseS HTTPStatusError)"

definition resolve_swarm_host :: "deploy_env \<Rightarrow> string \<Rightarrow> (string, world) op" where
  "resolve_swarm_host env host_uuid = (if dep_host env host_uuid then returnS host_uuid else raiseS ValueError)"

definition to_status :: "deploy_env \<Rightarrow> nat \<Rightarrow> string \<Rightarrow> string option \<Rightarrow> (unit, world) op" where
  "to_status env tid st reason = on_repo (transition_status (env_now (dep_env env)) tid st reason)"

text \<open>\<open>except Exception as exc: ...; raise\<close>: the handler runs, then the exception goes on, unless the
  handler raises itself.\<close>

definition on_raise :: "('a, 's) op \<Rightarrow> (exn \<Rightarrow> (unit, 's) op) \<Rightarrow> ('a, 's) op" where
  "on_raise m handler s =
     (case m s of
        (Inr x, s') \<Rightarrow> (Inr x, s')
      | (Inl e, s') \<Rightarrow> (case handler e s' of (Inl e', s'') \<Rightarrow> (Inl e', s'') | (Inr _, s'') \<Rightarrow> (Inl e, s'')))"

definition deploy_on_agent :: "deploy_env \<Rightarrow> nat \<Rightarrow> hydrated \<Rightarrow> (unit, world) op" where
  "deploy_on_agent env tid h =
     bindS (resolve_swarm_host env (with_default [] (t_target_host_uuid (h_topology h)))) (\<lambda>host.
     bindS (to_status env tid DEPLOYING None) (\<lambda>_.
     bindS (on_raise (agent_call env (AgentApply host h (topology_hash (dep_hash env) h)))
              (\<lambda>exc. to_status env tid FAILED (Some (dep_reason env exc)))) (\<lambda>_.
       to_status env tid ACTIVE None)))"

definition resync_agent_topology :: "deploy_env \<Rightarrow> nat \<Rightarrow> (unit, world) op" where
  "resync_agent_topology env tid =
     bindS (reads (hydrate tid)) (\<lambda>h.
       case h of
         None \<Rightarrow> raiseS ValueError
       | Some h \<Rightarrow>
           if \<not> agent_pinned (h_topology h) then raiseS ValueError
           else bindS (resolve_swarm_host env (with_default [] (t_target_host_uuid (h_topology h)))) (\<lambda>host.
             agent_call env (AgentApply host h (topology_hash (dep_hash env) h))))"

definition teardown_on_agent :: "deploy_env \<Rightarrow> nat \<Rightarrow> hydrated \<Rightarrow> (unit, world) op" where
  "teardown_on_agent env tid h =
     bindS (resolve_swarm_host env (with_default [] (t_target_host_uuid (h_topology h)))) (\<lambda>host.
     bindS (to_status env tid TEARING_DOWN None) (\<lambda>_.
     bindS (logged (agent_call env (AgentTeardown host tid))) (\<lambda>_.
       to_status env tid TORN_DOWN None)))"

section \<open>Deployment\<close>

definition rollback :: "deploy_env \<Rightarrow> nat \<Rightarrow> string list \<Rightarrow> (unit, world) op" where
  "rollback env tid created =
     bindS (compose_exists env tid) (\<lambda>there.
     bindS (if there then logged (compose env (topology_compose_project env tid) [''down'', ''--remove-orphans''])
            else returnS ()) (\<lambda>_.
     bindS (forS (\<lambda>net_name. logged (docker_do (dep_env env) (RemoveBridge net_name))) (rev created)) (\<lambda>_.
     bindS (compose_exists env tid) (\<lambda>there.
       if there then logged (unlink env tid) else returnS ()))))"

definition bring_up :: "deploy_env \<Rightarrow> nat \<Rightarrow> hydrated \<Rightarrow> (unit, world) op" where
  "bring_up env tid h =
     bindS (write_topology_compose (dep_env env) tid h) (\<lambda>_.
       compose_with_retry env 3 (topology_compose_project env tid) [''up'', ''--build'', ''-d''])"

definition materialise_topology :: "deploy_env \<Rightarrow> nat \<Rightarrow> hydrated \<Rightarrow> (unit, world) op" where
  "materialise_topology env tid h w =
     (case create_networks env tid (h_lans h) [] w of
        ((res, created), w') \<Rightarrow>
          on_raise (\<lambda>w. case res of Inl e \<Rightarrow> (Inl e, w) | Inr _ \<Rightarrow> bring_up env tid h w)
            (\<lambda>exc. bindS (rollback env tid created) (\<lambda>_. to_status env tid FAILED (Some (dep_reason env exc)))) w')"

definition decky_key :: "decky_row \<Rightarrow> string" where
  "decky_key d = (case dc_name (config_of d) of
     Some n \<Rightarrow> (if n = [] then d_name d else n) | None \<Rightarrow> d_name d)"

definition decky_states :: "string set \<Rightarrow> ps_row list \<Rightarrow> (string, string) dict" where
  "decky_states expected rows =
     fold (\<lambda>row d. if ps_service row \<noteq> [] \<and> ps_service row \<in> expected
        then AList.update (ps_service row) (if lower (ps_state row) = [] then ''unknown'' else lower (ps_state row)) d
        else d) rows []"

definition bad_rows :: "ps_row list \<Rightarrow> string list" where
  "bad_rows rows =
     map (\<lambda>row. (if ps_name row \<noteq> [] then ps_name row else if ps_service row \<noteq> [] then ps_service row else ''?'') @ ''='' @
            lower (ps_state row) @ (case ps_exit row of None \<Rightarrow> [] | Some c \<Rightarrow> '' (exit='' @ c @ '')''))
       (filter (\<lambda>row. lower (ps_state row) \<noteq> [] \<and> lower (ps_state row) \<noteq> ''running'') rows)"

definition bad_reason :: "string list \<Rightarrow> string" where
  "bad_reason bad = ''post-deploy check: '' @ join '', '' (take 8 bad) @
     (if 8 < length bad then '' and '' @ nat_str (length bad - 8) @ '' more'' else [])"

definition reconcile_decky_state :: "deploy_env \<Rightarrow> (string, string) dict \<Rightarrow> decky_row \<Rightarrow> (unit, world) op" where
  "reconcile_decky_state env states d =
     (if decky_key d = [] then returnS ()
      else logged (on_repo (update_topology_decky (env_now (dep_env env)) (d_uuid d)
        (no_decky_fields\<lparr>df_state := Some (if map_of states (decky_key d) = Some ''running'' then ''running'' else ''failed'')\<rparr>)
        None False)))"

definition verify_deployment :: "deploy_env \<Rightarrow> nat \<Rightarrow> hydrated \<Rightarrow> (unit, world) op" where
  "verify_deployment env tid h w =
     (let rows = dep_ps env (w_docker w);
          expected = set (filter (\<lambda>n. n \<noteq> []) (map decky_key (h_deckies h)));
          bad = bad_rows rows
      in bindS (forS (reconcile_decky_state env (decky_states expected rows)) (h_deckies h)) (\<lambda>_.
           if bad \<noteq> [] then to_status env tid DEGRADED (Some (bad_reason bad)) else to_status env tid ACTIVE None) w)"

definition plain_services :: "(string \<rightharpoonup> service_plugin) \<Rightarrow> string \<rightharpoonup> service_info" where
  "plain_services reg svc = map_option (\<lambda>s. \<lparr>svc_fleet_singleton = svc_fleet_singleton s, svc_ports = svc_ports s\<rparr>) (reg svc)"

definition deploy_topology :: "deploy_env \<Rightarrow> nat \<Rightarrow> bool \<Rightarrow> (unit, world) op" where
  "deploy_topology env tid dry_run =
     bindS (reads (hydrate tid)) (\<lambda>hydrated.
       case hydrated of
         None \<Rightarrow> raiseS ValueError
       | Some h \<Rightarrow>
     bindS (liftE (validate (env_known (dep_env env)) h)) (\<lambda>issues.
       if errors issues \<noteq> [] then raiseS ValidationError
       else if dry_run then write_topology_compose (dep_env env) tid h
       else
     bindS (liftE (check_no_host_port_collision (plain_services (env_services (dep_env env))) (dep_bound env) h)) (\<lambda>_.
     bindS (warn_if_userland_proxy_enabled env h) (\<lambda>_.
       if agent_pinned (h_topology h) then deploy_on_agent env tid h
       else
     bindS (to_status env tid DEPLOYING None) (\<lambda>_.
     bindS (docker_do (dep_env env) FromEnv) (\<lambda>_.
     bindS (materialise_topology env tid h) (\<lambda>_.
       verify_deployment env tid h)))))))"

section \<open>Teardown\<close>

definition compose_down_tolerant :: "deploy_env \<Rightarrow> nat \<Rightarrow> (unit, world) op" where
  "compose_down_tolerant env tid w =
     (case compose env (topology_compose_project env tid) [''down'', ''--remove-orphans''] w of
        (Inl (CalledProcessError _), w') \<Rightarrow> (Inr (), w')
      | (res, w') \<Rightarrow> (res, w'))"

definition teardown_topology :: "deploy_env \<Rightarrow> nat \<Rightarrow> (unit, world) op" where
  "teardown_topology env tid =
     bindS (reads (hydrate tid)) (\<lambda>hydrated.
       case hydrated of
         None \<Rightarrow> raiseS ValueError
       | Some h \<Rightarrow>
           if agent_pinned (h_topology h) then teardown_on_agent env tid h
           else
     bindS (to_status env tid TEARING_DOWN None) (\<lambda>_.
     bindS (docker_do (dep_env env) FromEnv) (\<lambda>_.
     bindS (compose_exists env tid) (\<lambda>there.
     bindS (if there then compose_down_tolerant env tid else returnS ()) (\<lambda>_.
     bindS (forS (\<lambda>lan. docker_do (dep_env env) (RemoveBridge (network_name (env_id_str (dep_env env) tid) lan)))
              (teardown_order (h_lans h))) (\<lambda>_.
     bindS (compose_exists env tid) (\<lambda>there.
     bindS (if there then unlink env tid else returnS ()) (\<lambda>_.
       to_status env tid TORN_DOWN None))))))))"

end
