(* ===== verification/Topology_Deploy_Inv.thy ===== *)
theory Topology_Deploy_Inv
  imports Topology_Deploy Topology_Generator "HOL-Library.Multiset"
begin

text \<open>
  What a deployment and a teardown do: how often \<open>docker compose\<close> is run and how long is slept, which
  status the topology ends in on every path, that a failed deployment removes the networks it made,
  and in which order networks are removed.
\<close>

section \<open>The retry loop\<close>

fun slept :: "docker_cmd list \<Rightarrow> nat" where
  "slept [] = 0"
| "slept (Sleep d # xs) = d + slept xs"
| "slept (_ # xs) = slept xs"

fun cli_runs :: "docker_cmd list \<Rightarrow> nat" where
  "cli_runs [] = 0"
| "cli_runs (ComposeCli _ _ # xs) = Suc (cli_runs xs)"
| "cli_runs (_ # xs) = cli_runs xs"

definition attempts_log ::
  "deploy_env \<Rightarrow> docker_cmd \<Rightarrow> nat \<Rightarrow> nat \<Rightarrow> world \<Rightarrow> unit result \<Rightarrow> world \<Rightarrow> docker_cmd list \<Rightarrow> bool" where
  "attempts_log env c retries delay w res w' cs \<longleftrightarrow>
     w' = w\<lparr>w_docker := w_docker w @ cs\<rparr> \<and> cli_runs cs \<le> retries \<and> slept cs \<le> delay * (2 ^ (retries - 1) - 1) \<and>
     (res = Inr () \<longrightarrow> cs \<noteq> [] \<and> last cs = c \<and>
        (\<exists>err. dep_proc env (w_docker w @ butlast cs) c = ProcExit 0 err)) \<and>
     (\<forall>e. res = Inl e \<longrightarrow> retries = 0 \<or> e = FileNotFoundError \<or> (\<exists>err. e = CalledProcessError err))"

lemma compose_attempts_log:
  assumes "compose_attempts env (ComposeCli project args) k delay e0 w = (res, w')"
  shows "\<exists>cs. attempts_log env (ComposeCli project args) k delay w res w' cs"
  using assms
proof (induction k arbitrary: delay e0 w)
  case 0
  then show ?case by (auto simp: attempts_log_def intro!: exI [of _ "[]"])
next
  case (Suc k)
  let ?c = "ComposeCli project args"
  let ?w1 = "w\<lparr>w_docker := w_docker w @ [?c]\<rparr>"
  let ?one = "\<lambda>res. attempts_log env ?c (Suc k) delay w res ?w1 [?c]"
  show ?case
  proof (cases "dep_proc env (w_docker w) ?c")
    case ProcMissing
    with Suc.prems have "res = Inl FileNotFoundError" "w' = ?w1" by (simp_all add: run_proc_def bindS_def)
    then show ?thesis by (auto simp: attempts_log_def intro!: exI [of _ "[?c]"])
  next
    case (ProcExit rc err)
    consider (ok) "rc = 0" "res = Inr ()" "w' = ?w1" | (bad) err' where "res = Inl (CalledProcessError err')" "w' = ?w1"
      | (again) "k > 0" "compose_attempts env ?c k (2 * delay) (CalledProcessError err) (?w1\<lparr>w_docker := w_docker ?w1 @ [Sleep delay]\<rparr>) = (res, w')"
      using Suc.prems ProcExit by (auto simp: run_proc_def bindS_def leaked_mounts_def sleep_def split: if_splits)
    then show ?thesis
    proof cases
      case ok
      then have "?one (Inr ())" using ProcExit by (auto simp: attempts_log_def)
      with ok show ?thesis by blast
    next
      case bad
      then have "?one res" by (auto simp: attempts_log_def)
      with bad show ?thesis by blast
    next
      case again
      from Suc.IH [OF again(2)] obtain cs where
        cs: "attempts_log env ?c k (2 * delay) (?w1\<lparr>w_docker := w_docker ?w1 @ [Sleep delay]\<rparr>) res w' cs" by blast
      obtain j where j: "k = Suc j" using again(1) by (cases k) auto
      have "delay + 2 * delay * (2 ^ j - 1) = delay * (2 ^ k - 1)"
      proof -
        obtain p where p: "(2::nat) ^ j = Suc p" by (metis not0_implies_Suc power_not_zero zero_neq_numeral)
        then have "2 ^ k - 1 = Suc (2 * p)" by (simp add: j)
        then show ?thesis by (simp add: p)
      qed
      with cs j have "attempts_log env ?c (Suc k) delay w res w' (?c # Sleep delay # cs)"
        by (auto simp: attempts_log_def)
      then show ?thesis by blast
    qed
  qed
qed

section \<open>What leaves the repository alone\<close>

lemma keeps_proc [keeps, simp]:
  "keeps_repo (run_proc env c)" "keeps_repo (sleep d)" "keeps_repo (leaked_mounts env)" "keeps_repo (compose_exists env tid)"
  by (simp_all add: keeps_repo_def run_proc_def sleep_def leaked_mounts_def compose_exists_def)

lemma keeps_compose [keeps, simp]: "keeps_repo (compose env project args)"
  unfolding compose_def by (intro keeps_bindS) (auto split: prod.split)

lemma keeps_unlink [keeps, simp]: "keeps_repo (unlink env tid)"
  unfolding unlink_def by (intro keeps_bindS) (auto split: docker_reply.split)

lemma keeps_agent_call [keeps, simp]: "keeps_repo (agent_call env c)"
  unfolding agent_call_def by (intro keeps_bindS) (auto split: docker_reply.split)

lemma keeps_resolve [keeps, simp]: "keeps_repo (resolve_swarm_host env u)"
  by (simp add: resolve_swarm_host_def)

lemma keeps_attempts [keeps, simp]: "keeps_repo (compose_attempts env c k d e)"
  by (induction k arbitrary: d e) (auto intro!: keeps_bindS split: prod.split)

lemma keeps_retry [keeps, simp]: "keeps_repo (compose_with_retry env k project args)"
  unfolding compose_with_retry_def by (auto intro!: keeps_bindS)

lemma keeps_forS [keeps, intro]: "(\<And>x. keeps_repo (f x)) \<Longrightarrow> keeps_repo (forS f xs)"
  by (induction xs) auto

lemma keeps_rollback [keeps, simp]: "keeps_repo (rollback env tid created)"
  unfolding rollback_def by (intro keeps_bindS keeps_forS) auto

lemma keeps_bring_up [keeps, simp]: "keeps_repo (bring_up env tid h)"
  unfolding bring_up_def by (intro keeps_bindS) auto

lemma keeps_userland [keeps, simp]: "keeps_repo (warn_if_userland_proxy_enabled env h)"
  unfolding warn_if_userland_proxy_enabled_def by (auto intro!: keeps_bindS)

lemma keeps_down [keeps, simp]: "keeps_repo (compose_down_tolerant env tid)"
proof -
  have "keeps_repo (compose env (topology_compose_project env tid) [''down'', ''--remove-orphans''])" by simp
  then show ?thesis
    unfolding keeps_repo_def compose_down_tolerant_def
    by (auto split: prod.split sum.split exn.split) (metis snd_conv)+
qed

lemma create_networks_repo: "w_repo (snd (create_networks env tid lans created w)) = w_repo w"
proof (induction lans arbitrary: created w)
  case (Cons l lans)
  show ?case using keeps_repoD [OF keeps_docker_do] Cons by (auto simp: Let_def split: prod.split sum.split)
qed simp

section \<open>Statuses\<close>

definition status_of :: "nat \<Rightarrow> repo \<Rightarrow> string option" where
  "status_of tid r = map_option t_status (find_topology tid r)"

abbreviation st_is :: "nat \<Rightarrow> string \<Rightarrow> repo \<Rightarrow> bool" where
  "st_is tid s r \<equiv> reach r \<and> status_of tid r = Some s"

lemma to_status_legal:
  assumes "status_of tid (w_repo w) = Some s" "status_step s st"
  obtains w' where "to_status env tid st reason w = (Inr (), w')" "status_of tid (w_repo w') = Some st"
    "w_docker w' = w_docker w" "reach (w_repo w) \<Longrightarrow> reach (w_repo w')"
proof -
  from assms(1) obtain t where t: "find_topology tid (w_repo w) = Some t" "t_status t = s" by (auto simp: status_of_def)
  let ?now = "env_now (dep_env env)"
  have run: "transition_status ?now tid st reason (w_repo w) = (Inr (), snd (update_topology_status ?now tid st reason (w_repo w)))"
    using t assms(2) by (simp add: transition_status_cases status_step_iff_Inr [symmetric] prod_eq_iff)
      (simp add: update_topology_status_def session_def Let_def)
  have "reach (snd (update_topology_status ?now tid st reason (w_repo w)))" if "reach (w_repo w)"
    using reach.step [OF that, of "CTransition ?now tid st reason"] run by simp
  with run find_topology_status [OF t(1), of tid ?now st reason] show thesis
    using that [of "w\<lparr>w_repo := snd (update_topology_status ?now tid st reason (w_repo w))\<rparr>"]
    by (simp add: to_status_def on_repo_def status_of_def)
qed

lemma to_status_illegal:
  assumes "status_of tid (w_repo w) = Some s" "\<not> status_step s st"
  shows "to_status env tid st reason w = (Inl TopologyStatusError, w)"
  using assms assert_transition_cases [of s st]
  by (auto simp: to_status_def on_repo_def transition_status_cases status_of_def status_step_iff_Inr)

lemma valid_to_status:
  assumes "status_step s st"
  shows "valid (\<lambda>w. st_is tid s (w_repo w)) (to_status env tid st reason) (\<lambda>_ w. st_is tid st (w_repo w)) (\<lambda>_. False)"
proof -
  have "to_status env tid st reason w = (res, w') \<Longrightarrow> st_is tid s (w_repo w) \<Longrightarrow> res = Inr () \<and> st_is tid st (w_repo w')" for w res w'
    using to_status_legal [OF _ assms, of tid w env reason] by (metis prod.inject)
  then show ?thesis by (intro validI) blast+
qed

lemma valid_on_raise:
  assumes "valid P m Q E1" and "\<And>e. valid E1 (handler e) (\<lambda>_. E) E"
  shows "valid P (on_raise m handler) Q E"
  unfolding valid_def on_raise_def
proof (intro allI impI)
  fix s assume "P s"
  obtain res s' where m: "m s = (res, s')" by fastforce
  show "case case m s of (Inl e, s') \<Rightarrow> (case handler e s' of (Inl e', s'') \<Rightarrow> (Inl e', s'') | (Inr _, s'') \<Rightarrow> (Inl e, s''))
      | (Inr x, s') \<Rightarrow> (Inr x, s') of (Inl _, s') \<Rightarrow> E s' | (Inr x, s') \<Rightarrow> Q x s'"
  proof (cases res)
    case (Inl e)
    obtain r2 s2 where h: "handler e s' = (r2, s2)" by fastforce
    have "E1 s'" using valid_Inl [OF assms(1) \<open>P s\<close>] m Inl by simp
    then have "E s2" using valid_Inl [OF assms(2)] valid_Inr [OF assms(2)] h by (cases r2) blast+
    with m Inl h show ?thesis by (cases r2) simp_all
  next
    case (Inr x)
    with valid_Inr [OF assms(1) \<open>P s\<close>] m show ?thesis by simp
  qed
qed

section \<open>Deployment\<close>

lemma valid_keeps_raise: "keeps_repo m \<Longrightarrow> valid (\<lambda>w. P (w_repo w)) m (\<lambda>_ w. P (w_repo w)) (\<lambda>w. P (w_repo w))"
  by (rule valid_keeps) simp_all

text \<open>Operations that never raise.\<close>

abbreviation quiet :: "('a, 's) op \<Rightarrow> bool" where
  "quiet m \<equiv> valid (\<lambda>_. True) m (\<lambda>_ _. True) (\<lambda>_. False)"

lemma quiet_basic: "quiet (returnS x)" "quiet (logged m)" "quiet (compose_exists env tid)"
  by (auto intro!: validI simp: logged_def compose_exists_def split: prod.splits)

lemma quiet_bindS: "quiet m \<Longrightarrow> (\<And>x. quiet (f x)) \<Longrightarrow> quiet (bindS m f)"
  by (rule valid_bindS)

lemma quiet_forS: "(\<And>x. quiet (g x)) \<Longrightarrow> quiet (forS g xs)"
  by (rule valid_forS)

lemma quiet_if: "quiet m \<Longrightarrow> quiet m' \<Longrightarrow> quiet (if b then m else m')"
  by simp

lemmas quiet_rules = quiet_basic quiet_bindS quiet_forS quiet_if

lemma quiet_rollback: "quiet (rollback env tid created)"
  unfolding rollback_def by (intro quiet_rules)

lemma quiet_keeps:
  assumes "quiet m" "keeps_repo m"
  shows "valid (\<lambda>w. P (w_repo w)) m (\<lambda>_ w. P (w_repo w)) (\<lambda>_. False)"
  by (rule validI) (use valid_Inl [OF assms(1)] keeps_repoD [OF assms(2)] in auto)

lemma valid_create_networks:
  assumes "\<And>res created. valid (\<lambda>w. P (w_repo w)) (f res created) Q E"
  shows "valid (\<lambda>w. P (w_repo w)) (\<lambda>w. case create_networks env tid lans [] w of ((res, created), w') \<Rightarrow> f res created w') Q E"
proof -
  have "P (w_repo w')" if "P (w_repo w)" "create_networks env tid lans [] w = ((res, created), w')" for w res created w'
    using that create_networks_repo [of env tid lans "[]" w] by simp
  note kept = this
  show ?thesis
  proof (rule validI)
    fix w e w'' assume P: "P (w_repo w)"
      and run: "(case create_networks env tid lans [] w of ((res, created), w') \<Rightarrow> f res created w') = (Inl e, w'')"
    obtain res created w' where c: "create_networks env tid lans [] w = ((res, created), w')" by (metis surj_pair)
    from run c have "f res created w' = (Inl e, w'')" by simp
    then show "E w''" by (rule valid_Inl [OF assms kept [OF P c]])
  next
    fix w x w'' assume P: "P (w_repo w)"
      and run: "(case create_networks env tid lans [] w of ((res, created), w') \<Rightarrow> f res created w') = (Inr x, w'')"
    obtain res created w' where c: "create_networks env tid lans [] w = ((res, created), w')" by (metis surj_pair)
    from run c have "f res created w' = (Inr x, w'')" by simp
    then show "Q x w''" by (rule valid_Inr [OF assms kept [OF P c]])
  qed
qed

lemma valid_materialise:
  "valid (\<lambda>w. st_is tid DEPLOYING (w_repo w)) (materialise_topology env tid h)
     (\<lambda>_ w. st_is tid DEPLOYING (w_repo w)) (\<lambda>w. st_is tid FAILED (w_repo w))"
proof -
  have fail: "status_step DEPLOYING FAILED" by (simp add: status_step_table)
  have inner: "valid (\<lambda>w. st_is tid DEPLOYING (w_repo w))
      (on_raise (\<lambda>w. case res of Inl e \<Rightarrow> (Inl e, w) | Inr _ \<Rightarrow> bring_up env tid h w)
        (\<lambda>exc. bindS (rollback env tid created) (\<lambda>_. to_status env tid FAILED (Some (dep_reason env exc)))))
      (\<lambda>_ w. st_is tid DEPLOYING (w_repo w)) (\<lambda>w. st_is tid FAILED (w_repo w))" for res :: "unit result" and created
  proof (rule valid_on_raise)
    have "keeps_repo (\<lambda>w. case res of Inl e \<Rightarrow> (Inl e, w) | Inr _ \<Rightarrow> bring_up env tid h w)"
      using keeps_bring_up by (cases res) (simp_all add: keeps_repo_def)
    then show "valid (\<lambda>w. st_is tid DEPLOYING (w_repo w)) (\<lambda>w. case res of Inl e \<Rightarrow> (Inl e, w) | Inr _ \<Rightarrow> bring_up env tid h w)
        (\<lambda>_ w. st_is tid DEPLOYING (w_repo w)) (\<lambda>w. st_is tid DEPLOYING (w_repo w))" by (rule valid_keeps_raise)
  next
    fix e
    show "valid (\<lambda>w. st_is tid DEPLOYING (w_repo w))
        (bindS (rollback env tid created) (\<lambda>_. to_status env tid FAILED (Some (dep_reason env e))))
        (\<lambda>_ w. st_is tid FAILED (w_repo w)) (\<lambda>w. st_is tid FAILED (w_repo w))"
      by (rule valid_bindS [OF valid_weaken [OF quiet_keeps [OF quiet_rollback keeps_rollback]]
            valid_weaken [OF valid_to_status [OF fail]]]) simp_all
  qed
  show ?thesis
    unfolding materialise_topology_def
    using valid_create_networks [where P = "st_is tid DEPLOYING" and f = "\<lambda>res created.
        on_raise (\<lambda>w. case res of Inl e \<Rightarrow> (Inl e, w) | Inr _ \<Rightarrow> bring_up env tid h w)
          (\<lambda>exc. bindS (rollback env tid created) (\<lambda>_. to_status env tid FAILED (Some (dep_reason env exc))))", OF inner]
    by simp
qed

lemma reconcile_decky_state_valid:
  "valid (\<lambda>w. st_is tid s (w_repo w)) (reconcile_decky_state env states d) (\<lambda>_ w. st_is tid s (w_repo w)) (\<lambda>_. False)"
proof -
  have "st_is tid s (snd (update_topology_decky now du df None False r))" if "st_is tid s r" for now du df r
    using that reach_edit [of r "EUpdateDecky now du df False" None]
    by (simp add: status_of_def unversioned_frame find_topology_cong [of "snd (update_topology_decky now du df None False r)" r])
  then show ?thesis
    unfolding reconcile_decky_state_def
    by (auto intro!: validI simp: logged_def on_repo_def split: prod.splits if_splits) (metis snd_conv)+
qed

lemma valid_verify:
  "valid (\<lambda>w. st_is tid DEPLOYING (w_repo w)) (verify_deployment env tid h)
     (\<lambda>_ w. st_is tid ACTIVE (w_repo w) \<or> st_is tid DEGRADED (w_repo w)) (\<lambda>_. False)"
proof -
  have steps: "status_step DEPLOYING ACTIVE" "status_step DEPLOYING DEGRADED" by (simp_all add: status_step_table)
  have "valid (\<lambda>w. st_is tid DEPLOYING (w_repo w))
      (bindS (forS (reconcile_decky_state env states) (h_deckies h)) (\<lambda>_.
         if bad \<noteq> [] then to_status env tid DEGRADED (Some (bad_reason bad)) else to_status env tid ACTIVE None))
      (\<lambda>_ w. st_is tid ACTIVE (w_repo w) \<or> st_is tid DEGRADED (w_repo w)) (\<lambda>_. False)" for states bad
    by (rule valid_bindS [OF valid_forS [OF reconcile_decky_state_valid]])
      (auto intro: valid_weaken [OF valid_to_status [OF steps(1)]] valid_weaken [OF valid_to_status [OF steps(2)]])
  note inner = this
  show ?thesis
    by (rule validI; simp only: verify_deployment_def Let_def; erule (1) valid_Inl [OF inner] valid_Inr [OF inner])
qed

definition from_env_failed :: "deploy_env \<Rightarrow> world \<Rightarrow> bool" where
  "from_env_failed env w \<longleftrightarrow> (\<exists>cs. w_docker w = cs @ [FromEnv] \<and> env_docker (dep_env env) cs FromEnv \<noteq> DkOk)"

lemma valid_from_env:
  "valid (\<lambda>w. P (w_repo w)) (docker_do (dep_env env) FromEnv) (\<lambda>_ w. P (w_repo w)) (\<lambda>w. P (w_repo w) \<and> from_env_failed env w)"
  by (rule validI) (auto simp: docker_do_def docker_call_def bindS_def from_env_failed_def split: docker_reply.splits)

abbreviation deployed :: "nat \<Rightarrow> world \<Rightarrow> bool" where
  "deployed tid w \<equiv> st_is tid ACTIVE (w_repo w) \<or> st_is tid DEGRADED (w_repo w)"

abbreviation undeployed :: "deploy_env \<Rightarrow> nat \<Rightarrow> world \<Rightarrow> bool" where
  "undeployed env tid w \<equiv> st_is tid PENDING (w_repo w) \<or> st_is tid FAILED (w_repo w) \<or>
     st_is tid DEPLOYING (w_repo w) \<and> from_env_failed env w"

lemma valid_local_deploy:
  "valid (\<lambda>w. st_is tid PENDING (w_repo w))
     (bindS (to_status env tid DEPLOYING None) (\<lambda>_. bindS (docker_do (dep_env env) FromEnv) (\<lambda>_.
      bindS (materialise_topology env tid h) (\<lambda>_. verify_deployment env tid h))))
     (\<lambda>_. deployed tid) (undeployed env tid)"
proof (rule valid_bindS)
  have "status_step PENDING DEPLOYING" by (simp add: status_step_table)
  then show "valid (\<lambda>w. st_is tid PENDING (w_repo w)) (to_status env tid DEPLOYING None)
      (\<lambda>_ w. st_is tid DEPLOYING (w_repo w)) (undeployed env tid)"
    by (rule valid_weaken [OF valid_to_status]) simp_all
  show "valid (\<lambda>w. st_is tid DEPLOYING (w_repo w)) (bindS (docker_do (dep_env env) FromEnv) (\<lambda>_.
      bindS (materialise_topology env tid h) (\<lambda>_. verify_deployment env tid h))) (\<lambda>_. deployed tid) (undeployed env tid)"
  proof (rule valid_bindS)
    show "valid (\<lambda>w. st_is tid DEPLOYING (w_repo w)) (docker_do (dep_env env) FromEnv)
        (\<lambda>_ w. st_is tid DEPLOYING (w_repo w)) (undeployed env tid)"
      by (rule valid_weaken [OF valid_from_env [where P = "st_is tid DEPLOYING"]]) auto
    show "valid (\<lambda>w. st_is tid DEPLOYING (w_repo w)) (bindS (materialise_topology env tid h) (\<lambda>_. verify_deployment env tid h))
        (\<lambda>_. deployed tid) (undeployed env tid)"
      by (rule valid_bindS [OF valid_weaken [OF valid_materialise] valid_weaken [OF valid_verify]]) auto
  qed
qed

lemma valid_if_both: "valid P m Q E \<Longrightarrow> valid P m' Q E \<Longrightarrow> valid P (if b then m else m') Q E"
  by simp

lemma valid_deploy_kept:
  assumes "keeps_repo m" "\<And>x. valid (\<lambda>w. st_is tid PENDING (w_repo w)) (f x) (\<lambda>_. deployed tid) (undeployed env tid)"
  shows "valid (\<lambda>w. st_is tid PENDING (w_repo w)) (bindS m f) (\<lambda>_. deployed tid) (undeployed env tid)"
  by (rule valid_bindS [OF valid_weaken [OF valid_keeps_raise [OF assms(1), where P = "st_is tid PENDING"]] assms(2)]) auto

lemma valid_deploy:
  "valid (\<lambda>w. st_is tid PENDING (w_repo w) \<and> (\<forall>t. find_topology tid (w_repo w) = Some t \<longrightarrow> \<not> agent_pinned t))
     (deploy_topology env tid False) (\<lambda>_. deployed tid) (undeployed env tid)"
proof -
  have raise: "valid (\<lambda>w. st_is tid PENDING (w_repo w)) (raiseS e) (\<lambda>_. deployed tid) (undeployed env tid)" for e :: exn
    by (rule validI) auto
  have rest: "valid (\<lambda>w. st_is tid PENDING (w_repo w))
      (bindS (liftE (validate (env_known (dep_env env)) h)) (\<lambda>issues.
         if errors issues \<noteq> [] then raiseS ValidationError
         else if False then write_topology_compose (dep_env env) tid h
         else bindS (liftE (check_no_host_port_collision (plain_services (env_services (dep_env env))) (dep_bound env) h)) (\<lambda>_.
           bindS (warn_if_userland_proxy_enabled env h) (\<lambda>_.
             if agent_pinned (h_topology h) then deploy_on_agent env tid h
             else bindS (to_status env tid DEPLOYING None) (\<lambda>_. bindS (docker_do (dep_env env) FromEnv) (\<lambda>_.
               bindS (materialise_topology env tid h) (\<lambda>_. verify_deployment env tid h)))))))
      (\<lambda>_. deployed tid) (undeployed env tid)" if "\<not> agent_pinned (h_topology h)" for h
    unfolding if_False if_not_P [OF that]
    by (intro valid_deploy_kept keeps_basic keeps_userland valid_if_both raise valid_local_deploy)
  show ?thesis
    unfolding deploy_topology_def
  proof (rule valid_seq)
    fix hydrated
    show "valid (\<lambda>w. st_is tid PENDING (w_repo w) \<and> (\<forall>h. hydrated = Some h \<longrightarrow> \<not> agent_pinned (h_topology h)))
      (case hydrated of None \<Rightarrow> raiseS ValueError | Some h \<Rightarrow>
        bindS (liftE (validate (env_known (dep_env env)) h)) (\<lambda>issues.
         if errors issues \<noteq> [] then raiseS ValidationError
         else if False then write_topology_compose (dep_env env) tid h
         else bindS (liftE (check_no_host_port_collision (plain_services (env_services (dep_env env))) (dep_bound env) h)) (\<lambda>_.
           bindS (warn_if_userland_proxy_enabled env h) (\<lambda>_.
             if agent_pinned (h_topology h) then deploy_on_agent env tid h
             else bindS (to_status env tid DEPLOYING None) (\<lambda>_. bindS (docker_do (dep_env env) FromEnv) (\<lambda>_.
               bindS (materialise_topology env tid h) (\<lambda>_. verify_deployment env tid h)))))))
      (\<lambda>_. deployed tid) (undeployed env tid)"
    proof (cases hydrated)
      case None
      show ?thesis unfolding None option.case by (rule valid_pre [OF raise]) simp
    next
      case (Some h)
      show ?thesis
      proof (cases "agent_pinned (h_topology h)")
        case True
        with Some show ?thesis by (auto simp: valid_def)
      next
        case False
        show ?thesis unfolding Some option.case by (rule valid_pre [OF rest [OF False]]) simp
      qed
    qed
  next
    show "valid (\<lambda>w. st_is tid PENDING (w_repo w) \<and> (\<forall>t. find_topology tid (w_repo w) = Some t \<longrightarrow> \<not> agent_pinned t))
        (reads (hydrate tid))
        (\<lambda>hydrated w. st_is tid PENDING (w_repo w) \<and> (\<forall>h. hydrated = Some h \<longrightarrow> \<not> agent_pinned (h_topology h))) (undeployed env tid)"
      by (rule validI) (auto simp: reads_def dest: hydrate_rows(3))
  qed
qed

lemma docker_do_down:
  "env_docker env (w_docker w) c \<noteq> DkOk \<Longrightarrow> docker_do env c w = (Inl DockerException, w\<lparr>w_docker := w_docker w @ [c]\<rparr>)"
  by (cases "env_docker env (w_docker w) c") (simp_all add: docker_do_def docker_call_def bindS_def)

lemma quiet_run:
  fixes m :: "(unit, 's) op"
  assumes "quiet m"
  obtains s' where "m s = (Inr (), s')"
proof -
  obtain res s' where run: "m s = (res, s')" by fastforce
  with valid_Inl [OF assms, of s] that show thesis by (cases res) auto
qed

lemma quiet_userland: "quiet (warn_if_userland_proxy_enabled env h)"
  unfolding warn_if_userland_proxy_enabled_def by (intro quiet_rules)

text \<open>The one path on which a failed deployment stays \<open>deploying\<close>.\<close>

lemma deploy_unreachable:
  assumes h: "hydrate tid (w_repo w) = Inr (Some h)" "validate (env_known (dep_env env)) h = Inr []"
    and ports: "check_no_host_port_collision (plain_services (env_services (dep_env env))) (dep_bound env) h = Inr issues"
    and pend: "status_of tid (w_repo w) = Some PENDING" and pin: "\<not> agent_pinned (h_topology h)"
    and down: "\<And>cs. env_docker (dep_env env) cs FromEnv \<noteq> DkOk"
  shows "\<exists>w'. deploy_topology env tid False w = (Inl DockerException, w') \<and> status_of tid (w_repo w') = Some DEPLOYING"
proof -
  obtain w1 where w1: "warn_if_userland_proxy_enabled env h w = (Inr (), w1)"
    by (rule quiet_run [OF quiet_userland])
  have r1: "w_repo w1 = w_repo w" using keeps_repoD [OF keeps_userland w1] .
  have "status_step PENDING DEPLOYING" by (simp add: status_step_table)
  then obtain w2 where w2: "to_status env tid DEPLOYING None w1 = (Inr (), w2)" "status_of tid (w_repo w2) = Some DEPLOYING"
    using to_status_legal [of tid w1 PENDING DEPLOYING env None] pend r1 by auto
  obtain w3 where w3: "docker_do (dep_env env) FromEnv w2 = (Inl DockerException, w3)"
    using docker_do_down [OF down] by blast
  have "w_repo w3 = w_repo w2" using keeps_repoD [OF keeps_docker_do w3] .
  moreover have "deploy_topology env tid False w = (Inl DockerException, w3)"
    using h ports pin w1 w2(1) w3 by (simp add: deploy_topology_def bindS_def reads_def errors_def)
  ultimately show ?thesis using w2(2) by auto
qed

section \<open>Teardown\<close>

lemma hydrate_after_status:
  assumes h: "hydrate tid r = Inr (Some h)" and run: "transition_status now tid st reason r = (Inr (), r')"
  shows "\<exists>h'. hydrate tid r' = Inr (Some h') \<and> t_target_host_uuid (h_topology h') = t_target_host_uuid (h_topology h)"
proof -
  obtain t where t: "find_topology tid r = Some t" "h_topology h = t" using hydrate_rows(3) [OF h] by blast
  have r': "r' = snd (update_topology_status now tid st reason r)"
    using run t by (auto simp: transition_status_cases split: sum.splits)
  have same: "r_lans r' = r_lans r" "r_deckies r' = r_deckies r" "r_edges r' = r_edges r"
    unfolding r' using t by (simp_all add: update_topology_status_def session_def Let_def)
  then have "list_lans_for_topology tid r' = list_lans_for_topology tid r" "list_topology_deckies tid r' = list_topology_deckies tid r"
    "list_topology_edges tid r' = list_topology_edges tid r"
    by (simp_all add: list_lans_for_topology_def list_topology_deckies_def list_topology_edges_def)
  moreover have "find_topology tid r' = Some (t\<lparr>t_status := st, t_status_changed_at := now\<rparr>)"
    unfolding r' by (simp add: find_topology_status [OF t(1)])
  ultimately show ?thesis using hydrate_rows(4) [OF h] t(2) by (simp add: hydrate_def Let_def)
qed

text \<open>Without Docker a teardown stops in \<open>tearing_down\<close>, from where it cannot be repeated.\<close>

lemma teardown_stuck:
  assumes h: "hydrate tid (w_repo w) = Inr (Some h)" and pin: "\<not> agent_pinned (h_topology h)"
    and st: "status_of tid (w_repo w) = Some s" "status_step s TEARING_DOWN"
    and down: "env_docker (dep_env env) (w_docker w) FromEnv \<noteq> DkOk"
  shows "\<exists>w'. teardown_topology env tid w = (Inl DockerException, w') \<and> status_of tid (w_repo w') = Some TEARING_DOWN \<and>
    (\<forall>env' w''. w_repo w'' = w_repo w' \<longrightarrow> teardown_topology env' tid w'' = (Inl TopologyStatusError, w''))"
proof -
  obtain w1 where w1: "to_status env tid TEARING_DOWN None w = (Inr (), w1)" "status_of tid (w_repo w1) = Some TEARING_DOWN"
    "w_docker w1 = w_docker w" using to_status_legal [OF st] by metis
  obtain w2 where w2: "docker_do (dep_env env) FromEnv w1 = (Inl DockerException, w2)"
    using docker_do_down [of "dep_env env" w1 FromEnv] down w1(3) by simp
  have r2: "w_repo w2 = w_repo w1" using keeps_repoD [OF keeps_docker_do w2] .
  have run: "teardown_topology env tid w = (Inl DockerException, w2)"
    using h pin w1(1) w2 by (simp add: teardown_topology_def bindS_def reads_def)
  have "transition_status (env_now (dep_env env)) tid TEARING_DOWN None (w_repo w) = (Inr (), w_repo w1)"
    using w1(1) by (auto simp: to_status_def on_repo_def split: prod.splits)
  from hydrate_after_status [OF h this] obtain h' where
    h': "hydrate tid (w_repo w1) = Inr (Some h')" "t_target_host_uuid (h_topology h') = t_target_host_uuid (h_topology h)" by blast
  have "teardown_topology env' tid w'' = (Inl TopologyStatusError, w'')" if "w_repo w'' = w_repo w2" for env' w''
  proof -
    have "\<not> status_step TEARING_DOWN TEARING_DOWN" by (simp add: status_step_table)
    then have "to_status env' tid TEARING_DOWN None w'' = (Inl TopologyStatusError, w'')"
      using to_status_illegal [of tid w'' TEARING_DOWN TEARING_DOWN env' None] w1(2) that r2 by simp
    moreover have "\<not> agent_pinned (h_topology h')" using pin h'(2) by (simp add: agent_pinned_def)
    ultimately show ?thesis using h'(1) that r2 by (simp add: teardown_topology_def bindS_def reads_def)
  qed
  with run w1(2) r2 show ?thesis by auto
qed

lemma valid_ends: "(\<And>x. valid (\<lambda>_. True) (f x) Q (\<lambda>_. True)) \<Longrightarrow> valid (\<lambda>_. True) (bindS m f) Q (\<lambda>_. True)"
  by (rule valid_bindS [where Q = "\<lambda>_ _. True"]) (auto intro!: validI)

lemma valid_ends_raise: "valid (\<lambda>_. True) (raiseS e) Q (\<lambda>_. True)"
  by (auto intro!: validI)

lemma valid_ends_option:
  "valid P m Q E \<Longrightarrow> (\<And>x. valid P (f x) Q E) \<Longrightarrow> valid P (case opt of None \<Rightarrow> m | Some x \<Rightarrow> f x) Q E"
  by (cases opt) simp_all

lemma teardown_returns:
  assumes "teardown_topology env tid w = (Inr (), w')"
  shows "status_of tid (w_repo w') = Some TORN_DOWN"
proof -
  have last: "valid (\<lambda>_. True) (to_status env tid TORN_DOWN None) (\<lambda>_ w. status_of tid (w_repo w) = Some TORN_DOWN) (\<lambda>_. True)"
  proof (rule validI)
    fix w u w' assume "to_status env tid TORN_DOWN None w = (Inr u, w')"
    then obtain t where "find_topology tid (w_repo w) = Some t"
      "w_repo w' = snd (update_topology_status (env_now (dep_env env)) tid TORN_DOWN None (w_repo w))"
      by (auto simp: to_status_def on_repo_def transition_status_cases split: prod.splits option.splits sum.splits)
    then show "status_of tid (w_repo w') = Some TORN_DOWN" by (simp add: status_of_def find_topology_status)
  qed simp
  have "valid (\<lambda>_. True) (teardown_topology env tid) (\<lambda>_ w. status_of tid (w_repo w) = Some TORN_DOWN) (\<lambda>_. True)"
    unfolding teardown_topology_def teardown_on_agent_def
    by (intro valid_ends valid_ends_option valid_ends_raise valid_if_both last)
  from valid_Inr [OF this _ assms] show ?thesis by simp
qed

section \<open>Networks\<close>

fun removed_nets :: "docker_cmd list \<Rightarrow> string list" where
  "removed_nets [] = []"
| "removed_nets (RemoveBridge n # cs) = n # removed_nets cs"
| "removed_nets (_ # cs) = removed_nets cs"

lemma removed_nets_append: "removed_nets (xs @ ys) = removed_nets xs @ removed_nets ys"
  by (induction xs rule: removed_nets.induct) simp_all

definition keeps_nets :: "('a, world) op \<Rightarrow> bool" where
  "keeps_nets m \<longleftrightarrow> (\<forall>w. removed_nets (w_docker (snd (m w))) = removed_nets (w_docker w))"

lemma keeps_netsD: "keeps_nets m \<Longrightarrow> m w = (res, w') \<Longrightarrow> removed_nets (w_docker w') = removed_nets (w_docker w)"
  unfolding keeps_nets_def by (metis snd_conv)

lemma keeps_nets_bindS: "keeps_nets m \<Longrightarrow> (\<And>x. keeps_nets (f x)) \<Longrightarrow> keeps_nets (bindS m f)"
  by (auto simp: keeps_nets_def bindS_def split: prod.split sum.split) (metis snd_conv)+

lemma keeps_nets_logged: "keeps_nets m \<Longrightarrow> keeps_nets (logged m)"
  by (auto simp: keeps_nets_def logged_def split: prod.split) (metis snd_conv)

lemma keeps_nets_basic [simp]:
  "keeps_nets (returnS x)" "keeps_nets (raiseS e)" "keeps_nets (liftE m)" "keeps_nets (leaked_mounts env)" "keeps_nets (sleep d)"
  "keeps_nets (compose_exists env tid)" "keeps_nets (on_repo m')" "keeps_nets (run_proc env (ComposeCli p as))"
  "keeps_nets (docker_call env' (UnlinkCompose tid))" "keeps_nets (docker_call env' (WriteCompose tid j))"
  "keeps_nets (docker_call env' FromEnv)" "keeps_nets (docker_call env' (CreateBridge n subnet internal))"
  by (simp_all add: keeps_nets_def leaked_mounts_def sleep_def compose_exists_def on_repo_def run_proc_def docker_call_def
      removed_nets_append split: prod.split)

lemma keeps_nets_do: "keeps_nets (docker_call env c) \<Longrightarrow> keeps_nets (docker_do env c)"
  unfolding docker_do_def by (rule keeps_nets_bindS) (auto split: docker_reply.split)

lemma keeps_nets_compose [simp]: "keeps_nets (compose env project args)"
  unfolding compose_def by (rule keeps_nets_bindS) (auto split: prod.split)

lemma keeps_nets_unlink [simp]: "keeps_nets (unlink env tid)"
  unfolding unlink_def by (rule keeps_nets_bindS) (auto split: docker_reply.split)

lemma keeps_nets_attempts [simp]: "keeps_nets (compose_attempts env (ComposeCli p as) k d e)"
  by (induction k arbitrary: d e) (auto intro!: keeps_nets_bindS split: prod.split)

lemma keeps_nets_bring_up [simp]: "keeps_nets (bring_up env tid h)"
  unfolding bring_up_def compose_with_retry_def write_topology_compose_def
  by (auto intro!: keeps_nets_bindS keeps_nets_do)

lemma keeps_nets_down [simp]: "keeps_nets (compose_down_tolerant env tid)"
  unfolding keeps_nets_def compose_down_tolerant_def
  using keeps_netsD [OF keeps_nets_compose] by (auto split: prod.split sum.split exn.split)

lemma forS_remove:
  assumes "forS (\<lambda>x. docker_do env (RemoveBridge (g x))) xs w = (Inr (), w')"
  shows "removed_nets (w_docker w') = removed_nets (w_docker w) @ map g xs"
  using assms
proof (induction xs arbitrary: w)
  case (Cons x xs)
  from Cons.prems obtain w1 where w1: "docker_do env (RemoveBridge (g x)) w = (Inr (), w1)"
    "forS (\<lambda>x. docker_do env (RemoveBridge (g x))) xs w1 = (Inr (), w')" by auto
  have "w_docker w1 = w_docker w @ [RemoveBridge (g x)]"
    using w1(1) by (auto simp: docker_do_def docker_call_def bindS_def split: docker_reply.splits)
  with Cons.IH [OF w1(2)] show ?case by (simp add: removed_nets_append)
qed simp

lemma forS_remove_logged:
  "\<exists>w'. forS (\<lambda>x. logged (docker_do env (RemoveBridge x))) xs w = (Inr (), w') \<and>
     removed_nets (w_docker w') = removed_nets (w_docker w) @ xs"
proof (induction xs arbitrary: w)
  case (Cons x xs)
  obtain res w1 where w1: "docker_do env (RemoveBridge x) w = (res, w1)" by fastforce
  then have "w_docker w1 = w_docker w @ [RemoveBridge x]"
    by (auto simp: docker_do_def docker_call_def bindS_def split: docker_reply.splits)
  with Cons [of w1] w1 show ?case by (auto simp: bindS_def logged_def removed_nets_append)
qed simp

text \<open>A teardown that returns has removed the network of every LAN, in the order of
  \<open>teardown_order\<close>.\<close>

lemma teardown_removes:
  assumes h: "hydrate tid (w_repo w) = Inr (Some h)" and pin: "\<not> agent_pinned (h_topology h)"
    and run: "teardown_topology env tid w = (Inr (), w')"
  shows "removed_nets (w_docker w') =
    removed_nets (w_docker w) @ map (network_name (env_id_str (dep_env env) tid)) (teardown_order (h_lans h))"
proof -
  let ?g = "network_name (env_id_str (dep_env env) tid)"
  from run h pin obtain w1 w2 there w3 w4 w5 there' w6 where
    1: "to_status env tid TEARING_DOWN None w = (Inr (), w1)" and 2: "docker_do (dep_env env) FromEnv w1 = (Inr (), w2)"
    and 3: "(if there then compose_down_tolerant env tid else returnS ()) w2 = (Inr (), w4)"
    and 4: "forS (\<lambda>lan. docker_do (dep_env env) (RemoveBridge (?g lan))) (teardown_order (h_lans h)) w4 = (Inr (), w5)"
    and 5: "(if there' then unlink env tid else returnS ()) w5 = (Inr (), w6)"
    and 6: "to_status env tid TORN_DOWN None w6 = (Inr (), w')"
    by (auto simp: teardown_topology_def reads_def compose_exists_def simp del: forS.simps)
  have "removed_nets (w_docker w2) = removed_nets (w_docker w)"
    using keeps_netsD [OF keeps_nets_basic(7) 1 [unfolded to_status_def]] keeps_netsD [OF keeps_nets_do 2] by simp
  moreover have "removed_nets (w_docker w4) = removed_nets (w_docker w2)"
    using 3 keeps_netsD [OF keeps_nets_down] by (auto split: if_splits)
  moreover have "removed_nets (w_docker w') = removed_nets (w_docker w5)"
    using 5 keeps_netsD [OF keeps_nets_unlink] keeps_netsD [OF keeps_nets_basic(7) 6 [unfolded to_status_def]]
    by (auto split: if_splits)
  ultimately show ?thesis using forS_remove [OF 4] by simp
qed

text \<open>A deployment that fails after it opened the Docker client removes the networks it created, the
  last one first.\<close>

lemma create_networks_spec:
  assumes "create_networks env tid lans created w = ((res, created'), w')"
  shows "\<exists>k \<le> length lans. created' = created @ map (\<lambda>l. network_name (env_id_str (dep_env env) tid) (l_name l)) (take k lans) \<and>
    (res = Inr () \<longrightarrow> k = length lans) \<and> removed_nets (w_docker w') = removed_nets (w_docker w)"
  using assms
proof (induction lans arbitrary: created w)
  case (Cons l lans)
  let ?n = "network_name (env_id_str (dep_env env) tid) (l_name l)"
  let ?c = "CreateBridge ?n (l_subnet l) (\<not> l_is_dmz l)"
  obtain r1 w1 where w1: "docker_do (dep_env env) ?c w = (r1, w1)" by fastforce
  have same: "removed_nets (w_docker w1) = removed_nets (w_docker w)" using keeps_netsD [OF keeps_nets_do w1] by simp
  show ?case
  proof (cases r1)
    case (Inl e)
    with Cons.prems w1 same show ?thesis by (intro exI [of _ 0]) (auto simp: Let_def)
  next
    case (Inr u)
    with Cons.prems w1 have "create_networks env tid lans (created @ [?n]) w1 = ((res, created'), w')" by (simp add: Let_def)
    from Cons.IH [OF this] obtain k where "k \<le> length lans"
      "created' = (created @ [?n]) @ map (\<lambda>l. network_name (env_id_str (dep_env env) tid) (l_name l)) (take k lans)"
      "res = Inr () \<longrightarrow> k = length lans" "removed_nets (w_docker w') = removed_nets (w_docker w1)" by blast
    with same show ?thesis by (intro exI [of _ "Suc k"]) simp
  qed
qed simp

lemma rollback_removes:
  "\<exists>w'. rollback env tid created w = (Inr (), w') \<and> removed_nets (w_docker w') = removed_nets (w_docker w) @ rev created"
proof -
  obtain w' where run: "rollback env tid created w = (Inr (), w')" by (rule quiet_run [OF quiet_rollback])
  then obtain there w1 w2 there' where
    1: "(if there then logged (compose env (topology_compose_project env tid) [''down'', ''--remove-orphans'']) else returnS ()) w = (Inr (), w1)"
    and 2: "forS (\<lambda>net_name. logged (docker_do (dep_env env) (RemoveBridge net_name))) (rev created) w1 = (Inr (), w2)"
    and 3: "(if there' then logged (unlink env tid) else returnS ()) w2 = (Inr (), w')"
    by (auto simp: rollback_def compose_exists_def simp del: forS.simps)
  have "removed_nets (w_docker w1) = removed_nets (w_docker w)"
    using 1 keeps_netsD [OF keeps_nets_logged [OF keeps_nets_compose]] by (auto split: if_splits)
  moreover have "removed_nets (w_docker w') = removed_nets (w_docker w2)"
    using 3 keeps_netsD [OF keeps_nets_logged [OF keeps_nets_unlink]] by (auto split: if_splits)
  ultimately show ?thesis
    using run 2 forS_remove_logged [of "dep_env env" "rev created" w1] by auto
qed

lemma failed_deploy_removes:
  assumes "materialise_topology env tid h w = (Inl e, w')"
  shows "\<exists>k \<le> length (h_lans h). removed_nets (w_docker w') = removed_nets (w_docker w) @
    rev (map (\<lambda>l. network_name (env_id_str (dep_env env) tid) (l_name l)) (take k (h_lans h)))"
proof -
  obtain res created w1 where c: "create_networks env tid (h_lans h) [] w = ((res, created), w1)" by (metis surj_pair)
  obtain w2 e0 where w2: "removed_nets (w_docker w2) = removed_nets (w_docker w1)"
    and h: "bindS (rollback env tid created) (\<lambda>_. to_status env tid FAILED (Some (dep_reason env e0))) w2 = (Inl e, w') \<or>
      bindS (rollback env tid created) (\<lambda>_. to_status env tid FAILED (Some (dep_reason env e0))) w2 = (Inr (), w')"
  proof (cases res)
    case (Inl e0)
    with assms c show thesis using that [of w1 e0]
      by (auto simp: materialise_topology_def on_raise_def split: prod.splits sum.splits)
  next
    case (Inr u)
    obtain r2 w2 where up: "bring_up env tid h w1 = (r2, w2)" by fastforce
    with keeps_netsD [OF keeps_nets_bring_up] have "removed_nets (w_docker w2) = removed_nets (w_docker w1)" by blast
    with Inr assms c up show thesis using that [of w2]
      by (cases r2) (auto simp: materialise_topology_def on_raise_def split: prod.splits sum.splits)
  qed
  obtain w3 where w3: "rollback env tid created w2 = (Inr (), w3)"
    "removed_nets (w_docker w3) = removed_nets (w_docker w2) @ rev created" using rollback_removes by blast
  have "removed_nets (w_docker w') = removed_nets (w_docker w3)"
    using h w3(1) keeps_netsD [OF keeps_nets_basic(7)] by (auto simp: bindS_def to_status_def)
  with w2 w3(2) create_networks_spec [OF c] show ?thesis by auto
qed

section \<open>Removal order\<close>

lemma lan_name_two_digits:
  assumes "i < 100"
  shows "lan_name i = ''LAN-'' @ [digit_char (i div 10), digit_char (i mod 10)]"
proof (cases "i < 10")
  case True
  then show ?thesis by (simp add: lan_name_def zfill_def nat_str.simps [of i] digit_char_def char_of_def bit_0)
next
  case False
  with assms have "nat_str i = [digit_char (i div 10), digit_char (i mod 10)]"
    by (simp add: nat_str.simps [of i] nat_str.simps [of "i div 10"])
  then show ?thesis by (simp add: lan_name_def zfill_def)
qed

lemma digit_char_mono: "a < b \<Longrightarrow> b < 10 \<Longrightarrow> digit_char a < digit_char b"
  by (simp add: digit_char_def less_char_def)

lemma lan_name_mono:
  assumes "i \<le> j" "j < 100"
  shows "lan_name i \<le> lan_name j"
proof -
  have "i div 10 \<le> j div 10" "i div 10 = j div 10 \<Longrightarrow> i mod 10 \<le> j mod 10" "j div 10 < 10"
    using assms by (auto simp: div_le_mono) (metis assms(1) div_mult_mod_eq nat_add_left_cancel_le)
  then consider "i div 10 < j div 10" | "i div 10 = j div 10" "i mod 10 < j mod 10" | "i div 10 = j div 10" "i mod 10 = j mod 10"
    by linarith
  then show ?thesis
    using assms \<open>j div 10 < 10\<close>
    by cases (auto simp: lan_name_two_digits intro!: less_imp_le digit_char_mono)
qed

lemma lan_names_sorted: "sorted (map lan_name [0..<100])"
  by (auto simp: sorted_iff_nth_mono intro: lan_name_mono)

lemma teardown_order_names:
  assumes "mset (map l_name lans) = mset (map lan_name [0..<n])" "n \<le> 100"
  shows "teardown_order lans = rev (map lan_name [0..<n])"
proof -
  have "map lan_name [0..<n] = take n (map lan_name [0..<100])" using assms(2) by (simp add: take_map)
  then have "sorted (map lan_name [0..<n])" using sorted_wrt_take [OF lan_names_sorted] by metis
  with assms(1) have "sort (map l_name lans) = map lan_name [0..<n]" by (intro properties_for_sort) simp_all
  then show ?thesis by (simp add: teardown_order_def)
qed

lemma teardown_order_hundred:
  assumes "mset (map l_name lans) = mset (map lan_name [0..<n])" "100 < n"
  shows "teardown_order lans \<noteq> rev (map lan_name [0..<n])"
proof
  assume "teardown_order lans = rev (map lan_name [0..<n])"
  then have "map lan_name [0..<n] = sort (map l_name lans)" by (simp add: teardown_order_def)
  then have "sorted (map lan_name [0..<n])" by simp
  then have "map lan_name [0..<n] ! 11 \<le> map lan_name [0..<n] ! 100" using assms(2) by (intro sorted_nth_mono) simp_all
  moreover have "lan_name 100 < lan_name 11" by code_simp
  ultimately show False using assms(2) by simp
qed

end
