(* ===== verification/Simulation.thy ===== *)
theory Simulation
  imports Main
begin

text \<open>
  Refinement of one step relation by another.  A client provides an abstraction function and an
  invariant of the detailed states, shows that every step keeps the invariant and is a step of the
  specification, and gets the same for runs.
\<close>

locale simulation =
  fixes cstep :: "'c \<Rightarrow> 'c \<Rightarrow> bool" and astep :: "'a \<Rightarrow> 'a \<Rightarrow> bool"
    and abs :: "'c \<Rightarrow> 'a" and inv :: "'c \<Rightarrow> bool"
  assumes step_inv: "inv s \<Longrightarrow> cstep s s' \<Longrightarrow> inv s'"
    and step_abs: "inv s \<Longrightarrow> cstep s s' \<Longrightarrow> astep (abs s) (abs s')"
begin

lemma run_simulates:
  assumes "cstep\<^sup>*\<^sup>* s s'" and "inv s"
  shows "inv s' \<and> astep\<^sup>*\<^sup>* (abs s) (abs s')"
  using assms
proof (induction rule: rtranclp_induct)
  case (step t u)
  then show ?case using step_inv step_abs by (meson rtranclp.rtrancl_into_rtrancl)
qed simp

lemma run_keeps:
  assumes "cstep\<^sup>*\<^sup>* s s'" and "inv s" and "P (abs s)" and "\<And>a b. P a \<Longrightarrow> astep a b \<Longrightarrow> P b"
  shows "P (abs s')"
proof -
  have "astep\<^sup>*\<^sup>* a b \<Longrightarrow> P a \<longrightarrow> P b" for a b
    by (induction rule: rtranclp_induct) (use assms(4) in blast)+
  with run_simulates [OF assms(1,2)] assms(3) show ?thesis by blast
qed

end

end
