(* ===== verification/Agent_Topology.thy ===== *)
theory Agent_Topology
  imports Topology_Deploy_Inv Topology_Validate_Sound Simulation "HOL-Library.Sublist"
begin

text \<open>
  The topology side of a worker agent: the cache of what is applied (\<open>decnet/agent/topology_store.py\<close>,
  a SQLite table as a list of rows), applying and dismantling a topology on the worker's own Docker
  (\<open>decnet/agent/topology_ops.py\<close>) and the two endpoints of \<open>decnet/agent/app.py\<close>.  The worker runs
  the deployer's compose helpers on its machine, a \<open>world\<close> whose repository it never touches.  A
  stored blob is the record it was made from (\<open>None\<close> is the text \<open>{}\<close>).  The table is shown to refine
  a single slot.
\<close>

section \<open>The store\<close>

record applied_row =
  ar_topology_id :: nat
  ar_version_hash :: string
  ar_hydrated :: "hydrated option"
  ar_applied_at :: nat
  ar_last_error :: "string option"

type_synonym store = "applied_row list"

definition current :: "store \<Rightarrow> applied_row option" where
  "current rows = (case rows of [] \<Rightarrow> None | row # _ \<Rightarrow> Some row)"

text \<open>\<open>INSERT ... ON CONFLICT(topology_id) DO UPDATE\<close>.\<close>

definition upsert :: "applied_row \<Rightarrow> (applied_row \<Rightarrow> applied_row) \<Rightarrow> store \<Rightarrow> store" where
  "upsert new upd rows =
     (if list_ex (\<lambda>row. ar_topology_id row = ar_topology_id new) rows
      then map (\<lambda>row. if ar_topology_id row = ar_topology_id new then upd row else row) rows
      else rows @ [new])"

definition store_put :: "nat \<Rightarrow> nat \<Rightarrow> string \<Rightarrow> hydrated \<Rightarrow> (unit, store) op" where
  "store_put now tid vh h rows =
     (if (case current rows of None \<Rightarrow> False | Some existing \<Rightarrow> ar_topology_id existing \<noteq> tid)
      then (Inl AlreadyApplied, rows)
      else (Inr (), upsert \<lparr>ar_topology_id = tid, ar_version_hash = vh, ar_hydrated = Some h, ar_applied_at = now, ar_last_error = None\<rparr>
        (\<lambda>row. row\<lparr>ar_version_hash := vh, ar_hydrated := Some h, ar_applied_at := now, ar_last_error := None\<rparr>) rows))"

definition record_error :: "nat \<Rightarrow> string \<Rightarrow> hydrated option \<Rightarrow> (unit, store) op" where
  "record_error tid message h rows =
     (Inr (), upsert \<lparr>ar_topology_id = tid, ar_version_hash = [], ar_hydrated = h, ar_applied_at = 0, ar_last_error = Some message\<rparr>
       (\<lambda>row. row\<lparr>ar_last_error := Some message, ar_hydrated := (if ar_hydrated row = None then h else ar_hydrated row)\<rparr>) rows)"

definition store_clear :: "nat \<Rightarrow> (unit, store) op" where
  "store_clear tid rows = (Inr (), filter (\<lambda>row. ar_topology_id row \<noteq> tid) rows)"

text \<open>\<open>observed\<close>: networks are given with their drivers.\<close>

definition observed :: "(string \<times> string) list \<Rightarrow> string list \<Rightarrow> string list \<times> string list" where
  "observed networks containers =
     (sort (map fst (filter (\<lambda>(name, driver). driver = ''bridge'' \<and> prefix ''decnet-topology-'' name) networks)),
      sort (filter (prefix ''decnet-'') containers))"

text \<open>Nothing a topology creates passes these filters.\<close>

lemma observed_misses_topology:
  "network_name tid lan \<notin> set (fst (observed networks containers))"
  "container_name tid decky \<notin> set (snd (observed networks containers))"
  by (auto simp: observed_def network_name_def container_name_def)

section \<open>Applying and dismantling\<close>

record agent =
  ag_rows :: store
  ag_machine :: world

definition on_rows :: "('a, store) op \<Rightarrow> ('a, agent) op" where
  "on_rows m ag = (case m (ag_rows ag) of (res, rows) \<Rightarrow> (res, ag\<lparr>ag_rows := rows\<rparr>))"

definition on_machine :: "('a, world) op \<Rightarrow> ('a, agent) op" where
  "on_machine m ag = (case m (ag_machine ag) of (res, w) \<Rightarrow> (res, ag\<lparr>ag_machine := w\<rparr>))"

definition agent_topology_id :: "deploy_env \<Rightarrow> hydrated \<Rightarrow> nat result" where
  "agent_topology_id env h =
     (if env_id_str (dep_env env) (t_id (h_topology h)) = [] then Inl ValueError else Inr (t_id (h_topology h)))"

definition check_hash_and_validate :: "deploy_env \<Rightarrow> hydrated \<Rightarrow> string \<Rightarrow> nat result" where
  "check_hash_and_validate env h version_hash =
     (if topology_hash (dep_hash env) h \<noteq> version_hash then Inl HashMismatch
      else bindE (validate (env_known (dep_env env)) h) (\<lambda>issues.
        if errors issues \<noteq> [] then Inl ValidationError else agent_topology_id env h))"

definition dismantle :: "deploy_env \<Rightarrow> nat \<Rightarrow> applied_row option \<Rightarrow> (unit, world) op" where
  "dismantle env tid row =
     bindS (compose_exists env tid) (\<lambda>there.
     bindS (if there then compose_down_tolerant env tid else returnS ()) (\<lambda>_.
     bindS (case row of
              None \<Rightarrow> returnS ()
            | Some row \<Rightarrow> (case ar_hydrated row of
                None \<Rightarrow> raiseS KeyError
              | Some h \<Rightarrow> forS (\<lambda>lan. docker_do (dep_env env) (RemoveBridge (network_name (env_id_str (dep_env env) tid) lan)))
                  (teardown_order (h_lans h)))) (\<lambda>_.
     bindS (compose_exists env tid) (\<lambda>there.
       if there then unlink env tid else returnS ()))))"

definition agent_teardown :: "deploy_env \<Rightarrow> nat \<Rightarrow> (unit, agent) op" where
  "agent_teardown env tid ag =
     (let row = (case current (ag_rows ag) of Some row \<Rightarrow> if ar_topology_id row = tid then Some row else None | None \<Rightarrow> None)
      in bindS (on_machine (docker_do (dep_env env) FromEnv)) (\<lambda>_.
         bindS (on_machine (dismantle env tid row)) (\<lambda>_.
           on_rows (store_clear tid))) ag)"

definition teardown_superseded :: "deploy_env \<Rightarrow> nat \<Rightarrow> (unit, agent) op" where
  "teardown_superseded env tid ag =
     (case current (ag_rows ag) of
        None \<Rightarrow> (Inr (), ag)
      | Some existing \<Rightarrow>
          if ar_topology_id existing = tid then (Inr (), ag)
          else (case agent_teardown env (ar_topology_id existing) ag of
              (Inr _, ag') \<Rightarrow> (Inr (), ag')
            | (Inl _, ag') \<Rightarrow> on_rows (store_clear (ar_topology_id existing)) ag'))"

definition agent_materialise :: "deploy_env \<Rightarrow> hydrated \<Rightarrow> nat \<Rightarrow> (unit, world) op" where
  "agent_materialise env h tid =
     bindS (docker_do (dep_env env) FromEnv) (\<lambda>_.
     bindS (forS (\<lambda>lan. docker_do (dep_env env)
              (CreateBridge (network_name (env_id_str (dep_env env) tid) (l_name lan)) (l_subnet lan) (\<not> l_is_dmz lan))) (h_lans h)) (\<lambda>_.
     bindS (write_topology_compose (dep_env env) tid h) (\<lambda>_.
       compose_with_retry env 3 (topology_compose_project env tid) [''up'', ''--build'', ''-d'', ''--always-recreate-deps''])))"

definition agent_apply :: "deploy_env \<Rightarrow> hydrated \<Rightarrow> string \<Rightarrow> (unit, agent) op" where
  "agent_apply env h version_hash =
     bindS (liftE (check_hash_and_validate env h version_hash)) (\<lambda>tid.
     bindS (teardown_superseded env tid) (\<lambda>_.
     bindS (on_machine (agent_materialise env h tid)) (\<lambda>_.
       on_rows (store_put (env_now (dep_env env)) tid version_hash h))))"

definition agent_report :: "agent \<Rightarrow> (nat \<times> string) option" where
  "agent_report ag = map_option (\<lambda>row. (ar_topology_id row, ar_version_hash row)) (current (ag_rows ag))"

section \<open>The endpoints\<close>

datatype http_reply = HttpOk | HttpError nat

definition topology_apply :: "deploy_env \<Rightarrow> hydrated \<Rightarrow> string \<Rightarrow> agent \<Rightarrow> http_reply \<times> agent" where
  "topology_apply env h version_hash ag =
     (case agent_apply env h version_hash ag of
        (Inr _, ag') \<Rightarrow> (HttpOk, ag')
      | (Inl e, ag') \<Rightarrow>
          if e = HashMismatch then (HttpError 400, ag')
          else if e = ValidationError then (HttpError 400, ag')
          else if e = AlreadyApplied then (HttpError 409, ag')
          else if env_id_str (dep_env env) (t_id (h_topology h)) = [] then (HttpError 500, ag')
          else (HttpError 500, snd (on_rows (record_error (t_id (h_topology h)) (take 500 (dep_reason env e)) (Some h)) ag')))"

definition topology_teardown :: "deploy_env \<Rightarrow> nat \<Rightarrow> agent \<Rightarrow> http_reply \<times> agent" where
  "topology_teardown env tid ag =
     (case agent_teardown env tid ag of (Inr _, ag') \<Rightarrow> (HttpOk, ag') | (Inl _, ag') \<Rightarrow> (HttpError 500, ag'))"

section \<open>One slot\<close>

text \<open>What the table is meant to be: nothing, or the one topology that was applied last or that failed
  to apply.\<close>

definition agent_wf :: "agent \<Rightarrow> bool" where
  "agent_wf ag \<longleftrightarrow> length (ag_rows ag) \<le> 1 \<and>
     list_all (\<lambda>row. \<exists>h. ar_hydrated row = Some h \<and> t_id (h_topology h) = ar_topology_id row) (ag_rows ag)"

definition slot :: "agent \<Rightarrow> applied_row option" where
  "slot ag = current (ag_rows ag)"

definition slot_applied :: "nat \<Rightarrow> hydrated \<Rightarrow> string \<Rightarrow> applied_row" where
  "slot_applied now h vh = \<lparr>ar_topology_id = t_id (h_topology h), ar_version_hash = vh, ar_hydrated = Some h,
     ar_applied_at = now, ar_last_error = None\<rparr>"

definition slot_failed :: "hydrated \<Rightarrow> string \<Rightarrow> applied_row option \<Rightarrow> applied_row" where
  "slot_failed h msg s =
     (case s of
        Some row \<Rightarrow> if ar_topology_id row = t_id (h_topology h) then row\<lparr>ar_last_error := Some msg\<rparr>
          else \<lparr>ar_topology_id = t_id (h_topology h), ar_version_hash = [], ar_hydrated = Some h, ar_applied_at = 0, ar_last_error = Some msg\<rparr>
      | None \<Rightarrow> \<lparr>ar_topology_id = t_id (h_topology h), ar_version_hash = [], ar_hydrated = Some h, ar_applied_at = 0, ar_last_error = Some msg\<rparr>)"

lemma agent_wf_cases:
  assumes "agent_wf ag"
  obtains (idle) "ag_rows ag = []" "slot ag = None"
  | (busy) row h where "ag_rows ag = [row]" "slot ag = Some row" "ar_hydrated row = Some h" "t_id (h_topology h) = ar_topology_id row"
  using assms by (cases "ag_rows ag") (auto simp: agent_wf_def slot_def current_def)

lemma agent_wfI [intro]:
  "ag_rows ag = [] \<Longrightarrow> agent_wf ag"
  "ag_rows ag = [row] \<Longrightarrow> ar_hydrated row = Some h \<Longrightarrow> t_id (h_topology h) = ar_topology_id row \<Longrightarrow> agent_wf ag"
  by (auto simp: agent_wf_def)

lemma on_rows_simps [simp]:
  "on_rows (store_clear tid) ag = (Inr (), ag\<lparr>ag_rows := filter (\<lambda>row. ar_topology_id row \<noteq> tid) (ag_rows ag)\<rparr>)"
  by (simp add: on_rows_def store_clear_def)

lemma on_machine_rows: "on_machine m ag = (res, ag') \<Longrightarrow> ag_rows ag' = ag_rows ag"
  by (auto simp: on_machine_def split: prod.splits)

text \<open>A teardown that raises has not touched the table; one that returns has removed its topology.\<close>

lemma agent_teardown_rows:
  assumes "agent_teardown env tid ag = (res, ag')"
  shows "ag_rows ag' = (case res of Inl _ \<Rightarrow> ag_rows ag | Inr _ \<Rightarrow> filter (\<lambda>row. ar_topology_id row \<noteq> tid) (ag_rows ag))"
  using assms unfolding agent_teardown_def Let_def
  by (auto simp: bindS_def split: prod.splits sum.splits dest!: on_machine_rows)

lemma teardown_superseded_rows:
  assumes "agent_wf ag" "teardown_superseded env tid ag = (res, ag')"
  shows "res = Inr ()" "ag_rows ag' = filter (\<lambda>row. ar_topology_id row = tid) (ag_rows ag)"
proof -
  have "res = Inr () \<and> ag_rows ag' = filter (\<lambda>row. ar_topology_id row = tid) (ag_rows ag)"
    using assms(1)
  proof (cases rule: agent_wf_cases)
    case idle
    with assms(2) show ?thesis by (simp add: teardown_superseded_def slot_def)
  next
    case (busy row h)
    show ?thesis
    proof (cases "ar_topology_id row = tid")
      case True
      with busy assms(2) show ?thesis by (simp add: teardown_superseded_def slot_def)
    next
      case False
      obtain r a where run: "agent_teardown env (ar_topology_id row) ag = (r, a)" by fastforce
      from agent_teardown_rows [OF run] busy(1) have "filter (\<lambda>row'. ar_topology_id row' \<noteq> ar_topology_id row) (ag_rows a) = []"
        and "\<And>u. r = Inr u \<Longrightarrow> ag_rows a = []"
        by (auto split: sum.splits)
      with False busy(1,2) assms(2) run show ?thesis
        by (auto simp: teardown_superseded_def slot_def split: sum.splits)
    qed
  qed
  then show "res = Inr ()" "ag_rows ag' = filter (\<lambda>row. ar_topology_id row = tid) (ag_rows ag)" by blast+
qed

text \<open>Materialising raises none of the three exceptions the endpoint answers differently.\<close>

abbreviation plain :: "exn set" where
  "plain \<equiv> - {HashMismatch, ValidationError, AlreadyApplied}"

lemma get_service_plain [raises, simp]: "raisesE plain (get_service reg name)"
  by (simp add: get_service_def split: option.split)

lemma compose_nets_plain [raises, simp]: "raisesE plain (compose_nets tid known ips)"
  unfolding compose_nets_def by (intro raisesE_foldE) (auto split: prod.split)

lemma published_ports_plain [raises, simp]: "raisesE plain (published_ports reg cfg names)"
  unfolding published_ports_def by (intro raisesE_intros) auto

lemma compose_service_plain [raises, simp]: "raisesE plain (compose_service tid name svc fragment)"
proof -
  have "raisesE plain (with_base_image f)" for f by (simp add: with_base_image_def split: option.split json.split)
  moreover have "raisesE plain (with_hostname_env name f)" for f
    unfolding with_hostname_env_def by (cases "map_of (setdefault ''environment'' (JObj []) f) ''environment''") (simp_all split: json.split)
  moreover have "raisesE plain (fragment_labels f)" for f by (simp add: fragment_labels_def split: option.split json.split)
  ultimately show ?thesis unfolding compose_service_def Let_def by (intro raisesE_intros) auto
qed

lemma compose_decky_plain: "raisesE plain (compose_decky reg tid known d acc)"
  unfolding compose_decky_def Let_def
  by (auto split: option.split intro!: raisesE_intros)

lemma generate_compose_plain: "raisesE plain (generate_topology_compose id_str reg h)"
  unfolding generate_topology_compose_def Let_def by (intro raisesE_intros compose_decky_plain) simp

lemma docker_do_plain [raises, simp]: "raises_only plain (docker_do env c)"
  by (auto simp: raises_only_def docker_do_def docker_call_def bindS_def split: docker_reply.splits)

lemma compose_attempts_plain [raises, simp]: "e0 \<in> plain \<Longrightarrow> raises_only plain (compose_attempts env c k d e0)"
proof (induction k arbitrary: d e0)
  case (Suc k)
  have "raises_only plain (run_proc env c)" by (auto simp: raises_only_def run_proc_def split: proc_reply.splits)
  moreover have "raises_only plain (leaked_mounts env)" "raises_only plain (sleep d)"
    by (auto simp: raises_only_def leaked_mounts_def sleep_def)
  ultimately show ?case using Suc.IH by (auto simp: raises intro!: raises_bindS split: prod.split)
qed (simp add: raises)

lemma agent_materialise_plain: "raises_only plain (agent_materialise env h tid)"
proof -
  have "raises_only plain (leaked_mounts env)" by (auto simp: raises_only_def leaked_mounts_def)
  then have "raises_only plain (compose_with_retry env 3 p args)" for p args
    unfolding compose_with_retry_def by (auto simp: raises intro!: raises_bindS)
  moreover have "raises_only plain (write_topology_compose (dep_env env) tid h)"
    unfolding write_topology_compose_def using generate_compose_plain [unfolded raisesE_def] by (intro raises_bindS) (auto simp: raises)
  ultimately show ?thesis unfolding agent_materialise_def by (intro raises_bindS raises_forS) auto
qed

lemma upsert_wf:
  assumes "agent_wf ag" "\<forall>row \<in> set (ag_rows ag). ar_topology_id row = ar_topology_id new"
  shows "upsert new upd (ag_rows ag) = [case slot ag of Some row \<Rightarrow> upd row | None \<Rightarrow> new]"
  using assms(1)
proof (cases rule: agent_wf_cases)
  case idle
  then show ?thesis by (simp add: upsert_def)
next
  case (busy row h)
  have "ar_topology_id row = ar_topology_id new" using assms(2) unfolding busy(1) by simp
  then show ?thesis unfolding busy(1,2) upsert_def by simp
qed

text \<open>The effect of the apply endpoint on the slot, by its reply.\<close>

definition apply_spec :: "deploy_env \<Rightarrow> hydrated \<Rightarrow> string \<Rightarrow> http_reply \<Rightarrow> applied_row option \<Rightarrow> applied_row option \<Rightarrow> bool" where
  "apply_spec env h vh reply s s' \<longleftrightarrow>
     reply = HttpOk \<and> s' = Some (slot_applied (env_now (dep_env env)) h vh) \<or>
     reply = HttpError 400 \<and> s' = s \<or>
     reply = HttpError 500 \<and> (\<exists>e. s' = Some (slot_failed h (take 500 (dep_reason env e)) s))"

lemma topology_apply_spec:
  assumes wf: "agent_wf ag" and edges: "edges_known h" and id: "env_id_str (dep_env env) (t_id (h_topology h)) \<noteq> []"
    and run: "topology_apply env h vh ag = (reply, ag')"
  shows "agent_wf ag' \<and> apply_spec env h vh reply (slot ag) (slot ag')"
proof (cases "check_hash_and_validate env h vh")
  case (Inl e)
  obtain issues where "validate (env_known (dep_env env)) h = Inr issues" using validate_total [OF edges] by blast
  with Inl id have "e = HashMismatch \<or> e = ValidationError"
    by (auto simp: check_hash_and_validate_def agent_topology_id_def split: if_splits)
  with Inl run have "reply = HttpError 400" "ag' = ag" by (auto simp: topology_apply_def agent_apply_def bindS_def)
  with wf show ?thesis by (simp add: apply_spec_def)
next
  case (Inr tid)
  then have tid: "tid = t_id (h_topology h)"
    by (auto simp: check_hash_and_validate_def agent_topology_id_def split: if_splits)
  obtain r1 a1 where sup: "teardown_superseded env tid ag = (r1, a1)" by fastforce
  note rows1 = teardown_superseded_rows [OF wf sup]
  have wf1: "agent_wf a1" using wf rows1(2) by (auto simp: agent_wf_def list_all_iff intro: order_trans [OF length_filter_le])
  obtain r2 a2 where mat: "on_machine (agent_materialise env h tid) a1 = (r2, a2)" by fastforce
  have rows2: "ag_rows a2 = ag_rows a1" using on_machine_rows [OF mat] .
  have wf2: "agent_wf a2" using wf1 rows2 by (simp add: agent_wf_def)
  have own: "\<forall>row \<in> set (ag_rows a2). ar_topology_id row = tid" using rows1(2) rows2 by simp
  have slot2: "slot a2 = (case slot ag of Some row \<Rightarrow> if ar_topology_id row = tid then Some row else None | None \<Rightarrow> None)"
    using wf by (cases rule: agent_wf_cases) (simp_all add: slot_def rows2 rows1(2) current_def)
  show ?thesis
  proof (cases r2)
    case Inr2: (Inr u)
    have cur: "\<not> (case current (ag_rows a2) of None \<Rightarrow> False | Some existing \<Rightarrow> ar_topology_id existing \<noteq> tid)"
      using own by (auto simp: current_def split: list.splits)
    let ?new = "slot_applied (env_now (dep_env env)) h vh"
    have "ag_rows ag' = [?new]" and ok: "reply = HttpOk"
    proof -
      have "upsert ?new (\<lambda>row. row\<lparr>ar_version_hash := vh, ar_hydrated := Some h, ar_applied_at := env_now (dep_env env), ar_last_error := None\<rparr>)
          (ag_rows a2) = [?new]"
        using upsert_wf [OF wf2, of ?new] own tid slot2 by (auto simp: slot_applied_def split: option.splits if_splits)
      with run Inr Inr2 sup rows1(1) mat cur tid show "ag_rows ag' = [?new]" "reply = HttpOk"
        by (auto simp: topology_apply_def agent_apply_def bindS_def on_rows_def store_put_def slot_applied_def)
    qed
    then show ?thesis by (auto simp: agent_wf_def slot_applied_def apply_spec_def slot_def current_def)
  next
    case (Inl e)
    have "e \<in> plain" using mat Inl raises_onlyD [OF agent_materialise_plain] by (auto simp: on_machine_def split: prod.splits)
    with run Inr Inl sup rows1(1) mat id have out: "reply = HttpError 500"
      "ag' = snd (on_rows (record_error tid (take 500 (dep_reason env e)) (Some h)) a2)"
      by (auto simp: topology_apply_def agent_apply_def bindS_def tid)
    let ?msg = "take 500 (dep_reason env e)"
    have "ag_rows ag' = [slot_failed h ?msg (slot ag)]"
      unfolding out(2) on_rows_def record_error_def using upsert_wf [OF wf2, of "\<lparr>ar_topology_id = tid, ar_version_hash = [],
        ar_hydrated = Some h, ar_applied_at = 0, ar_last_error = Some ?msg\<rparr>"] own slot2 wf
      by (auto simp: slot_failed_def tid elim!: agent_wf_cases split: option.splits if_splits)
    moreover have "\<exists>h'. ar_hydrated (slot_failed h ?msg (slot ag)) = Some h' \<and>
        t_id (h_topology h') = ar_topology_id (slot_failed h ?msg (slot ag))"
      using wf by (cases rule: agent_wf_cases) (auto simp: slot_failed_def)
    ultimately show ?thesis using out(1) by (auto simp: agent_wf_def apply_spec_def slot_def current_def)
  qed
qed

inductive slot_step :: "applied_row option \<Rightarrow> applied_row option \<Rightarrow> bool" where
  refused: "slot_step s s"
| applied: "slot_step s (Some (slot_applied now h vh))"
| failed: "slot_step s (Some (slot_failed h msg s))"
| cleared: "slot_step s None"

inductive agent_step :: "agent \<Rightarrow> agent \<Rightarrow> bool" where
  apply_request: "edges_known h \<Longrightarrow> env_id_str (dep_env env) (t_id (h_topology h)) \<noteq> [] \<Longrightarrow>
    agent_step ag (snd (topology_apply env h vh ag))"
| teardown_request: "agent_step ag (snd (topology_teardown env tid ag))"

lemma topology_teardown_slot:
  assumes "agent_wf ag" "topology_teardown env tid ag = (reply, ag')"
  shows "agent_wf ag'"
    "slot ag' = (if reply = HttpOk \<and> map_option ar_topology_id (slot ag) = Some tid then None else slot ag)"
proof -
  obtain res a where run: "agent_teardown env tid ag = (res, a)" by fastforce
  note rows = agent_teardown_rows [OF run]
  have out: "a = ag'" "reply = (case res of Inl _ \<Rightarrow> HttpError 500 | Inr _ \<Rightarrow> HttpOk)"
    using assms(2) run by (auto simp: topology_teardown_def split: sum.splits)
  show "agent_wf ag'" using assms(1) rows out(1)
    by (auto simp: agent_wf_def list_all_iff split: sum.splits intro: order_trans [OF length_filter_le])
  show "slot ag' = (if reply = HttpOk \<and> map_option ar_topology_id (slot ag) = Some tid then None else slot ag)"
    using assms(1) by (cases rule: agent_wf_cases) (use rows out in \<open>auto simp: slot_def current_def split: sum.splits\<close>)
qed

interpretation agents: simulation agent_step slot_step slot agent_wf
proof
  fix ag ag' assume wf: "agent_wf ag" and step: "agent_step ag ag'"
  show "agent_wf ag'" using step
    by cases (use wf topology_apply_spec topology_teardown_slot(1) in \<open>metis prod.collapse\<close>)+
  show "slot_step (slot ag) (slot ag')" using step
  proof cases
    case (apply_request h env vh)
    obtain reply where run: "topology_apply env h vh ag = (reply, ag')" using apply_request(1) by (metis prod.collapse)
    show ?thesis using topology_apply_spec [OF wf apply_request(2,3) run]
      by (auto simp: apply_spec_def intro: slot_step.intros)
  next
    case (teardown_request env tid)
    obtain reply where run: "topology_teardown env tid ag = (reply, ag')" using teardown_request by (metis prod.collapse)
    show ?thesis using topology_teardown_slot(2) [OF wf run] by (auto intro: slot_step.intros)
  qed
qed

end
