(* ===== verification/Swarm_Resync.thy ===== *)
theory Swarm_Resync
  imports Agent_Topology Topology_Roundtrip
begin

text \<open>
  Keeping an agent's topology in step with the master: the part of the heartbeat handler that compares
  the reported hash (\<open>_reconcile_topology_report\<close> of \<open>decnet/web/router/swarm/api_heartbeat.py\<close>) and the
  reconciler that pushes the flagged topologies again (\<open>reconcile_agent_resyncs\<close> of
  \<open>decnet/mutator/engine.py\<close>).  A report flags exactly the active topologies that are not in step;
  a pushed topology is flagged again by the next report, since its flag is part of the hash.
\<close>

section \<open>Reports and pushes\<close>

definition report_topology :: "hash_env \<Rightarrow> (nat \<times> string) option \<Rightarrow> topology_row \<Rightarrow> (unit, world) op" where
  "report_topology he reported topo w =
     (let tid = t_id topo; flag = on_repo (set_topology_resync tid True) in
      if t_needs_resync topo then (Inr (), w)
      else case reported of
        Some (reported_id, reported_hash) \<Rightarrow>
          if reported_id = tid \<and> reported_hash \<noteq> [] then
            (case hydrate tid (w_repo w) of
               Inl e \<Rightarrow> if e \<in> {IntegrityError, KeyError, TypeError} then (Inr (), w) else (Inl e, w)
             | Inr None \<Rightarrow> (Inr (), w)
             | Inr (Some hydrated) \<Rightarrow> if topology_hash he hydrated = reported_hash then (Inr (), w) else flag w)
          else flag w
      | None \<Rightarrow> flag w)"

definition reconcile_topology_report :: "hash_env \<Rightarrow> string \<Rightarrow> (nat \<times> string) option \<Rightarrow> (unit, world) op" where
  "reconcile_topology_report he host_uuid reported w =
     forS (report_topology he reported)
       (filter (\<lambda>t. t_target_host_uuid t = Some host_uuid) (list_topologies (Some ACTIVE) None None (w_repo w))) w"

definition resync_one :: "deploy_env \<Rightarrow> nat \<Rightarrow> (unit, world) op" where
  "resync_one env tid = bindS (resync_agent_topology env tid) (\<lambda>_. on_repo (set_topology_resync tid False))"

fun resync_loop :: "deploy_env \<Rightarrow> topology_row list \<Rightarrow> nat \<Rightarrow> (nat, world) op" where
  "resync_loop env [] drained w = (Inr drained, w)"
| "resync_loop env (topo # pending) drained w =
     (case resync_one env (t_id topo) w of
        (Inr _, w') \<Rightarrow> resync_loop env pending (Suc drained) w'
      | (Inl _, w') \<Rightarrow> resync_loop env pending drained w')"

definition reconcile_agent_resyncs :: "deploy_env \<Rightarrow> (nat, world) op" where
  "reconcile_agent_resyncs env w = resync_loop env (list_topologies_needing_resync (w_repo w)) 0 w"

section \<open>The flag\<close>

definition flag_of :: "nat \<Rightarrow> repo \<Rightarrow> bool option" where
  "flag_of tid r = map_option t_needs_resync (find_topology tid r)"

definition flagging :: "bool \<Rightarrow> topology_row \<Rightarrow> topology_row" where
  "flagging v t = t\<lparr>t_needs_resync := v\<rparr>"

lemma set_topology_resync_run: "set_topology_resync tid v r = (Inr (), update_topology tid (flagging v) r)"
proof (cases "find_topology tid r")
  case None
  then have "\<forall>t \<in> set (r_topologies r). t_id t \<noteq> tid" by (auto simp: find_topology_def find_None_iff)
  then have "update_topology tid (flagging v) r = r" by (simp add: update_topology_def map_idI)
  with None show ?thesis by (simp add: set_topology_resync_def session_def)
next
  case (Some t)
  then show ?thesis by (simp add: set_topology_resync_def session_def flagging_def [abs_def])
qed

lemma find_topology_flagging:
  "find_topology k (update_topology tid (flagging v) r) = (if k = tid then map_option (flagging v) (find_topology k r) else find_topology k r)"
proof -
  have "find_topology k r = Some t \<Longrightarrow> t_id t = k" for t by (auto simp: find_topology_def dest: find_SomeD)
  moreover have "t_id (flagging v t) = t_id t" for t by (simp add: flagging_def)
  ultimately show ?thesis by (cases "find_topology k r") (auto simp: find_update_topology)
qed

lemma hydrate_flagging:
  "hydrate k (update_topology tid (flagging v) r) =
     (if k = tid then map_sum id (map_option (\<lambda>h. h\<lparr>h_topology := flagging v (h_topology h)\<rparr>)) (hydrate k r) else hydrate k r)"
proof -
  have "list_lans_for_topology k (update_topology tid (flagging v) r) = list_lans_for_topology k r"
    "list_topology_deckies k (update_topology tid (flagging v) r) = list_topology_deckies k r"
    "list_topology_edges k (update_topology tid (flagging v) r) = list_topology_edges k r"
    by (simp_all add: update_topology_def list_lans_for_topology_def list_topology_deckies_def list_topology_edges_def)
  then show ?thesis
    by (cases "backfill_decky_configs (list_lans_for_topology k r) (list_topology_deckies k r) (list_topology_edges k r)")
      (auto simp: hydrate_def find_topology_flagging Let_def bindE_def split: option.split)
qed

section \<open>What a report flags\<close>

definition in_sync :: "hash_env \<Rightarrow> repo \<Rightarrow> (nat \<times> string) option \<Rightarrow> topology_row \<Rightarrow> bool" where
  "in_sync he r reported t \<longleftrightarrow> (\<exists>hash h. reported = Some (t_id t, hash) \<and> hash \<noteq> [] \<and>
     hydrate (t_id t) r = Inr (Some h) \<and> topology_hash he h = hash)"

definition readable :: "repo \<Rightarrow> (nat \<times> string) option \<Rightarrow> topology_row \<Rightarrow> bool" where
  "readable r reported t \<longleftrightarrow> (\<forall>hash. reported = Some (t_id t, hash) \<longrightarrow> (\<exists>h. hydrate (t_id t) r = Inr (Some h)))"

lemma report_topology_step:
  assumes t: "find_topology (t_id t) (w_repo w) = Some t" and h: "readable (w_repo w) reported t"
  obtains w1 where "report_topology he reported t w = (Inr (), w1)"
    "\<And>k. flag_of k (w_repo w1) = (if k = t_id t then Some (t_needs_resync t \<or> \<not> in_sync he (w_repo w) reported t) else flag_of k (w_repo w))"
    "\<And>k. k \<noteq> t_id t \<Longrightarrow> find_topology k (w_repo w1) = find_topology k (w_repo w)"
    "\<And>k. k \<noteq> t_id t \<Longrightarrow> hydrate k (w_repo w1) = hydrate k (w_repo w)"
proof (cases "t_needs_resync t \<or> in_sync he (w_repo w) reported t")
  case True
  then have "report_topology he reported t w = (Inr (), w)" by (auto simp: report_topology_def in_sync_def Let_def)
  with True t show thesis by (intro that [of w]) (auto simp: flag_of_def)
next
  case False
  let ?w1 = "w\<lparr>w_repo := update_topology (t_id t) (flagging True) (w_repo w)\<rparr>"
  have "report_topology he reported t w = (Inr (), ?w1)"
    using False h by (auto simp: report_topology_def in_sync_def readable_def Let_def on_repo_def set_topology_resync_run split: option.splits)
  with False t show thesis
    by (intro that [of ?w1]) (auto simp: flag_of_def find_topology_flagging hydrate_flagging, simp add: flagging_def)
qed

lemma report_loop:
  assumes "distinct (map t_id ts)"
    and "\<And>t. t \<in> set ts \<Longrightarrow> find_topology (t_id t) (w_repo w) = Some t \<and> readable (w_repo w) reported t"
  obtains w' where "forS (report_topology he reported) ts w = (Inr (), w')"
    "\<And>t. t \<in> set ts \<Longrightarrow> flag_of (t_id t) (w_repo w') = Some (t_needs_resync t \<or> \<not> in_sync he (w_repo w) reported t)"
    "\<And>k. k \<notin> t_id ` set ts \<Longrightarrow> find_topology k (w_repo w') = find_topology k (w_repo w)"
  using assms
proof (induction ts arbitrary: w thesis)
  case Nil
  then show ?case by simp
next
  case (Cons t ts)
  obtain w1 where w1: "report_topology he reported t w = (Inr (), w1)"
    "\<And>k. flag_of k (w_repo w1) = (if k = t_id t then Some (t_needs_resync t \<or> \<not> in_sync he (w_repo w) reported t) else flag_of k (w_repo w))"
    "\<And>k. k \<noteq> t_id t \<Longrightarrow> find_topology k (w_repo w1) = find_topology k (w_repo w)"
    "\<And>k. k \<noteq> t_id t \<Longrightarrow> hydrate k (w_repo w1) = hydrate k (w_repo w)"
    using report_topology_step [of t w reported he] Cons.prems(3) by (metis list.set_intros(1))
  have other: "t_id u \<noteq> t_id t" if "u \<in> set ts" for u using Cons.prems(2) that by (auto simp: image_iff)
  then have same: "in_sync he (w_repo w1) reported u = in_sync he (w_repo w) reported u"
    "readable (w_repo w1) reported u = readable (w_repo w) reported u" if "u \<in> set ts" for u
    using that w1(4) by (simp_all add: in_sync_def readable_def)
  obtain w' where w': "forS (report_topology he reported) ts w1 = (Inr (), w')"
    "\<And>u. u \<in> set ts \<Longrightarrow> flag_of (t_id u) (w_repo w') = Some (t_needs_resync u \<or> \<not> in_sync he (w_repo w1) reported u)"
    "\<And>k. k \<notin> t_id ` set ts \<Longrightarrow> find_topology k (w_repo w') = find_topology k (w_repo w1)"
  proof (rule Cons.IH [of w1])
    show "distinct (map t_id ts)" using Cons.prems(2) by simp
    show "find_topology (t_id u) (w_repo w1) = Some u \<and> readable (w_repo w1) reported u" if "u \<in> set ts" for u
      using Cons.prems(3) [of u] that other [OF that] same(2) [OF that] w1(3) by simp
  qed blast
  have "t_id t \<notin> t_id ` set ts" using other by fastforce
  then have "flag_of (t_id t) (w_repo w') = Some (t_needs_resync t \<or> \<not> in_sync he (w_repo w) reported t)"
    using w'(3) w1(2) by (simp add: flag_of_def)
  then show ?case
    using w' w1(1,3) same(1) by (intro Cons.prems(1) [of w']) (auto simp: bindS_def)
qed

lemma mine_iff:
  "t \<in> set (filter (\<lambda>t. t_target_host_uuid t = Some host) (list_topologies (Some ACTIVE) None None r)) \<longleftrightarrow>
   t \<in> set (r_topologies r) \<and> t_status t = ACTIVE \<and> t_target_host_uuid t = Some host"
  by (auto simp: list_topologies_def)

lemma mine_distinct:
  assumes "repo_wf r"
  shows "distinct (map t_id (filter (\<lambda>t. t_target_host_uuid t = Some host) (list_topologies (Some ACTIVE) None None r)))"
proof -
  have "distinct (map t_id (r_topologies r))" using assms by (simp add: repo_wf_defs rows_ok_def)
  then have "distinct (map t_id (rev (sort_key t_created_at (r_topologies r))))"
    by (simp add: distinct_map rev_map [symmetric])
  then show ?thesis by (simp add: list_topologies_def distinct_map_filter)
qed

lemma report_flags:
  assumes wf: "repo_wf (w_repo w)"
    and read: "\<And>t. t \<in> set (r_topologies (w_repo w)) \<Longrightarrow> readable (w_repo w) reported t"
  obtains w' where "reconcile_topology_report he host reported w = (Inr (), w')"
    "\<And>t. t \<in> set (r_topologies (w_repo w)) \<Longrightarrow> flag_of (t_id t) (w_repo w') =
       Some (t_needs_resync t \<or> t_status t = ACTIVE \<and> t_target_host_uuid t = Some host \<and> \<not> in_sync he (w_repo w) reported t)"
proof -
  let ?ts = "filter (\<lambda>t. t_target_host_uuid t = Some host) (list_topologies (Some ACTIVE) None None (w_repo w))"
  have rows: "find_topology (t_id t) (w_repo w) = Some t \<and> readable (w_repo w) reported t" if "t \<in> set ?ts" for t
    using that find_topology_id [OF wf] read mine_iff by blast
  obtain w' where w': "forS (report_topology he reported) ?ts w = (Inr (), w')"
    "\<And>t. t \<in> set ?ts \<Longrightarrow> flag_of (t_id t) (w_repo w') = Some (t_needs_resync t \<or> \<not> in_sync he (w_repo w) reported t)"
    "\<And>k. k \<notin> t_id ` set ?ts \<Longrightarrow> find_topology k (w_repo w') = find_topology k (w_repo w)"
    using report_loop [OF mine_distinct [OF wf] rows] by blast
  show thesis
  proof (rule that [of w'])
    show "reconcile_topology_report he host reported w = (Inr (), w')" using w'(1) by (simp add: reconcile_topology_report_def)
    fix t assume t: "t \<in> set (r_topologies (w_repo w))"
    show "flag_of (t_id t) (w_repo w') =
       Some (t_needs_resync t \<or> t_status t = ACTIVE \<and> t_target_host_uuid t = Some host \<and> \<not> in_sync he (w_repo w) reported t)"
    proof (cases "t \<in> set ?ts")
      case True
      have "t_status t = ACTIVE" "t_target_host_uuid t = Some host" using True unfolding mine_iff by simp_all
      with w'(2) [OF True] show ?thesis by simp
    next
      case False
      have "t_id t \<notin> t_id ` set ?ts"
      proof
        assume "t_id t \<in> t_id ` set ?ts"
        then obtain u where u: "t_id t = t_id u" "u \<in> set ?ts" by (rule imageE)
        from rows [OF u(2)] find_topology_id [OF wf t] u(1) have "u = t" by simp
        with u(2) False show False by blast
      qed
      from w'(3) [OF this] find_topology_id [OF wf t] have "flag_of (t_id t) (w_repo w') = Some (t_needs_resync t)"
        by (simp add: flag_of_def)
      moreover have "\<not> (t_status t = ACTIVE \<and> t_target_host_uuid t = Some host)" using False t unfolding mine_iff by blast
      ultimately show ?thesis by auto
    qed
  qed
qed

section \<open>Pushing again\<close>

lemma resync_one_repo:
  assumes "resync_one env k w = (res, w1)"
  shows "w_repo w1 = (case res of Inl _ \<Rightarrow> w_repo w | Inr _ \<Rightarrow> update_topology k (flagging False) (w_repo w))"
proof -
  have keeps: "keeps_repo (resync_agent_topology env k)"
    unfolding resync_agent_topology_def by (auto intro!: keeps_bindS split: option.split)
  show ?thesis using assms keeps_repoD [OF keeps]
    by (auto simp: resync_one_def bindS_def on_repo_def set_topology_resync_run split: prod.splits sum.splits)
qed

text \<open>Whatever the agents answer, a pass only clears flags.\<close>

lemma resync_loop_induct:
  assumes "resync_loop env ts n w = (res, w')" and "P (w_repo w)"
    and "\<And>k r. P r \<Longrightarrow> P (update_topology k (flagging False) r)"
  shows "P (w_repo w')"
  using assms(1,2)
proof (induction ts arbitrary: n w)
  case (Cons t ts)
  obtain r1 w1 where one: "resync_one env (t_id t) w = (r1, w1)" by fastforce
  have "P (w_repo w1)" using resync_one_repo [OF one] Cons.prems(2) assms(3) by (cases r1) simp_all
  with one Cons show ?case by (cases r1) auto
qed simp

lemma resync_loop_keeps:
  assumes run: "resync_loop env ts n w = (res, w')" and wf: "repo_wf (w_repo w)"
    and t: "find_topology k (w_repo w) = Some t" and h: "hydrate k (w_repo w) = Inr (Some h)"
  shows "repo_wf (w_repo w') \<and> (\<exists>v. find_topology k (w_repo w') = Some (flagging v t) \<and>
    hydrate k (w_repo w') = Inr (Some (h\<lparr>h_topology := flagging v t\<rparr>)))"
proof (rule resync_loop_induct [OF run])
  have "flagging (t_needs_resync t) t = t" by (simp add: flagging_def)
  moreover have "h\<lparr>h_topology := t\<rparr> = h" using t hydrate_rows(3) [OF h] by auto
  ultimately show "repo_wf (w_repo w) \<and> (\<exists>v. find_topology k (w_repo w) = Some (flagging v t) \<and>
      hydrate k (w_repo w) = Inr (Some (h\<lparr>h_topology := flagging v t\<rparr>)))"
    using wf t h by (intro conjI exI [of _ "t_needs_resync t"]) simp_all
next
  fix j r assume r: "repo_wf r \<and> (\<exists>v. find_topology k r = Some (flagging v t) \<and> hydrate k r = Inr (Some (h\<lparr>h_topology := flagging v t\<rparr>)))"
  then obtain v where v: "find_topology k r = Some (flagging v t)" "hydrate k r = Inr (Some (h\<lparr>h_topology := flagging v t\<rparr>))" by blast
  have "flagging False (flagging v t) = flagging False t" by (simp add: flagging_def)
  with v have "find_topology k (update_topology j (flagging False) r) = Some (flagging (if k = j then False else v) t)"
    "hydrate k (update_topology j (flagging False) r) = Inr (Some (h\<lparr>h_topology := flagging (if k = j then False else v) t\<rparr>))"
    by (cases "k = j"; simp add: find_topology_flagging hydrate_flagging)+
  moreover have "repo_wf (update_topology j (flagging False) r)" using r repo_wf_update_topology by (simp add: flagging_def)
  ultimately show "repo_wf (update_topology j (flagging False) r) \<and>
      (\<exists>v. find_topology k (update_topology j (flagging False) r) = Some (flagging v t) \<and>
        hydrate k (update_topology j (flagging False) r) = Inr (Some (h\<lparr>h_topology := flagging v t\<rparr>)))" by blast
qed

text \<open>The pushed blob carries the flag, the master clears it, and the hashes differ from then on.\<close>

lemma store_put_current:
  assumes "store_put now tid vh h rows = (Inr (), rows')"
  shows "\<exists>row. current rows' = Some row \<and> ar_topology_id row = tid \<and> ar_version_hash row = vh"
  using assms by (cases rows) (auto simp: store_put_def current_def upsert_def split: if_splits)

lemma agent_apply_report:
  assumes "agent_apply env h vh ag = (Inr (), ag')"
  shows "agent_report ag' = Some (t_id (h_topology h), vh)" "vh = topology_hash (dep_hash env) h"
proof -
  from assms obtain tid a where tid: "check_hash_and_validate env h vh = Inr tid"
    and put: "on_rows (store_put (env_now (dep_env env)) tid vh h) a = (Inr (), ag')"
    by (auto simp: agent_apply_def)
  from tid have "tid = t_id (h_topology h)" and hash: "vh = topology_hash (dep_hash env) h"
    by (auto simp: check_hash_and_validate_def agent_topology_id_def split: if_splits)
  with put show "agent_report ag' = Some (t_id (h_topology h), vh)" "vh = topology_hash (dep_hash env) h"
    using store_put_current by (fastforce simp: on_rows_def agent_report_def split: prod.splits)+
qed

text \<open>The text that is hashed.\<close>

definition topology_text :: "hash_env \<Rightarrow> hydrated \<Rightarrow> string" where
  "topology_text he h = dumps (he_fl he) (strip_volatile (hydrated_json (he_id he) (he_ts he) h))"

lemma flag_in_text:
  assumes "t_needs_resync (h_topology h) \<noteq> t_needs_resync (h_topology h')"
  shows "topology_text he h \<noteq> topology_text he h'"
  using resync_flag_in_hash [OF assms] dumps_inject [OF floatless_hydrated floatless_hydrated] unfolding topology_text_def by blast

lemma resync_flags_again:
  assumes wf: "repo_wf (w_repo w)" and t: "find_topology tid (w_repo w) = Some t"
    and live: "t_status t = ACTIVE" "t_target_host_uuid t = Some host" "t_needs_resync t"
    and h: "hydrate tid (w_repo w) = Inr (Some h)"
    and push: "reconcile_agent_resyncs env w = (res, w1)"
    and applied: "agent_apply aenv h (topology_hash (dep_hash env) h) ag = (Inr (), ag')"
    and nocol: "topology_hash (dep_hash env) (h\<lparr>h_topology := flagging False t\<rparr>) = topology_hash (dep_hash env) h \<Longrightarrow>
      topology_text (dep_hash env) (h\<lparr>h_topology := flagging False t\<rparr>) = topology_text (dep_hash env) h"
  obtains w2 where "reconcile_topology_report (dep_hash env) host (agent_report ag') w1 = (Inr (), w2)" "flag_of tid (w_repo w2) = Some True"
proof -
  have ids: "t_id t = tid" using t by (auto simp: find_topology_def dest: find_SomeD)
  have ht: "h_topology h = t" using t hydrate_rows(3) [OF h] by auto
  obtain v where w1: "repo_wf (w_repo w1)" "find_topology tid (w_repo w1) = Some (flagging v t)"
    "hydrate tid (w_repo w1) = Inr (Some (h\<lparr>h_topology := flagging v t\<rparr>))"
    using resync_loop_keeps [OF push [unfolded reconcile_agent_resyncs_def] wf t h] by blast
  let ?rep = "Some (tid, topology_hash (dep_hash env) h)"
  have rep: "agent_report ag' = ?rep" using agent_apply_report(1) [OF applied] ht ids by simp
  have mem: "flagging v t \<in> set (r_topologies (w_repo w1))" using w1(2) by (auto simp: find_topology_def dest: find_SomeD)
  have "readable (w_repo w1) ?rep u" for u using w1(3) by (auto simp: readable_def)
  from report_flags [OF w1(1) this] obtain w2 where w2: "reconcile_topology_report (dep_hash env) host ?rep w1 = (Inr (), w2)"
    "flag_of (t_id (flagging v t)) (w_repo w2) = Some (t_needs_resync (flagging v t) \<or> t_status (flagging v t) = ACTIVE \<and>
       t_target_host_uuid (flagging v t) = Some host \<and> \<not> in_sync (dep_hash env) (w_repo w1) ?rep (flagging v t))"
    using mem by blast
  have "v \<or> \<not> in_sync (dep_hash env) (w_repo w1) ?rep (flagging v t)"
  proof (cases v)
    case False
    have "topology_hash (dep_hash env) (h\<lparr>h_topology := flagging False t\<rparr>) \<noteq> topology_hash (dep_hash env) h"
      using nocol flag_in_text [of "h\<lparr>h_topology := flagging False t\<rparr>" h] live(3) ht by (auto simp: flagging_def)
    with False w1(3) ids show ?thesis by (auto simp: in_sync_def flagging_def)
  qed simp
  with w2(2) live ids have "flag_of tid (w_repo w2) = Some True" by (simp add: flagging_def)
  with w2(1) rep that show thesis by simp
qed

section \<open>Properties\<close>


text \<open>C29. A heartbeat of a host flags exactly the active topologies pinned to it whose hash the agent
  does not report, and clears no flag: the flag of a topology after it is what it was, or that it is
  active, pinned to the host and out of step.\<close>

theorem heartbeat_flags_drift:
  assumes "repo_wf (w_repo w)"
    and "\<And>t. t \<in> set (r_topologies (w_repo w)) \<Longrightarrow> readable (w_repo w) reported t"
    and "t \<in> set (r_topologies (w_repo w))"
  shows "\<exists>w'. reconcile_topology_report he host reported w = (Inr (), w') \<and> flag_of (t_id t) (w_repo w') =
    Some (t_needs_resync t \<or> t_status t = ACTIVE \<and> t_target_host_uuid t = Some host \<and> \<not> in_sync he (w_repo w) reported t)"
  using report_flags [OF assms(1,2)] assms(3) by metis

text \<open>C30. A resync does not converge.  Take an active topology that is flagged, a pass of the
  reconciler, and an agent that applied what the pass pushes: unless the hash collides, the agent's next heartbeat
  flags the topology again.  (The pushed blob says \<open>needs_resync\<close>, which is part of the hash; the
  master compares with the blob after it has cleared the flag.)\<close>

theorem resync_never_converges:
  assumes "repo_wf (w_repo w)" "find_topology tid (w_repo w) = Some t"
    and "t_status t = ACTIVE" "t_target_host_uuid t = Some host" "t_needs_resync t"
    and "hydrate tid (w_repo w) = Inr (Some h)" "reconcile_agent_resyncs env w = (res, w1)"
    and "agent_apply aenv h (topology_hash (dep_hash env) h) ag = (Inr (), ag')"
    and "topology_hash (dep_hash env) (h\<lparr>h_topology := flagging False t\<rparr>) = topology_hash (dep_hash env) h \<Longrightarrow>
      topology_text (dep_hash env) (h\<lparr>h_topology := flagging False t\<rparr>) = topology_text (dep_hash env) h"
  shows "\<exists>w2. reconcile_topology_report (dep_hash env) host (agent_report ag') w1 = (Inr (), w2) \<and>
    flag_of tid (w_repo w2) = Some True"
  using resync_flags_again [OF assms] by blast

section \<open>Witnesses\<close>

definition pinned_row :: topology_row where
  "pinned_row = \<lparr>t_id = 0, t_name = ''t'', t_mode = ''agent'', t_target_host_uuid = Some ''w1'',
     t_config_snapshot = None, t_status = ACTIVE, t_status_changed_at = 0, t_created_at = 0, t_version = 1,
     t_needs_resync = True, t_email_personas = ''[]'', t_language_default = ''en''\<rparr>"

definition pinned_lan :: lan_row where
  "pinned_lan = \<lparr>l_id = 1, l_topology_id = 0, l_name = ''LAN-00'', l_docker_network_id = None, l_subnet = ''10.0.1.0/24'',
     l_is_dmz = True, l_x = None, l_y = None\<rparr>"

definition pinned_world :: world where
  "pinned_world = \<lparr>w_repo = empty_repo\<lparr>r_topologies := [pinned_row], r_lans := [pinned_lan], r_next_id := 2\<rparr>,
     w_docker = [], w_bus = []\<rparr>"

definition pinned_hydrated :: hydrated where
  "pinned_hydrated = \<lparr>h_topology = pinned_row, h_lans = [pinned_lan], h_deckies = [], h_edges = []\<rparr>"

definition pinned_env :: deploy_env where
  "pinned_env = \<lparr>dep_env = \<lparr>env_docker = (\<lambda>_ _. DkOk), env_services = Map.empty, env_known = [], env_id_str = (\<lambda>_. ''0''),
       env_now = 9, env_reason = (\<lambda>_. [])\<rparr>,
     dep_hash = \<lparr>he_sha = (\<lambda>s. s), he_fl = (\<lambda>_. []), he_id = nat_str, he_ts = nat_str\<rparr>,
     dep_proc = (\<lambda>_ _. ProcExit 0 []), dep_mounts = (\<lambda>_. 0), dep_file = (\<lambda>_ _. False), dep_ps = (\<lambda>_. []),
     dep_bound = None, dep_host = (\<lambda>_. True), dep_hint = (\<lambda>_ _. []), dep_reason = (\<lambda>_. [])\<rparr>"

lemma pinned_facts:
  "repo_wf (w_repo pinned_world)" "find_topology 0 (w_repo pinned_world) = Some pinned_row"
  "hydrate 0 (w_repo pinned_world) = Inr (Some pinned_hydrated)" "edges_known pinned_hydrated"
  "validate [] pinned_hydrated = Inr []"
proof -
  let ?n = "\<lparr>net_addr = 167772416, net_prefix = 24\<rparr>"
  have "net_str ?n = ''10.0.1.0/24''" by (simp add: net_str_def ip_str_def nat_str.simps digit_char_def char_of_def bit_0)
  then have net: "parse_net strict ''10.0.1.0/24'' = Inr ?n" for strict using parse_net_str [of ?n strict] by (simp add: net_wf_def)
  show "repo_wf (w_repo pinned_world)"
    by (simp add: pinned_world_def pinned_row_def pinned_lan_def repo_wf_defs rows_ok_def empty_repo_def)
  show find: "find_topology 0 (w_repo pinned_world) = Some pinned_row"
    by (simp add: pinned_world_def pinned_row_def find_topology_def)
  have "list_lans_for_topology 0 (w_repo pinned_world) = [pinned_lan]" "list_topology_deckies 0 (w_repo pinned_world) = []"
    "list_topology_edges 0 (w_repo pinned_world) = []"
    by (simp_all add: pinned_world_def pinned_lan_def list_lans_for_topology_def list_topology_deckies_def list_topology_edges_def empty_repo_def)
  moreover have "backfill_decky_configs [pinned_lan] [] [] = Inr []"
    by (rule backfill_complete) (simp_all add: pinned_lan_def net)
  ultimately show "hydrate 0 (w_repo pinned_world) = Inr (Some pinned_hydrated)"
    using find by (simp add: hydrate_def pinned_hydrated_def)
  show edges: "edges_known pinned_hydrated" by (simp add: edges_known_def pinned_hydrated_def)
  have "valid_topology [] pinned_hydrated"
    by (simp add: valid_topology_def pinned_hydrated_def pinned_lan_def net declared_ips_def parse_lan_net_def)
  with validate_iff_valid [OF edges] show "validate [] pinned_hydrated = Inr []" by blast
qed

definition idle_agent :: agent where
  "idle_agent = \<lparr>ag_rows = [], ag_machine = \<lparr>w_repo = empty_repo, w_docker = [], w_bus = []\<rparr>\<rparr>"

lemma returns_bindS:
  assumes "\<exists>s'. m s = (Inr (), s')" and "\<And>s. \<exists>s'. f () s = (Inr (), s')"
  shows "\<exists>s'. bindS m f s = (Inr (), s')"
  using assms by (auto simp: bindS_def)

lemma pinned_apply:
  "\<exists>ag'. agent_apply pinned_env pinned_hydrated (topology_hash (dep_hash pinned_env) pinned_hydrated) idle_agent = (Inr (), ag')"
proof -
  have "validate (env_known (dep_env pinned_env)) pinned_hydrated = Inr []"
    using pinned_facts(5) by (simp add: pinned_env_def)
  then have check: "check_hash_and_validate pinned_env pinned_hydrated (topology_hash (dep_hash pinned_env) pinned_hydrated) = Inr 0"
    by (simp add: check_hash_and_validate_def agent_topology_id_def errors_def)
      (simp add: pinned_env_def pinned_hydrated_def pinned_row_def)
  have dk: "docker_do (dep_env pinned_env) c w = (Inr (), w\<lparr>w_docker := w_docker w @ [c]\<rparr>)" for c w
    by (simp add: docker_do_def docker_call_def bindS_def pinned_env_def)
  have "\<exists>j. generate_topology_compose (env_id_str (dep_env pinned_env)) (env_services (dep_env pinned_env)) pinned_hydrated = Inr j"
    by (simp add: generate_topology_compose_def pinned_hydrated_def)
  then have "\<exists>w'. write_topology_compose (dep_env pinned_env) 0 pinned_hydrated w = (Inr (), w')" for w
    by (auto simp: write_topology_compose_def bindS_def dk)
  moreover have "\<exists>w'. forS (\<lambda>lan. docker_do (dep_env pinned_env) (f lan)) xs w = (Inr (), w')" for f and xs :: "lan_row list" and w
    by (induction xs arbitrary: w) (auto simp: bindS_def dk)
  moreover have "\<exists>w'. compose_with_retry pinned_env 3 p args w = (Inr (), w')" for p args w
    by (simp add: compose_with_retry_def bindS_def leaked_mounts_def run_proc_def numeral_3_eq_3)
      (simp add: pinned_env_def BUILDKIT_MOUNT_THRESHOLD_def)
  ultimately have steps: "\<exists>w'. forS (\<lambda>lan. docker_do (dep_env pinned_env) (f lan)) (h_lans pinned_hydrated) w = (Inr (), w')"
    "\<exists>w'. write_topology_compose (dep_env pinned_env) 0 pinned_hydrated w = (Inr (), w')"
    "\<exists>w'. compose_with_retry pinned_env 3 p args w = (Inr (), w')" for f p args w by blast+
  have "\<exists>w'. agent_materialise pinned_env pinned_hydrated 0 w = (Inr (), w')" for w
    unfolding agent_materialise_def using dk by (intro returns_bindS steps) blast
  then obtain w' where "agent_materialise pinned_env pinned_hydrated 0 (ag_machine idle_agent) = (Inr (), w')" by blast
  with check show ?thesis
    by (simp add: agent_apply_def bindS_def teardown_superseded_def on_machine_def on_rows_def idle_agent_def current_def store_put_def)
qed


theorem heartbeat_flags_drift_witness:
  "\<exists>w'. reconcile_topology_report (dep_hash pinned_env) ''w1'' None pinned_world = (Inr (), w') \<and> flag_of 0 (w_repo w') = Some True"
proof -
  have "readable (w_repo pinned_world) None t" for t by (simp add: readable_def)
  moreover have mem: "pinned_row \<in> set (r_topologies (w_repo pinned_world))" by (simp add: pinned_world_def)
  ultimately obtain w' where "reconcile_topology_report (dep_hash pinned_env) ''w1'' None pinned_world = (Inr (), w')"
    "flag_of (t_id pinned_row) (w_repo w') = Some (t_needs_resync pinned_row \<or> t_status pinned_row = ACTIVE \<and>
       t_target_host_uuid pinned_row = Some ''w1'' \<and> \<not> in_sync (dep_hash pinned_env) (w_repo pinned_world) None pinned_row)"
    using heartbeat_flags_drift [OF pinned_facts(1) _ mem, of None "dep_hash pinned_env" "''w1''"] by blast
  then show ?thesis by (auto simp: pinned_row_def)
qed

theorem resync_never_converges_witness:
  "\<exists>res w1 ag' w2. reconcile_agent_resyncs pinned_env pinned_world = (res, w1) \<and>
     agent_apply pinned_env pinned_hydrated (topology_hash (dep_hash pinned_env) pinned_hydrated) idle_agent = (Inr (), ag') \<and>
     reconcile_topology_report (dep_hash pinned_env) ''w1'' (agent_report ag') w1 = (Inr (), w2) \<and> flag_of 0 (w_repo w2) = Some True"
proof -
  obtain res w1 where push: "reconcile_agent_resyncs pinned_env pinned_world = (res, w1)" by fastforce
  obtain ag' where ag': "agent_apply pinned_env pinned_hydrated (topology_hash (dep_hash pinned_env) pinned_hydrated) idle_agent = (Inr (), ag')"
    using pinned_apply by blast
  have row: "t_status pinned_row = ACTIVE" "t_target_host_uuid pinned_row = Some ''w1''" "t_needs_resync pinned_row"
    by (simp_all add: pinned_row_def)
  have "topology_hash (dep_hash pinned_env) a = topology_hash (dep_hash pinned_env) b \<Longrightarrow>
      topology_text (dep_hash pinned_env) a = topology_text (dep_hash pinned_env) b" for a b
    by (simp add: topology_hash_def canonical_hash_def topology_text_def pinned_env_def)
  from resync_never_converges [OF pinned_facts(1,2) row pinned_facts(3) push ag' this] push ag' show ?thesis by blast
qed

end
