(* ===== verification/Bus_Topics.thy ===== *)
theory Bus_Topics
  imports Decnet_Prelude
begin

text \<open>
  Topics of the event bus: the builders of \<open>decnet/bus/topics.py\<close> and the wildcard matching of
  \<open>decnet/bus/base.py\<close>.  Matching is shown to be exact for a specification by positions, and a topic
  from a builder splits into exactly the segments it was built from, so that a wildcard subscription
  selects the intended events and the segments can be read back.
\<close>

section \<open>Wildcards\<close>

abbreviation STAR :: string where "STAR \<equiv> ''*''"
abbreviation REST :: string where "REST \<equiv> ''>''"

fun match_tokens :: "string list \<Rightarrow> string list \<Rightarrow> bool" where
  "match_tokens [] ts = (ts = [])"
| "match_tokens (p # ps) ts =
     (if p = REST then ts \<noteq> []
      else case ts of
        [] \<Rightarrow> False
      | t # ts' \<Rightarrow>
          if p = STAR then (if t = [] then False else match_tokens ps ts')
          else if p \<noteq> t then False else match_tokens ps ts')"

definition matches :: "string \<Rightarrow> string \<Rightarrow> bool" where
  "matches pattern topic = match_tokens (split_on CHR ''.'' pattern) (split_on CHR ''.'' topic)"

text \<open>The meaning: the tokens before the first \<open>>\<close> agree one by one with those of the topic, a star with
  any token that is not empty; with a \<open>>\<close> at least one token is left, without one none.\<close>

definition token_ok :: "string \<Rightarrow> string \<Rightarrow> bool" where
  "token_ok p t \<longleftrightarrow> (if p = STAR then t \<noteq> [] else p = t)"

definition head_tokens :: "string list \<Rightarrow> string list" where
  "head_tokens ps = takeWhile (\<lambda>p. p \<noteq> REST) ps"

lemma match_tokens_exact:
  "match_tokens ps ts \<longleftrightarrow>
     (if REST \<in> set ps then length (head_tokens ps) < length ts else length (head_tokens ps) = length ts) \<and>
     list_all2 token_ok (head_tokens ps) (take (length (head_tokens ps)) ts)"
proof (induction ps ts rule: match_tokens.induct)
  case (2 p ps ts)
  show ?case
  proof (cases "p = REST")
    case False
    then show ?thesis using 2 by (cases ts) (auto simp: head_tokens_def token_ok_def)
  qed (auto simp: head_tokens_def)
qed (auto simp: head_tokens_def)

section \<open>Builders\<close>

definition segment_ok :: "string \<Rightarrow> bool" where
  "segment_ok p \<longleftrightarrow> p \<noteq> [] \<and> CHR ''.'' \<notin> set p \<and> CHR ''*'' \<notin> set p \<and> CHR ''>'' \<notin> set p \<and> \<not> list_ex is_space p"

fun reject_tokens :: "string list \<Rightarrow> unit result" where
  "reject_tokens [] = Inr ()"
| "reject_tokens (p # parts) =
     (if p = [] then Inl ValueError
      else if CHR ''.'' \<in> set p \<or> CHR ''*'' \<in> set p \<or> CHR ''>'' \<in> set p \<or> list_ex is_space p then Inl ValueError
      else reject_tokens parts)"

definition built :: "string list \<Rightarrow> string list \<Rightarrow> string result" where
  "built checked tokens = bindE (reject_tokens checked) (\<lambda>_. Inr (join ''.'' tokens))"

definition prefixed :: "string \<Rightarrow> string \<Rightarrow> string result" where
  "prefixed root leaf = (if leaf = [] then Inl ValueError else Inr (root @ ''.'' @ leaf))"

definition topology_mutation :: "string \<Rightarrow> string \<Rightarrow> string result" where
  "topology_mutation topology_id state = built [topology_id, state] [''topology'', topology_id, ''mutation'', state]"

definition topology_status :: "string \<Rightarrow> string result" where
  "topology_status topology_id = built [topology_id] [''topology'', topology_id, ''status'']"

definition decky_topic :: "string \<Rightarrow> string \<Rightarrow> string result" where
  "decky_topic decky_id event_type = built [decky_id, event_type] [''decky'', decky_id, event_type]"

definition decky_mutation :: "string \<Rightarrow> string result" where
  "decky_mutation decky_id = built [decky_id] [''decky'', decky_id, ''mutation'']"

definition decky_lifecycle :: "string \<Rightarrow> string result" where
  "decky_lifecycle decky_id = built [decky_id] [''decky'', decky_id, ''lifecycle'']"

definition system_topic :: "string \<Rightarrow> string result" where
  "system_topic event_type = prefixed ''system'' event_type"

definition credential :: "string \<Rightarrow> string result" where
  "credential event_type = prefixed ''credential'' event_type"

definition attacker :: "string \<Rightarrow> string result" where
  "attacker event_type = prefixed ''attacker'' event_type"

definition attacker_observation :: "string \<Rightarrow> string result" where
  "attacker_observation primitive = prefixed ''attacker.observation'' primitive"

definition attribution :: "string \<Rightarrow> string result" where
  "attribution event_type = prefixed ''attribution'' event_type"

definition campaign :: "string \<Rightarrow> string result" where
  "campaign event_type = prefixed ''campaign'' event_type"

definition identity :: "string \<Rightarrow> string result" where
  "identity event_type = prefixed ''identity'' event_type"

definition orchestrator :: "string \<Rightarrow> string \<Rightarrow> string result" where
  "orchestrator event_type decky_id = built [event_type, decky_id] [''orchestrator'', event_type, decky_id]"

definition canary :: "string \<Rightarrow> string \<Rightarrow> string result" where
  "canary token_id event_type = built [token_id, event_type] [''canary'', token_id, event_type]"

definition system_health :: "string \<Rightarrow> string result" where
  "system_health worker = built [worker] [''system'', worker, ''health'']"

definition system_control :: "string \<Rightarrow> string result" where
  "system_control worker = built [worker] [''system'', worker, ''control'']"

definition smtp :: "string \<Rightarrow> string result" where
  "smtp event_type = prefixed ''smtp'' event_type"

definition email_topic :: "string \<Rightarrow> string result" where
  "email_topic event_type = prefixed ''email'' event_type"

definition ttp :: "string \<Rightarrow> string result" where
  "ttp event_type = prefixed ''ttp'' event_type"

definition ttp_rule_fired :: "string \<Rightarrow> string result" where
  "ttp_rule_fired technique_id = built [technique_id] [''ttp'', ''rule'', ''fired'', technique_id]"

definition ttp_rule_reloaded :: "string \<Rightarrow> string result" where
  "ttp_rule_reloaded rule_id = built [rule_id] [''ttp'', ''rule'', ''reloaded'', rule_id]"

definition ttp_rule_state :: "string \<Rightarrow> string result" where
  "ttp_rule_state rule_id = built [rule_id] [''ttp'', ''rule'', ''state'', rule_id]"

text \<open>The patterns of the two wake-up subscribers of \<open>decnet/mutator/engine.py\<close>, and how the second one
  reads the decky's name back from the topic.\<close>

definition wake_on_enqueue_pattern :: string where
  "wake_on_enqueue_pattern = join ''.'' [''topology'', STAR, ''mutation'', ''enqueued'']"

definition wake_on_mutate_pattern :: string where
  "wake_on_mutate_pattern = join ''.'' [''decky'', STAR, ''mutate_request'']"

definition requested_name :: "string \<Rightarrow> string" where
  "requested_name topic = (let parts = split_on CHR ''.'' topic in if 3 \<le> length parts then parts ! 1 else [])"

section \<open>Segments survive\<close>

lemma reject_tokens_ok: "reject_tokens ps = Inr u \<longleftrightarrow> list_all segment_ok ps"
  by (induction ps) (auto simp: segment_ok_def)

lemma segment_no_dot: "segment_ok p \<Longrightarrow> CHR ''.'' \<notin> set p" "segment_ok p \<Longrightarrow> p \<noteq> []"
  by (simp_all add: segment_ok_def)

lemma built_tokens:
  assumes "built checked tokens = Inr topic" "tokens \<noteq> []"
    and "\<forall>w \<in> set tokens. w \<in> set checked \<or> CHR ''.'' \<notin> set w"
  shows "split_on CHR ''.'' topic = tokens" "list_all segment_ok checked"
proof -
  from assms(1) have ok: "list_all segment_ok checked" and topic: "topic = join ''.'' tokens"
    by (auto simp: built_def reject_tokens_ok)
  show "list_all segment_ok checked" by (rule ok)
  show "split_on CHR ''.'' topic = tokens"
    unfolding topic using assms(2,3) ok segment_no_dot(1) by (intro split_on_join) (auto simp: list_all_iff)
qed

lemma split_pattern:
  "split_on CHR ''.'' wake_on_enqueue_pattern = [''topology'', STAR, ''mutation'', ''enqueued'']"
  "split_on CHR ''.'' wake_on_mutate_pattern = [''decky'', STAR, ''mutate_request'']"
  unfolding wake_on_enqueue_pattern_def wake_on_mutate_pattern_def by (rule split_on_join; force)+

lemma mutation_topic_tokens:
  assumes "topology_mutation tid st = Inr topic"
  shows "split_on CHR ''.'' topic = [''topology'', tid, ''mutation'', st]" "segment_ok tid" "segment_ok st"
  using built_tokens [OF assms [unfolded topology_mutation_def]] by simp_all

lemma decky_topic_tokens:
  assumes "decky_topic name ev = Inr topic"
  shows "split_on CHR ''.'' topic = [''decky'', name, ev]" "segment_ok name" "segment_ok ev"
  using built_tokens [OF assms [unfolded decky_topic_def]] by simp_all

text \<open>The mutator wakes for every queued mutation and for no other topology event, and for every
  mutate request and no other decky event; from a mutate request it reads back the decky's name.\<close>

lemma wake_subscriptions_select:
  assumes "topology_mutation tid st = Inr t1" and "decky_topic name ev = Inr t2"
  shows "(matches wake_on_enqueue_pattern t1 \<longleftrightarrow> st = ''enqueued'') \<and> \<not> matches wake_on_enqueue_pattern t2 \<and>
    (matches wake_on_mutate_pattern t2 \<longleftrightarrow> ev = ''mutate_request'') \<and> \<not> matches wake_on_mutate_pattern t1 \<and>
    requested_name t2 = name"
  using mutation_topic_tokens [OF assms(1)] decky_topic_tokens [OF assms(2)]
  by (auto simp: matches_def split_pattern requested_name_def dest: segment_no_dot)

section \<open>Matching\<close>

text \<open>A topic matches a pattern exactly when the tokens before the first \<open>>\<close> of the pattern agree
  position by position with those of the topic, a star with every token that is not empty, and the
  topic goes on if the pattern has a \<open>>\<close> (whatever follows it) and ends there if it has none.\<close>

lemma topic_matching_is_exact:
  "matches pattern topic \<longleftrightarrow>
     (let ps = split_on CHR ''.'' pattern; ts = split_on CHR ''.'' topic; hs = head_tokens ps in
      (if REST \<in> set ps then length hs < length ts else length hs = length ts) \<and>
      list_all2 token_ok hs (take (length hs) ts))"
  unfolding matches_def Let_def by (rule match_tokens_exact)

end
