(* ===== verification/Bus_Protocol.thy ===== *)
theory Bus_Protocol
  imports Bus_Topics Py_Json
begin

text \<open>
  The wire format of the bus (\<open>decnet/bus/protocol.py\<close>) and its server (\<open>decnet/bus/unix_server.py\<close>).
  Bytes are characters; the bytes a peer has sent before closing are the state of a reader.  The JSON
  codec orjson is the argument \<open>orj\<close>: its \<open>dumps\<close> and its \<open>loads\<close>, the latter \<open>None\<close> when the text
  is not JSON.  The server is the list of its connections; a connection is named by its position.
  The time and the identifier of an event are arguments.
\<close>

section \<open>Frames\<close>

definition MAX_HEADER_BYTES :: nat where "MAX_HEADER_BYTES = 4096"
definition MAX_BODY_BYTES :: nat where "MAX_BODY_BYTES = 1048576"

definition VALID_VERBS :: "string list" where
  "VALID_VERBS = [''HELLO'', ''PUB'', ''SUB'', ''UNSUB'', ''EVT'', ''BYE'']"

abbreviation LF :: char where "LF \<equiv> CHR 0x0A"
abbreviation CR :: char where "CR \<equiv> CHR 0x0D"

record frame =
  fr_verb :: string
  fr_args :: string
  fr_body :: string

record orjson =
  oj_dumps :: "jdict \<Rightarrow> string"
  oj_loads :: "string \<Rightarrow> json option"

definition is_ascii :: "string \<Rightarrow> bool" where
  "is_ascii s \<longleftrightarrow> list_all (\<lambda>c. (of_char c :: nat) < 128) s"

definition pack32 :: "nat \<Rightarrow> string" where
  "pack32 n = [char_of (n div 16777216), char_of (n div 65536), char_of (n div 256), char_of n]"

definition unpack32 :: "string \<Rightarrow> nat" where
  "unpack32 bs = fold (\<lambda>c n. n * 256 + of_char c) bs 0"

definition encode :: "orjson \<Rightarrow> string \<Rightarrow> string \<Rightarrow> jdict option \<Rightarrow> string result" where
  "encode orj verb args body =
     (if verb \<notin> set VALID_VERBS then Inl ProtocolError
      else if LF \<in> set args \<or> CR \<in> set args then Inl ProtocolError
      else let body_bytes = (case body of None \<Rightarrow> [] | Some d \<Rightarrow> oj_dumps orj d);
               header = rstrip (verb @ '' '' @ args) @ [LF]
           in if MAX_BODY_BYTES < length body_bytes then Inl ProtocolError
              else if \<not> is_ascii header then Inl UnicodeError
              else if MAX_HEADER_BYTES < length header then Inl ProtocolError
              else Inr (header @ pack32 (length body_bytes) @ body_bytes))"

definition read_body :: "string \<Rightarrow> string \<Rightarrow> (frame option, string) op" where
  "read_body verb args rest =
     (if length rest < 4 then (Inl IncompleteReadError, [])
      else let body_len = unpack32 (take 4 rest); rest = drop 4 rest in
        if MAX_BODY_BYTES < body_len then (Inl ProtocolError, rest)
        else if length rest < body_len then (Inl IncompleteReadError, [])
        else (Inr (Some \<lparr>fr_verb = verb, fr_args = strip args, fr_body = take body_len rest\<rparr>), drop body_len rest))"

definition read_frame :: "(frame option, string) op" where
  "read_frame s =
     (if LF \<notin> set s then (if s = [] then (Inr None, []) else (Inl ProtocolError, []))
      else let header = takeWhile (\<lambda>c. c \<noteq> LF) s @ [LF]; rest = tl (dropWhile (\<lambda>c. c \<noteq> LF) s) in
        if MAX_HEADER_BYTES < length header then (Inl ProtocolError, rest)
        else let line = rstrip_by (\<lambda>c. c = CR \<or> c = LF) header in
          if \<not> is_ascii line then (Inl UnicodeError, rest)
          else if line = [] then (Inl ProtocolError, rest)
          else let verb = takeWhile (\<lambda>c. c \<noteq> CHR '' '') line; args = tl (dropWhile (\<lambda>c. c \<noteq> CHR '' '') line) in
            if verb \<notin> set VALID_VERBS then (Inl ProtocolError, rest)
            else read_body verb args rest)"

definition decode_body :: "orjson \<Rightarrow> string \<Rightarrow> jdict result" where
  "decode_body orj body =
     (if body = [] then Inr []
      else case oj_loads orj body of Some (JObj d) \<Rightarrow> Inr d | _ \<Rightarrow> Inl ProtocolError)"

section \<open>A frame that was written is read back\<close>

lemma base256:
  fixes n :: nat
  shows "((n div 16777216 * 256 + n div 65536 mod 256) * 256 + n div 256 mod 256) * 256 + n mod 256 = n"
proof -
  define a b c where "a = n div 256" and "b = a div 256" and "c = b div 256"
  have "n div 65536 = b" "n div 16777216 = c" by (simp_all add: a_def b_def c_def div_mult2_eq [symmetric])
  then show ?thesis by (simp add: a_def [symmetric] c_def b_def) (simp add: a_def)
qed

lemma unpack32_pack32: "n < 4294967296 \<Longrightarrow> unpack32 (pack32 n) = n"
  using base256 [of n] by (simp add: unpack32_def pack32_def less_mult_imp_div_less)

lemma length_pack32 [simp]: "length (pack32 n) = 4"
  by (simp add: pack32_def)

lemma rstrip_append_rest: "\<exists>c \<in> set t. \<not> P c \<Longrightarrow> rstrip_by P (s @ t) = s @ rstrip_by P t"
  by (auto simp: rstrip_by_def dropWhile_append1)

lemma rstrip_all: "\<forall>c \<in> set t. P c \<Longrightarrow> rstrip_by P t = []"
  using rstrip_by_all [of t P "[]"] by (simp add: rstrip_by_def)

lemma strip_all: "\<forall>c \<in> set s. is_space c \<Longrightarrow> strip s = []"
  by (simp add: strip_def rstrip_by_def dropWhile_eq_Nil_conv [THEN iffD2])

lemma strip_rstrip: "strip (rstrip s) = strip s"
proof (cases "\<forall>c \<in> set s. is_space c")
  case True
  then show ?thesis by (simp add: rstrip_all strip_all)
next
  case False
  obtain t where t: "s = rstrip s @ t" "\<And>c. c \<in> set t \<Longrightarrow> is_space c" using rstrip_by_decomp [of s is_space] by blast
  with False have ne: "\<exists>c \<in> set (rstrip s). \<not> is_space c" by (metis Un_iff set_append)
  have "strip (rstrip s @ t) = strip (rstrip s)"
  proof -
    from ne obtain c where c: "c \<in> set (rstrip s)" "\<not> is_space c" by blast
    have "dropWhile is_space (rstrip s @ t) = dropWhile is_space (rstrip s) @ t" by (rule dropWhile_append1) (rule c)+
    then show ?thesis unfolding strip_def using t(2) by (simp add: rstrip_by_all)
  qed
  with t(1) show ?thesis by simp
qed

lemma valid_verb:
  assumes "verb \<in> set VALID_VERBS"
  shows "verb \<noteq> []" "\<forall>c \<in> set verb. \<not> is_space c" "LF \<notin> set verb" "CR \<notin> set verb" "CHR '' '' \<notin> set verb"
  using assms by (auto simp: VALID_VERBS_def is_space_def)

lemma header_parts:
  assumes "verb \<in> set VALID_VERBS" and line_def: "line = rstrip (verb @ '' '' @ args)"
  shows "takeWhile (\<lambda>c. c \<noteq> CHR '' '') line = verb" "strip (tl (dropWhile (\<lambda>c. c \<noteq> CHR '' '') line)) = strip args"
    "line \<noteq> []" "set line \<subseteq> set verb \<union> {CHR '' ''} \<union> set args"
proof -
  note v = valid_verb [OF assms(1)]
  have "takeWhile (\<lambda>c. c \<noteq> CHR '' '') line = verb \<and> strip (tl (dropWhile (\<lambda>c. c \<noteq> CHR '' '') line)) = strip args \<and> line \<noteq> []"
  proof (cases "\<forall>c \<in> set args. is_space c")
    case True
    have "rstrip (verb @ '' '' @ args) = rstrip verb" using True by (intro rstrip_by_all) (auto simp: is_space_def)
    also have "rstrip verb = verb" using v(1,2) by (simp add: rstrip_by_id)
    finally have "line = verb" by (simp add: line_def)
    moreover have "takeWhile (\<lambda>c. c \<noteq> CHR '' '') verb = verb" "dropWhile (\<lambda>c. c \<noteq> CHR '' '') verb = []"
      using v(5) by (auto simp: takeWhile_eq_all_conv)
    moreover have "strip args = []" using True by (rule strip_all)
    moreover have "strip [] = []" by (simp add: strip_def rstrip_by_def)
    ultimately show ?thesis using v(1) by (metis list.sel(2))
  next
    case False
    then have "rstrip ((verb @ '' '') @ args) = (verb @ '' '') @ rstrip args" by (intro rstrip_append_rest) blast
    then have "line = verb @ CHR '' '' # rstrip args" by (simp add: line_def)
    then show ?thesis using v(5) strip_rstrip by (auto simp: takeWhile_append dropWhile_append)
  qed
  then show "takeWhile (\<lambda>c. c \<noteq> CHR '' '') line = verb" "strip (tl (dropWhile (\<lambda>c. c \<noteq> CHR '' '') line)) = strip args"
    "line \<noteq> []" by blast+
  show "set line \<subseteq> set verb \<union> {CHR '' ''} \<union> set args" using rstrip_by_set [of is_space "verb @ '' '' @ args"] by (auto simp: line_def)
qed

lemma encode_read:
  assumes "encode orj verb args body = Inr bs"
  shows "read_frame (bs @ rest) =
    (Inr (Some \<lparr>fr_verb = verb, fr_args = strip args, fr_body = (case body of None \<Rightarrow> [] | Some d \<Rightarrow> oj_dumps orj d)\<rparr>), rest)"
proof -
  define line where "line = rstrip (verb @ '' '' @ args)"
  define bb where "bb = (case body of None \<Rightarrow> [] | Some d \<Rightarrow> oj_dumps orj d)"
  from assms have verb: "verb \<in> set VALID_VERBS" and nl: "LF \<notin> set args" "CR \<notin> set args"
    and size: "length bb \<le> MAX_BODY_BYTES" "length (line @ [LF]) \<le> MAX_HEADER_BYTES" and ascii: "is_ascii (line @ [LF])"
    and bs: "bs = (line @ [LF]) @ pack32 (length bb) @ bb"
    by (auto simp: encode_def Let_def line_def bb_def split: if_splits)
  note parts = header_parts [OF verb line_def]
  have no: "LF \<notin> set line" "CR \<notin> set line" using parts(4) nl valid_verb [OF verb] by auto
  have tw: "takeWhile (\<lambda>c. c \<noteq> LF) (bs @ rest) = line" "dropWhile (\<lambda>c. c \<noteq> LF) (bs @ rest) = LF # pack32 (length bb) @ bb @ rest"
    using no(1) by (auto simp: bs takeWhile_append dropWhile_append)
  have lf: "LF \<in> set (bs @ rest)" by (simp add: bs)
  have strip: "rstrip_by (\<lambda>c. c = CR \<or> c = LF) (line @ [LF]) = line"
  proof -
    have "rstrip_by (\<lambda>c. c = CR \<or> c = LF) line = line" using no last_in_set [OF parts(3)] by (intro rstrip_by_id) auto
    then show ?thesis by (simp add: rstrip_by_snoc)
  qed
  have "length bb < 4294967296" using size(1) by (simp add: MAX_BODY_BYTES_def)
  then have body: "read_body verb a (pack32 (length bb) @ bb @ rest) =
      (Inr (Some \<lparr>fr_verb = verb, fr_args = strip a, fr_body = bb\<rparr>), rest)" for a
    using size(1) by (simp add: read_body_def unpack32_pack32)
  have "is_ascii line" using ascii by (simp add: is_ascii_def)
  then show ?thesis
    using lf size(2) parts(1-3) verb
    by (simp add: read_frame_def Let_def tw strip body bb_def [symmetric])
qed

end
