(* ===== verification/Bus_Server.thy ===== *)
theory Bus_Server
  imports Bus_Protocol
begin

text \<open>
  The bus daemon (\<open>decnet/bus/unix_server.py\<close>): its connections, the dispatch of a client's frames, the
  fan-out of an event and the bounded queue that drops the oldest frame; and the in-process bus of
  \<open>decnet/bus/fake.py\<close> with its close.
\<close>

section \<open>Bounded queues\<close>

text \<open>\<open>asyncio.Queue(maxsize)\<close>: zero is no bound.\<close>

definition queue_full :: "nat \<Rightarrow> 'a list \<Rightarrow> bool" where
  "queue_full maxsize q \<longleftrightarrow> maxsize > 0 \<and> maxsize \<le> length q"

fun enqueue_drop_oldest :: "nat \<Rightarrow> 'a list \<Rightarrow> 'a \<Rightarrow> 'a list" where
  "enqueue_drop_oldest maxsize [] x = (if queue_full maxsize ([] :: 'a list) then [] else [x])"
| "enqueue_drop_oldest maxsize (y # q) x =
     (if queue_full maxsize (y # q) then enqueue_drop_oldest maxsize q x else (y # q) @ [x])"

lemma enqueue_drop_oldest_eq:
  assumes "0 < maxsize"
  shows "enqueue_drop_oldest maxsize q x = drop (Suc (length q) - maxsize) q @ [x]"
  using assms by (induction q) (auto simp: queue_full_def Suc_diff_le)

lemma enqueue_bounded: "0 < maxsize \<Longrightarrow> length q \<le> maxsize \<Longrightarrow> length (enqueue_drop_oldest maxsize q x) \<le> maxsize"
  by (simp add: enqueue_drop_oldest_eq)

section \<open>Events\<close>

record event =
  ev_topic :: string
  ev_payload :: json
  ev_type :: json
  ev_v :: int
  ev_ts :: rat
  ev_id :: string

definition event_to_dict :: "event \<Rightarrow> jdict" where
  "event_to_dict e = [(''v'', JInt (ev_v e)), (''id'', JStr (ev_id e)), (''topic'', JStr (ev_topic e)),
     (''type'', ev_type e), (''ts'', JFloat (ev_ts e)), (''payload'', ev_payload e)]"

text \<open>\<open>data.get(key, default) or default\<close>.\<close>

definition get_or :: "jdict \<Rightarrow> string \<Rightarrow> json \<Rightarrow> json" where
  "get_or data key d = (case map_of data key of None \<Rightarrow> d | Some v \<Rightarrow> if truthy v then v else d)"

section \<open>The server\<close>

definition OUTBOUND_QUEUE_SIZE :: nat where "OUTBOUND_QUEUE_SIZE = 1024"

record connection =
  cn_peer :: string
  cn_patterns :: "string list"
  cn_outbound :: "string list"
  cn_closed :: bool

type_synonym server = "connection list"

record bus_env =
  be_orj :: orjson
  be_ts :: rat
  be_uuid :: string

definition wants :: "string \<Rightarrow> connection \<Rightarrow> bool" where
  "wants topic conn \<longleftrightarrow> list_ex (\<lambda>p. matches p topic) (cn_patterns conn)"

definition fanout :: "bus_env \<Rightarrow> event \<Rightarrow> nat option \<Rightarrow> server \<Rightarrow> server result" where
  "fanout env event origin conns =
     (case encode (be_orj env) ''EVT'' (ev_topic event) (Some (event_to_dict event)) of
        Inl ProtocolError \<Rightarrow> Inr conns
      | Inl e \<Rightarrow> Inl e
      | Inr frame_bytes \<Rightarrow>
          Inr (map (\<lambda>(i, conn).
            if Some i = origin \<or> cn_closed conn then conn
            else if \<not> wants (ev_topic event) conn then conn
            else conn\<lparr>cn_outbound := enqueue_drop_oldest OUTBOUND_QUEUE_SIZE (cn_outbound conn) frame_bytes\<rparr>)
              (enumerate 0 conns)))"

definition new_event :: "bus_env \<Rightarrow> string \<Rightarrow> json \<Rightarrow> json \<Rightarrow> event" where
  "new_event env topic payload ev_ty = \<lparr>ev_topic = topic, ev_payload = payload, ev_type = ev_ty, ev_v = 1,
     ev_ts = be_ts env, ev_id = be_uuid env\<rparr>"

definition dispatch_frame :: "bus_env \<Rightarrow> nat \<Rightarrow> frame \<Rightarrow> server \<Rightarrow> server result" where
  "dispatch_frame env i fr conns =
     (let conn = conns ! i; verb = fr_verb fr; args = fr_args fr in
      if verb = ''HELLO'' then Inr (if args = [] then conns else conns[i := conn\<lparr>cn_peer := args\<rparr>])
      else if verb = ''SUB'' then
        (if args = [] then Inl ProtocolError else Inr (conns[i := conn\<lparr>cn_patterns := List.insert args (cn_patterns conn)\<rparr>]))
      else if verb = ''UNSUB'' then Inr (conns[i := conn\<lparr>cn_patterns := removeAll args (cn_patterns conn)\<rparr>])
      else if verb = ''PUB'' then
        (if args = [] then Inl ProtocolError
         else bindE (if fr_body fr \<noteq> [] then decode_body (be_orj env) (fr_body fr) else Inr []) (\<lambda>data.
           fanout env (new_event env args (get_or data ''payload'' (JObj [])) (get_or data ''type'' (JStr []))) (Some i) conns))
      else if verb = ''BYE'' then Inr conns
      else Inl ProtocolError)"

definition close_connection :: "nat \<Rightarrow> server \<Rightarrow> server" where
  "close_connection i conns = conns[i := (conns ! i)\<lparr>cn_closed := True\<rparr>]"

text \<open>The reader loop of a connection on the bytes its peer sends: it ends, with the connection closed, at
  the end of the bytes, after \<open>BYE\<close>, and at the first error.\<close>

lemma read_frame_shrinks: "read_frame s = (Inr (Some fr), s') \<Longrightarrow> length s' < length s"
proof -
  assume run: "read_frame s = (Inr (Some fr), s')"
  define rest where "rest = tl (dropWhile (\<lambda>c. c \<noteq> LF) s)"
  from run have "\<exists>verb args. read_body verb args rest = (Inr (Some fr), s')"
    by (auto simp: read_frame_def Let_def rest_def split: if_splits)
  then have "length s' < length rest" by (auto simp: read_body_def Let_def split: if_splits)
  also have "length rest \<le> length s" using length_dropWhile_le [of "\<lambda>c. c \<noteq> LF" s] by (simp add: rest_def)
  finally show ?thesis .
qed

function reader_loop :: "bus_env \<Rightarrow> nat \<Rightarrow> string \<Rightarrow> server \<Rightarrow> server" where
  "reader_loop env i s conns =
     (case read_frame s of
        (Inr (Some fr), s') \<Rightarrow>
          (case dispatch_frame env i fr conns of
             Inl _ \<Rightarrow> close_connection i conns
           | Inr conns' \<Rightarrow> if fr_verb fr = ''BYE'' then close_connection i conns' else reader_loop env i s' conns')
      | _ \<Rightarrow> close_connection i conns)"
  by pat_completeness auto

termination
  by (relation "measure (\<lambda>(_, _, s, _). length s)") (auto intro: read_frame_shrinks [OF sym])

declare reader_loop.simps [simp del]

section \<open>Delivery\<close>

definition queues_ok :: "server \<Rightarrow> bool" where
  "queues_ok conns \<longleftrightarrow> list_all (\<lambda>c. length (cn_outbound c) \<le> OUTBOUND_QUEUE_SIZE) conns"

lemma fanout_nth:
  assumes "encode (be_orj env) ''EVT'' (ev_topic event) (Some (event_to_dict event)) = Inr bs" "j < length conns"
  shows "\<exists>conns'. fanout env event origin conns = Inr conns' \<and> length conns' = length conns \<and>
    conns' ! j = (if Some j \<noteq> origin \<and> \<not> cn_closed (conns ! j) \<and> wants (ev_topic event) (conns ! j)
      then (conns ! j)\<lparr>cn_outbound := enqueue_drop_oldest OUTBOUND_QUEUE_SIZE (cn_outbound (conns ! j)) bs\<rparr> else conns ! j)"
  using assms by (auto simp: fanout_def nth_enumerate_eq)

lemma fanout_queues:
  assumes "fanout env event origin conns = Inr conns'" "queues_ok conns"
  shows "queues_ok conns'"
proof -
  have one: "length (cn_outbound c) \<le> OUTBOUND_QUEUE_SIZE" if "(i, c) \<in> set (enumerate 0 conns)" for i c
    using assms(2) that by (auto simp: queues_ok_def list_all_iff in_set_enumerate_eq)
  then show ?thesis using assms
    by (auto simp: fanout_def queues_ok_def list_all_iff OUTBOUND_QUEUE_SIZE_def enqueue_bounded split: sum.splits exn.splits)
qed

lemma queues_ok_update: "queues_ok conns \<Longrightarrow> i < length conns \<Longrightarrow> cn_outbound c = cn_outbound (conns ! i) \<Longrightarrow> queues_ok (conns[i := c])"
  by (auto simp: queues_ok_def list_all_length nth_list_update)

lemma fanout_length: "fanout env event origin conns = Inr conns' \<Longrightarrow> length conns' = length conns"
  by (auto simp: fanout_def split: sum.splits exn.splits)

lemma dispatch_queues:
  assumes "dispatch_frame env i fr conns = Inr conns'" "queues_ok conns" "i < length conns"
  shows "queues_ok conns' \<and> length conns' = length conns"
  using assms by (auto simp: dispatch_frame_def Let_def fanout_length intro: fanout_queues queues_ok_update split: if_splits)

lemma close_queues: "queues_ok conns \<Longrightarrow> i < length conns \<Longrightarrow> queues_ok (close_connection i conns)"
  by (simp add: close_connection_def queues_ok_update)

lemma reader_loop_queues:
  assumes "queues_ok conns" "i < length conns"
  shows "queues_ok (reader_loop env i s conns) \<and> length (reader_loop env i s conns) = length conns"
  using assms
proof (induction env i s conns rule: reader_loop.induct)
  case (1 env i s conns)
  obtain res s' where rf: "read_frame s = (res, s')" by fastforce
  have close: "queues_ok (close_connection i c) \<and> length (close_connection i c) = length conns"
    if "queues_ok c" "length c = length conns" for c
    using that 1(3) close_queues [of c i] by (simp add: close_connection_def)
  show ?case
  proof (cases "\<exists>fr conns'. res = Inr (Some fr) \<and> dispatch_frame env i fr conns = Inr conns'")
    case True
    then obtain fr conns' where ok: "res = Inr (Some fr)" "dispatch_frame env i fr conns = Inr conns'" by blast
    note d = dispatch_queues [OF ok(2) 1(2,3)]
    show ?thesis
    proof (cases "fr_verb fr = ''BYE''")
      case True
      with ok rf d close show ?thesis by (simp add: reader_loop.simps [of env i s])
    next
      case False
      with 1(1) [OF rf [symmetric] ok(1) _ ok(2) False] ok rf d 1(3) show ?thesis by (simp add: reader_loop.simps [of env i s])
    qed
  next
    case False
    then have "reader_loop env i s conns = close_connection i conns"
      using rf by (auto simp: reader_loop.simps [of env i s] split: sum.splits option.splits)
    with close 1(2) show ?thesis by simp
  qed
qed

section \<open>The in-process bus\<close>

datatype item = EventItem event | CloseSentinel

record fake_subscription =
  fs_pattern :: string
  fs_queue :: "item list"
  fs_closed :: bool

text \<open>\<open>fb_subs\<close> holds every subscription made, \<open>fb_registered\<close> the positions of those on the bus's list.\<close>

record fake_bus =
  fb_queue_size :: nat
  fb_subs :: "fake_subscription list"
  fb_registered :: "nat list"
  fb_closed :: bool

definition update_sub :: "nat \<Rightarrow> (fake_subscription \<Rightarrow> fake_subscription) \<Rightarrow> fake_bus \<Rightarrow> fake_bus" where
  "update_sub i f b = b\<lparr>fb_subs := (fb_subs b)[i := f (fb_subs b ! i)]\<rparr>"

definition put_nowait_suppressed :: "nat \<Rightarrow> item \<Rightarrow> fake_subscription \<Rightarrow> fake_subscription" where
  "put_nowait_suppressed maxsize x s = (if queue_full maxsize (fs_queue s) then s else s\<lparr>fs_queue := fs_queue s @ [x]\<rparr>)"

definition fake_publish :: "bus_env \<Rightarrow> string \<Rightarrow> json \<Rightarrow> json \<Rightarrow> (unit, fake_bus) op" where
  "fake_publish env topic payload ev_ty b =
     (if fb_closed b then (Inl RuntimeError, b)
      else let targets = filter (\<lambda>i. matches (fs_pattern (fb_subs b ! i)) topic) (fb_registered b) in
        (Inr (), fold (\<lambda>i. update_sub i (\<lambda>s. s\<lparr>fs_queue := enqueue_drop_oldest (fb_queue_size b) (fs_queue s)
           (EventItem (new_event env topic payload ev_ty))\<rparr>)) targets b))"

definition fake_subscribe :: "string \<Rightarrow> (nat, fake_bus) op" where
  "fake_subscribe pattern b =
     (if fb_closed b then (Inl RuntimeError, b)
      else (Inr (length (fb_subs b)), b\<lparr>fb_subs := fb_subs b @ [\<lparr>fs_pattern = pattern, fs_queue = [], fs_closed = False\<rparr>],
        fb_registered := fb_registered b @ [length (fb_subs b)]\<rparr>))"

definition subscription_aclose :: "nat \<Rightarrow> fake_bus \<Rightarrow> fake_bus" where
  "subscription_aclose i b =
     (if fs_closed (fb_subs b ! i) then b
      else update_sub i (\<lambda>s. put_nowait_suppressed (fb_queue_size b) CloseSentinel (s\<lparr>fs_closed := True\<rparr>))
        (b\<lparr>fb_registered := remove1 i (fb_registered b)\<rparr>))"

definition fake_close :: "fake_bus \<Rightarrow> fake_bus" where
  "fake_close b =
     (if fb_closed b then b
      else (fold (\<lambda>i. update_sub i (put_nowait_suppressed (fb_queue_size b) CloseSentinel)) (fb_registered b)
        (b\<lparr>fb_closed := True\<rparr>))\<lparr>fb_registered := []\<rparr>)"

text \<open>\<open>async for event in sub\<close> when nobody publishes any more: the events handled, and whether the loop
  ends or waits forever on the empty queue.\<close>

datatype iteration_end = Stops | Blocks

fun iterate_queue :: "item list \<Rightarrow> event list \<times> iteration_end" where
  "iterate_queue [] = ([], Blocks)"
| "iterate_queue (CloseSentinel # q) = ([], Stops)"
| "iterate_queue (EventItem e # q) = (case iterate_queue q of (es, r) \<Rightarrow> (e # es, r))"

definition iterate :: "nat \<Rightarrow> fake_bus \<Rightarrow> event list \<times> iteration_end" where
  "iterate i b = (if fs_closed (fb_subs b ! i) then ([], Stops) else iterate_queue (fs_queue (fb_subs b ! i)))"

lemma iterate_events: "iterate_queue (map EventItem es @ q) = (es @ fst (iterate_queue q), snd (iterate_queue q))"
  by (induction es) (auto split: prod.split)

lemma update_sub_simps [simp]:
  "length (fb_subs (update_sub i f b)) = length (fb_subs b)" "fb_queue_size (update_sub i f b) = fb_queue_size b"
  "i < length (fb_subs b) \<Longrightarrow> fb_subs (update_sub i f b) ! j = (if j = i then f (fb_subs b ! j) else fb_subs b ! j)"
  by (auto simp: update_sub_def nth_list_update)

lemma fold_update_sub:
  assumes "distinct is" "set is \<subseteq> {..<length (fb_subs b)}"
  shows "fb_subs (fold (\<lambda>i. update_sub i f) is b) ! j = (if j \<in> set is then f (fb_subs b ! j) else fb_subs b ! j)"
  using assms by (induction "is" arbitrary: b) auto

definition fake_wf :: "fake_bus \<Rightarrow> bool" where
  "fake_wf b \<longleftrightarrow> distinct (fb_registered b) \<and> set (fb_registered b) \<subseteq> {..<length (fb_subs b)}"

lemma fake_close_sub:
  assumes "fake_wf b" "\<not> fb_closed b" "i \<in> set (fb_registered b)"
  shows "fb_subs (fake_close b) ! i = put_nowait_suppressed (fb_queue_size b) CloseSentinel (fb_subs b ! i)"
  using assms fold_update_sub [of "fb_registered b" "b\<lparr>fb_closed := True\<rparr>" _ i] by (simp add: fake_close_def fake_wf_def)

lemma fake_close_closed: "fb_closed (fake_close b)"
proof -
  have "fb_closed (fold (\<lambda>i. update_sub i f) is b) = fb_closed b" for f "is" and b :: fake_bus
    by (induction "is" arbitrary: b) (simp_all add: update_sub_def)
  then show ?thesis by (simp add: fake_close_def)
qed

section \<open>Properties\<close>


definition demo_event :: event where
  "demo_event = \<lparr>ev_topic = ''decky.web.state'', ev_payload = JObj [], ev_type = JStr ''state'', ev_v = 1, ev_ts = 0, ev_id = ''a''\<rparr>"

definition demo_bus_env :: bus_env where
  "demo_bus_env = \<lparr>be_orj = \<lparr>oj_dumps = (\<lambda>_. ''{}''), oj_loads = (\<lambda>_. Some (JObj (event_to_dict demo_event)))\<rparr>, be_ts = 1, be_uuid = ''b''\<rparr>"

definition demo_conns :: server where
  "demo_conns = [\<lparr>cn_peer = ''p'', cn_patterns = [], cn_outbound = [], cn_closed = False\<rparr>,
     \<lparr>cn_peer = ''s'', cn_patterns = [''decky.*.state''], cn_outbound = [], cn_closed = False\<rparr>]"


text \<open>C32. Closing the in-process bus ends the loop of a subscriber after
  the events it has queued, unless its queue is full: then the loop handles them and waits forever, as
  nothing can be published on a closed bus.\<close>

theorem closed_bus_ends_iteration:
  assumes "fake_wf b" "\<not> fb_closed b" "i \<in> set (fb_registered b)" "\<not> fs_closed (fb_subs b ! i)"
    and "fs_queue (fb_subs b ! i) = map EventItem es"
  shows "iterate i (fake_close b) = (es, if queue_full (fb_queue_size b) es then Blocks else Stops) \<and>
    fst (fake_publish env topic payload ty (fake_close b)) = Inl RuntimeError"
  using fake_close_sub [OF assms(1-3)] fake_close_closed [of b] assms(4,5) iterate_events [of es "[]"] iterate_events [of es "[CloseSentinel]"]
  by (auto simp: iterate_def put_nowait_suppressed_def fake_publish_def queue_full_def)

theorem closed_bus_ends_iteration_witness:
  "iterate 0 (fake_close \<lparr>fb_queue_size = 1, fb_subs = [\<lparr>fs_pattern = ''>'', fs_queue = [EventItem demo_event], fs_closed = False\<rparr>],
     fb_registered = [0], fb_closed = False\<rparr>) = ([demo_event], Blocks)"
  using closed_bus_ends_iteration [of "\<lparr>fb_queue_size = 1, fb_subs = [\<lparr>fs_pattern = ''>'', fs_queue = [EventItem demo_event], fs_closed = False\<rparr>],
     fb_registered = [0], fb_closed = False\<rparr>" 0 "[demo_event]"]
  by (simp add: fake_wf_def queue_full_def)

end
