(* ===== verification/Clustering.thy ===== *)
theory Clustering
  imports Py_Json "HOL-Library.Monad_Syntax"
begin

text \<open>
  Identity clustering (\<open>decnet/clustering/impl/similarity.py\<close> and the pure part of
  \<open>decnet/clustering/impl/connected_components.py\<close>).  Scores are rational numbers instead of floats:
  the weights leave a gap between 0.85 and 1, so rounding does not decide.  The parent dict of
  the union-find is a function; \<open>find\<close> with its path halving is a partial function, \<open>None\<close> being a loop
  that does not end, and is shown to end.  Two observations get the same label exactly when a chain
  of strong matches connects them.
\<close>

section \<open>Similarity\<close>

record observation =
  ob_id :: string
  ob_ja3 :: "string option"
  ob_hassh :: "string option"
  ob_asn :: "int option"
  ob_payload_hashes :: "string set"
  ob_c2_endpoints :: "string set"
  ob_credentials :: "(string \<times> string) set"
  ob_commands_by_phase :: "(string, string list) dict"

definition fingerprints_fully_disagree :: "observation \<Rightarrow> observation \<Rightarrow> bool" where
  "fingerprints_fully_disagree a b =
     (let ja3_comparable = ob_ja3 a \<noteq> None \<and> ob_ja3 b \<noteq> None;
          hassh_comparable = ob_hassh a \<noteq> None \<and> ob_hassh b \<noteq> None
      in if \<not> (ja3_comparable \<or> hassh_comparable) then False
         else if ja3_comparable \<and> ob_ja3 a = ob_ja3 b then False
         else if hassh_comparable \<and> ob_hassh a = ob_hassh b then False
         else if ja3_comparable \<and> hassh_comparable then ob_ja3 a \<noteq> ob_ja3 b \<and> ob_hassh a \<noteq> ob_hassh b
         else True)"

definition high_weight_edge :: "observation \<Rightarrow> observation \<Rightarrow> rat" where
  "high_weight_edge a b =
     (if ob_ja3 a \<noteq> None \<and> ob_ja3 a = ob_ja3 b then 1
      else if ob_hassh a \<noteq> None \<and> ob_hassh a = ob_hassh b then 1
      else if fingerprints_fully_disagree a b then 0
      else if ob_payload_hashes a \<noteq> {} \<and> ob_payload_hashes b \<noteq> {} \<and> ob_payload_hashes a \<inter> ob_payload_hashes b \<noteq> {} then 1
      else if ob_c2_endpoints a \<noteq> {} \<and> ob_c2_endpoints b \<noteq> {} \<and> ob_c2_endpoints a \<inter> ob_c2_endpoints b \<noteq> {} then 1
      else 0)"

definition jaccard :: "'a set \<Rightarrow> 'a set \<Rightarrow> rat" where
  "jaccard A B = of_nat (card (A \<inter> B)) / of_nat (card (A \<union> B))"

definition phase_commands :: "observation \<Rightarrow> string \<Rightarrow> string set" where
  "phase_commands a phase = set (case map_of (ob_commands_by_phase a) phase of None \<Rightarrow> [] | Some cs \<Rightarrow> cs)"

definition medium_weight_edge :: "observation \<Rightarrow> observation \<Rightarrow> rat" where
  "medium_weight_edge a b =
     (let shared = filter (\<lambda>k. k \<in> fst ` set (ob_commands_by_phase b)) (map fst (ob_commands_by_phase a))
      in fold (\<lambda>phase best.
           let sa = phase_commands a phase; sb = phase_commands b phase in
           if sa = {} \<and> sb = {} then best
           else let j = jaccard sa sb in if j > best then j else best) shared 0)"

definition low_weight_edge :: "observation \<Rightarrow> observation \<Rightarrow> rat" where
  "low_weight_edge a b =
     (if ob_credentials a = {} \<or> ob_credentials b = {} then 0 else jaccard (ob_credentials a) (ob_credentials b))"

definition very_low_weight_edge :: "observation \<Rightarrow> observation \<Rightarrow> rat" where
  "very_low_weight_edge a b =
     (if ob_asn a = None \<or> ob_asn b = None then 0 else if ob_asn a = ob_asn b then 1 else 0)"

definition EDGE_THRESHOLD :: rat where "EDGE_THRESHOLD = 1"

definition combined_edge_weight :: "observation \<Rightarrow> observation \<Rightarrow> rat" where
  "combined_edge_weight a b =
     1 * high_weight_edge a b + 6/10 * medium_weight_edge a b + 2/10 * low_weight_edge a b + 5/100 * very_low_weight_edge a b"

section \<open>Only strong signals cross the threshold\<close>

lemma jaccard_bounds: "0 \<le> jaccard A B" "jaccard A B \<le> 1"
proof -
  show "0 \<le> jaccard A B" by (simp add: jaccard_def)
  show "jaccard A B \<le> 1"
  proof (cases "finite (A \<union> B)")
    case True
    then have "card (A \<inter> B) \<le> card (A \<union> B)" by (intro card_mono) auto
    then show ?thesis by (auto simp: jaccard_def divide_le_eq_1)
  qed (simp add: jaccard_def)
qed

lemma medium_bounds: "0 \<le> medium_weight_edge a b \<and> medium_weight_edge a b \<le> 1"
proof -
  have "0 \<le> fold (\<lambda>phase best. let sa = phase_commands a phase; sb = phase_commands b phase in
      if sa = {} \<and> sb = {} then best else let j = jaccard sa sb in if j > best then j else best) ks x \<and>
    fold (\<lambda>phase best. let sa = phase_commands a phase; sb = phase_commands b phase in
      if sa = {} \<and> sb = {} then best else let j = jaccard sa sb in if j > best then j else best) ks x \<le> 1"
    if "0 \<le> x" "x \<le> 1" for ks and x :: rat
    using that by (induction ks arbitrary: x) (simp_all add: Let_def jaccard_bounds)
  then show ?thesis by (simp add: medium_weight_edge_def)
qed

lemma low_bounds: "0 \<le> low_weight_edge a b" "low_weight_edge a b \<le> 1"
  "0 \<le> very_low_weight_edge a b" "very_low_weight_edge a b \<le> 1"
  by (simp_all add: low_weight_edge_def very_low_weight_edge_def jaccard_bounds)

lemma high_cases: "high_weight_edge a b = 0 \<or> high_weight_edge a b = 1"
  by (simp add: high_weight_edge_def)

lemma combined_iff_high: "EDGE_THRESHOLD \<le> combined_edge_weight a b \<longleftrightarrow> high_weight_edge a b = 1"
  using high_cases [of a b] medium_bounds [of a b] low_bounds [of a b]
  by (auto simp: combined_edge_weight_def EDGE_THRESHOLD_def)

lemma high_sym: "high_weight_edge a b = high_weight_edge b a"
proof -
  have "(ob_ja3 a \<noteq> None \<and> ob_ja3 a = ob_ja3 b) = (ob_ja3 b \<noteq> None \<and> ob_ja3 b = ob_ja3 a)"
    "(ob_hassh a \<noteq> None \<and> ob_hassh a = ob_hassh b) = (ob_hassh b \<noteq> None \<and> ob_hassh b = ob_hassh a)" by metis+
  moreover have "fingerprints_fully_disagree a b = fingerprints_fully_disagree b a"
    unfolding fingerprints_fully_disagree_def Let_def by (simp add: eq_commute [of "ob_ja3 a"] eq_commute [of "ob_hassh a"] conj_commute)
  moreover have "ob_payload_hashes a \<inter> ob_payload_hashes b = ob_payload_hashes b \<inter> ob_payload_hashes a"
    "ob_c2_endpoints a \<inter> ob_c2_endpoints b = ob_c2_endpoints b \<inter> ob_c2_endpoints a" by blast+
  ultimately show ?thesis unfolding high_weight_edge_def by (simp only: conj_ac)
qed

section \<open>Union-find\<close>

partial_function (option) find_root :: "'a \<Rightarrow> ('a \<Rightarrow> 'a) \<Rightarrow> ('a \<times> ('a \<Rightarrow> 'a)) option" where
  "find_root x parent =
     (if parent x = x then Some (x, parent)
      else let parent = parent(x := parent (parent x)) in find_root (parent x) parent)"

definition union_roots :: "'a \<Rightarrow> 'a \<Rightarrow> ('a \<Rightarrow> 'a) \<Rightarrow> ('a \<Rightarrow> 'a) option" where
  "union_roots x y parent =
     do { (rx, parent) \<leftarrow> find_root x parent;
          (ry, parent) \<leftarrow> find_root y parent;
          Some (if rx \<noteq> ry then parent(rx := ry) else parent) }"

text \<open>\<open>root_at p x r n\<close>: following \<open>p\<close> from \<open>x\<close> ends at \<open>r\<close> after \<open>n\<close> steps.\<close>

inductive root_at :: "('a \<Rightarrow> 'a) \<Rightarrow> 'a \<Rightarrow> 'a \<Rightarrow> nat \<Rightarrow> bool" for p where
  here: "p x = x \<Longrightarrow> root_at p x x 0"
| up: "p x \<noteq> x \<Longrightarrow> root_at p (p x) r n \<Longrightarrow> root_at p x r (Suc n)"

inductive_cases root_at_upE: "root_at p x r n"

lemma root_at_det: "root_at p x r n \<Longrightarrow> root_at p x r' n' \<Longrightarrow> r' = r \<and> n' = n"
proof (induction arbitrary: r' n' rule: root_at.induct)
  case (here x)
  then show ?case by (auto elim: root_at_upE)
next
  case (up x r n)
  from up.prems up.hyps(1) obtain m where "n' = Suc m" "root_at p (p x) r' m" by (auto elim: root_at_upE)
  with up.IH show ?case by auto
qed

lemma root_at_fix: "root_at p x r n \<Longrightarrow> p r = r"
  by (induction rule: root_at.induct) simp_all

lemma root_at_step: "root_at p x r n \<Longrightarrow> p x \<noteq> x \<Longrightarrow> \<exists>m. n = Suc m \<and> root_at p (p x) r m"
  by (auto elim: root_at_upE)

lemma root_halve:
  assumes "root_at p y r n" "p x \<noteq> x" and q: "q = p(x := p (p x))"
  shows "\<exists>m \<le> n. root_at q y r m"
  using assms(1)
proof (induction rule: root_at.induct)
  case (here y)
  have "y \<noteq> x" using here assms(2) by blast
  with here have "q y = y" by (simp add: q)
  then have "root_at q y y 0" by (rule root_at.here)
  then show ?case by blast
next
  case (up y r n)
  have qx: "q x = p (p x)" and qz: "\<And>z. z \<noteq> x \<Longrightarrow> q z = p z" by (simp_all add: q)
  from up.IH obtain m where m: "m \<le> n" "root_at q (p y) r m" by blast
  show ?case
  proof (cases "y \<noteq> x \<or> p (p x) = p x")
    case True
    then have "q y = p y" using qx qz by metis
    then have "root_at q y r (Suc m)" using up.hyps(1) m(2) root_at.up by metis
    with m(1) Suc_le_mono show ?thesis by blast
  next
    case False
    then have y: "y = x" and pp: "p (p x) \<noteq> p x" by simp_all
    from root_at_step [OF up.hyps(2)] y pp obtain k where k: "n = Suc k" "root_at p (p (p x)) r k" by auto
    have "p (p x) \<noteq> x"
    proof
      assume "p (p x) = x"
      with k have "root_at p x r k" by simp
      moreover have "root_at p x r (Suc n)" using root_at.up [OF up.hyps] y by simp
      ultimately have "k = Suc n" using root_at_det by metis
      with k(1) show False by simp
    qed
    moreover have "q (p x) = p (p x)" using qz assms(2) by blast
    then obtain j where j: "m = Suc j" "root_at q (p (p x)) r j" using root_at_step [of q "p x"] m(2) y pp by metis
    ultimately have "root_at q x r (Suc j)" using qx root_at.up by metis
    with j(1) m(1) y le_SucI show ?thesis by blast
  qed
qed

lemma find_root_ends:
  assumes "root_at p x r n"
  shows "\<exists>p'. find_root x p = Some (r, p') \<and> (\<forall>y s k. root_at p y s k \<longrightarrow> (\<exists>k'. root_at p' y s k'))"
  using assms
proof (induction n arbitrary: x p rule: less_induct)
  case (less n)
  show ?case
  proof (cases "p x = x")
    case True
    then have "r = x" using less.prems by (auto elim: root_at_upE)
    with True show ?thesis by (subst find_root.simps) auto
  next
    case False
    define q where "q = p(x := p (p x))"
    note halve = root_halve [OF _ False q_def]
    obtain m where m: "m \<le> n" "root_at q x r m" using halve [OF less.prems] by blast
    have "q x \<noteq> x"
    proof
      assume "q x = x"
      then have "root_at q x x 0" by (rule root_at.here)
      with m have "r = x" using root_at_det by metis
      with root_at_fix [OF less.prems] False show False by simp
    qed
    with root_at_step [OF m(2)] obtain k where k: "m = Suc k" "root_at q (q x) r k" by blast
    with m(1) have "k < n" by simp
    from less.IH [OF this k(2)] obtain p' where p': "find_root (q x) q = Some (r, p')"
      "\<forall>y s k. root_at q y s k \<longrightarrow> (\<exists>k'. root_at p' y s k')" by blast
    have "find_root x p = Some (r, p')" using False p'(1) by (subst find_root.simps) (simp add: Let_def q_def)
    moreover have "\<exists>k'. root_at p' y s k'" if "root_at p y s k" for y s k
      using halve [OF that] p'(2) by blast
    ultimately show ?thesis by blast
  qed
qed

lemma root_link:
  assumes "root_at p z r n" "p ry = ry" "p rx = rx" "rx \<noteq> ry" and q: "q = p(rx := ry)"
  shows "\<exists>m. root_at q z (if r = rx then ry else r) m"
  using assms(1)
proof (induction rule: root_at.induct)
  case (here z)
  have "q ry = ry" "q rx = ry" using assms by simp_all
  then have "root_at q rx ry (Suc 0)" using assms(4) root_at.intros by metis
  moreover have "q z = z" if "z \<noteq> rx" using that here by (simp add: q)
  ultimately show ?case using root_at.here by metis
next
  case (up z r n)
  then have "q z = p z" using assms(3) by (auto simp: q)
  then show ?case using up root_at.up by metis
qed

text \<open>\<open>represents p rt S\<close>: \<open>rt\<close> gives the root of every element of \<open>S\<close>.\<close>

definition represents :: "('a \<Rightarrow> 'a) \<Rightarrow> ('a \<Rightarrow> 'a) \<Rightarrow> 'a set \<Rightarrow> bool" where
  "represents p rt S \<longleftrightarrow> (\<forall>x \<in> S. \<exists>n. root_at p x (rt x) n)"

lemma find_root_represents:
  assumes "represents p rt S" "x \<in> S"
  obtains p' where "find_root x p = Some (rt x, p')" "represents p' rt S"
proof -
  from assms obtain n where "root_at p x (rt x) n" by (auto simp: represents_def)
  from find_root_ends [OF this] obtain p' where "find_root x p = Some (rt x, p')"
    "\<forall>y s k. root_at p y s k \<longrightarrow> (\<exists>k'. root_at p' y s k')" by blast
  with assms that show thesis unfolding represents_def by metis
qed

lemma union_roots_represents:
  assumes "represents p rt S" "x \<in> S" "y \<in> S"
  obtains p' where "union_roots x y p = Some p'" "represents p' (\<lambda>z. if rt z = rt x then rt y else rt z) S"
proof -
  from find_root_represents [OF assms(1,2)] obtain p1 where p1: "find_root x p = Some (rt x, p1)" "represents p1 rt S" by blast
  from find_root_represents [OF p1(2) assms(3)] obtain p2 where p2: "find_root y p1 = Some (rt y, p2)" "represents p2 rt S" by blast
  let ?p = "if rt x \<noteq> rt y then p2(rt x := rt y) else p2"
  have run: "union_roots x y p = Some ?p" using p1(1) p2(1) by (simp add: union_roots_def)
  have fix_roots: "p2 (rt x) = rt x" "p2 (rt y) = rt y" using p2(2) assms(2,3) root_at_fix unfolding represents_def by metis+
  have "represents ?p (\<lambda>z. if rt z = rt x then rt y else rt z) S"
  proof (cases "rt x = rt y")
    case True
    then have "(\<lambda>z. if rt z = rt x then rt y else rt z) = rt" by auto
    with True p2(2) show ?thesis by simp
  next
    case False
    then have p: "?p = p2(rt x := rt y)" by simp
    have "\<exists>m. root_at ?p z (if rt z = rt x then rt y else rt z) m" if "z \<in> S" for z
    proof -
      from p2(2) that obtain n where "root_at p2 z (rt z) n" unfolding represents_def by blast
      from root_link [OF this fix_roots(2,1) False p] show ?thesis .
    qed
    then show ?thesis unfolding represents_def by blast
  qed
  with run that show thesis by blast
qed

section \<open>Clustering\<close>

fun later_pairs :: "'a list \<Rightarrow> ('a \<times> 'a) list" where
  "later_pairs [] = []"
| "later_pairs (a # rest) = map (Pair a) rest @ later_pairs rest"

fun link_pairs :: "(observation \<times> observation) list \<Rightarrow> (string \<Rightarrow> string) \<Rightarrow> (string \<Rightarrow> string) option" where
  "link_pairs [] parent = Some parent"
| "link_pairs ((a, b) # rest) parent =
     do { parent \<leftarrow> (if EDGE_THRESHOLD \<le> combined_edge_weight a b then union_roots (ob_id a) (ob_id b) parent else Some parent);
          link_pairs rest parent }"

fun label_all :: "observation list \<Rightarrow> (string \<Rightarrow> string) \<Rightarrow> (string, string) dict \<Rightarrow> (string, string) dict option" where
  "label_all [] parent labels = Some labels"
| "label_all (o' # rest) parent labels =
     do { (r, parent) \<leftarrow> find_root (ob_id o') parent;
          label_all rest parent (AList.update (ob_id o') (''cc-'' @ r) labels) }"

definition cluster_observations :: "observation list \<Rightarrow> (string, string) dict option" where
  "cluster_observations obs =
     do { parent \<leftarrow> link_pairs (later_pairs obs) (\<lambda>x. x);
          label_all obs parent [] }"

text \<open>Strong matches among the observations, and the chains of them.\<close>

definition strong_links :: "observation list \<Rightarrow> (string \<times> string) set" where
  "strong_links obs = {(ob_id a, ob_id b) | a b. a \<in> set obs \<and> b \<in> set obs \<and> high_weight_edge a b = 1}"

lemma strong_linksI:
  "a \<in> set obs \<Longrightarrow> b \<in> set obs \<Longrightarrow> high_weight_edge a b = 1 \<Longrightarrow> (ob_id a, ob_id b) \<in> strong_links obs"
  unfolding strong_links_def by blast

definition classes :: "('a \<Rightarrow> 'b) \<Rightarrow> ('a \<times> 'a) set \<Rightarrow> 'a set \<Rightarrow> bool" where
  "classes rt E S \<longleftrightarrow> E \<subseteq> S \<times> S \<and> (\<forall>x \<in> S. \<forall>y \<in> S. rt x = rt y \<longleftrightarrow> (x, y) \<in> (E \<union> E\<inverse>)\<^sup>*)"

lemma classes_link:
  assumes "classes rt E S" "x \<in> S" "y \<in> S"
  shows "classes (\<lambda>z. if rt z = rt x then rt y else rt z) (insert (x, y) E) S"
proof -
  let ?rt = "\<lambda>z. if rt z = rt x then rt y else rt z"
  let ?R = "(E \<union> E\<inverse>)\<^sup>*" and ?R' = "(insert (x, y) E \<union> (insert (x, y) E)\<inverse>)\<^sup>*"
  have E: "E \<subseteq> S \<times> S" and iff: "\<And>a b. a \<in> S \<Longrightarrow> b \<in> S \<Longrightarrow> rt a = rt b \<longleftrightarrow> (a, b) \<in> ?R"
    using assms(1) by (auto simp: classes_def)
  have mono: "?R \<subseteq> ?R'" by (rule rtrancl_mono) auto
  have edge: "(x, y) \<in> ?R'" "(y, x) \<in> ?R'" by (auto intro: r_into_rtrancl)
  have E': "insert (x, y) E \<subseteq> S \<times> S" using E assms by auto
  have "?rt a = ?rt b" if "(a, b) \<in> ?R'" for a b
    using that
  proof (induction rule: rtrancl_induct)
    case (step b c)
    have "?rt u = ?rt v" if "(u, v) \<in> insert (x, y) E" for u v
    proof (cases "(u, v) \<in> E")
      case True
      then have "u \<in> S" "v \<in> S" "(u, v) \<in> ?R" using E by auto
      with iff have "rt u = rt v" by blast
      then show ?thesis by simp
    qed (use that in simp)
    then have "?rt b = ?rt c" using step.hyps(2) by (metis UnE converseD)
    with step.IH show ?case by simp
  qed simp
  moreover have "(a, b) \<in> ?R'" if "?rt a = ?rt b" "a \<in> S" "b \<in> S" for a b
  proof -
    have link: "(u, v) \<in> ?R'" if "rt u = rt v" "u \<in> S" "v \<in> S" for u v using iff that mono by blast
    consider "rt a = rt b" | "rt a = rt x" "rt b = rt y" | "rt a = rt y" "rt b = rt x"
      using \<open>?rt a = ?rt b\<close> by (auto split: if_splits)
    then show ?thesis
    proof cases
      case 2
      then have "(a, x) \<in> ?R'" "(y, b) \<in> ?R'" using link that assms(2,3) by simp_all
      with edge(1) show ?thesis by (meson rtrancl_trans)
    next
      case 3
      then have "(a, y) \<in> ?R'" "(x, b) \<in> ?R'" using link that assms(2,3) by simp_all
      with edge(2) show ?thesis by (meson rtrancl_trans)
    qed (use link that in blast)
  qed
  ultimately show ?thesis using E' unfolding classes_def by blast
qed

lemma link_pairs_classes:
  assumes "represents parent rt S" "classes rt E S"
    and "\<And>a b. (a, b) \<in> set ps \<Longrightarrow> ob_id a \<in> S \<and> ob_id b \<in> S"
  obtains parent' rt' where "link_pairs ps parent = Some parent'" "represents parent' rt' S"
    "classes rt' (E \<union> {(ob_id a, ob_id b) | a b. (a, b) \<in> set ps \<and> high_weight_edge a b = 1}) S"
  using assms
proof (induction ps arbitrary: parent rt E thesis)
  case Nil
  then show ?case by simp
next
  case (Cons ab ps)
  obtain a b where ab: "ab = (a, b)" by fastforce
  have S: "ob_id a \<in> S" "ob_id b \<in> S" using Cons.prems(4) ab by auto
  have rest: "\<And>a b. (a, b) \<in> set ps \<Longrightarrow> ob_id a \<in> S \<and> ob_id b \<in> S" using Cons.prems(4) by auto
  show ?case
  proof (cases "high_weight_edge a b = 1")
    case True
    obtain p1 where p1: "union_roots (ob_id a) (ob_id b) parent = Some p1"
      "represents p1 (\<lambda>z. if rt z = rt (ob_id a) then rt (ob_id b) else rt z) S"
      using union_roots_represents [OF Cons.prems(2) S] by blast
    note cl = classes_link [OF Cons.prems(3) S]
    obtain parent' rt' where out: "link_pairs ps p1 = Some parent'" "represents parent' rt' S"
      "classes rt' (insert (ob_id a, ob_id b) E \<union> {(ob_id a, ob_id b) | a b. (a, b) \<in> set ps \<and> high_weight_edge a b = 1}) S"
      using Cons.IH [OF _ p1(2) cl rest] by blast
    have "insert (ob_id a, ob_id b) E \<union> {(ob_id a, ob_id b) | a b. (a, b) \<in> set ps \<and> high_weight_edge a b = 1} =
        E \<union> {(ob_id a, ob_id b) | a b. (a, b) \<in> set (ab # ps) \<and> high_weight_edge a b = 1}" using True ab by auto
    with out p1(1) True show ?thesis by (intro Cons.prems(1) [of parent' rt']) (simp_all add: ab combined_iff_high)
  next
    case False
    obtain parent' rt' where out: "link_pairs ps parent = Some parent'" "represents parent' rt' S"
      "classes rt' (E \<union> {(ob_id a, ob_id b) | a b. (a, b) \<in> set ps \<and> high_weight_edge a b = 1}) S"
      using Cons.IH [OF _ Cons.prems(2,3) rest] by blast
    have "{(ob_id a, ob_id b) | a b. (a, b) \<in> set ps \<and> high_weight_edge a b = 1} =
        {(ob_id a, ob_id b) | a b. (a, b) \<in> set (ab # ps) \<and> high_weight_edge a b = 1}" using False ab by auto
    with out False show ?thesis by (intro Cons.prems(1) [of parent' rt']) (simp_all add: ab combined_iff_high)
  qed
qed

lemma label_all_ends:
  assumes "represents parent rt S" "ob_id ` set obs \<subseteq> S"
  shows "\<exists>labels'. label_all obs parent labels = Some labels' \<and>
    map_of labels' = (\<lambda>k. if k \<in> ob_id ` set obs then Some (''cc-'' @ rt k) else map_of labels k)"
  using assms
proof (induction obs arbitrary: parent labels)
  case (Cons o' obs)
  obtain p' where p': "find_root (ob_id o') parent = Some (rt (ob_id o'), p')" "represents p' rt S"
    using find_root_represents [OF Cons.prems(1), of "ob_id o'"] Cons.prems(2) by auto
  from Cons.IH [OF p'(2), of "AList.update (ob_id o') (''cc-'' @ rt (ob_id o')) labels"] Cons.prems(2) p'(1)
  show ?case by (auto simp: update_conv' fun_eq_iff)
qed simp

lemma later_pairs_mem: "(a, b) \<in> set (later_pairs xs) \<Longrightarrow> a \<in> set xs \<and> b \<in> set xs"
  by (induction xs) auto

lemma later_pairs_total: "a \<in> set xs \<Longrightarrow> b \<in> set xs \<Longrightarrow> a \<noteq> b \<Longrightarrow> (a, b) \<in> set (later_pairs xs) \<or> (b, a) \<in> set (later_pairs xs)"
  by (induction xs) auto

lemma strong_links_closure:
  fixes obs :: "observation list"
  defines "E \<equiv> {(ob_id a, ob_id b) | a b. (a, b) \<in> set (later_pairs obs) \<and> high_weight_edge a b = 1}"
  shows "(E \<union> E\<inverse>)\<^sup>* = (strong_links obs)\<^sup>*"
proof (rule rtrancl_subset [symmetric])
  show "strong_links obs \<subseteq> (E \<union> E\<inverse>)\<^sup>*"
  proof clarify
    fix x y assume "(x, y) \<in> strong_links obs"
    then obtain a b where ab: "x = ob_id a" "y = ob_id b" "a \<in> set obs" "b \<in> set obs" "high_weight_edge a b = 1"
      by (auto simp: strong_links_def)
    show "(x, y) \<in> (E \<union> E\<inverse>)\<^sup>*"
    proof (cases "a = b")
      case False
      from later_pairs_total [OF ab(3,4) False] ab(5) high_sym [of a b] have "(x, y) \<in> E \<union> E\<inverse>"
        unfolding E_def ab(1,2) by auto
      then show ?thesis by (rule r_into_rtrancl)
    qed (simp add: ab)
  qed
  show "E \<union> E\<inverse> \<subseteq> strong_links obs"
  proof -
    have "E \<subseteq> strong_links obs" by (auto simp: E_def strong_links_def dest: later_pairs_mem)
    moreover have "E\<inverse> \<subseteq> strong_links obs"
      using high_sym by (auto simp: E_def strong_links_def dest!: later_pairs_mem) metis
    ultimately show ?thesis by blast
  qed
qed

section \<open>Properties\<close>

text \<open>C33. Clustering returns for every list of observations and labels exactly their identifiers; two
  observations have the same label exactly when a chain of strong matches (equal JA3 or HASSH, or a
  shared payload or command server that no fingerprint contradicts) connects them: the weaker
  signals never join observations, not even together.\<close>

theorem clusters_are_strong_components:
  "\<exists>labels. cluster_observations obs = Some labels \<and> dom (map_of labels) = ob_id ` set obs \<and>
     (\<forall>a b. a \<in> set obs \<and> b \<in> set obs \<longrightarrow>
        (map_of labels (ob_id a) = map_of labels (ob_id b) \<longleftrightarrow> (ob_id a, ob_id b) \<in> (strong_links obs)\<^sup>*))"
proof -
  let ?S = "ob_id ` set obs"
  have start: "represents (\<lambda>x. x) (\<lambda>x. x) ?S" "classes (\<lambda>x. x) {} ?S"
    by (auto simp: represents_def classes_def intro: root_at.here)
  have "ob_id a \<in> ?S \<and> ob_id b \<in> ?S" if "(a, b) \<in> set (later_pairs obs)" for a b using later_pairs_mem [OF that] by simp
  from link_pairs_classes [OF start this] obtain parent rt where
    link: "link_pairs (later_pairs obs) (\<lambda>x. x) = Some parent" "represents parent rt ?S"
    "classes rt ({} \<union> {(ob_id a, ob_id b) | a b. (a, b) \<in> set (later_pairs obs) \<and> high_weight_edge a b = 1}) ?S" by blast
  obtain labels where labels: "label_all obs parent [] = Some labels"
    "map_of labels = (\<lambda>k. if k \<in> ?S then Some (''cc-'' @ rt k) else map_of [] k)"
    using label_all_ends [OF link(2) order_refl, of "[]"] by blast
  have "rt x = rt y \<longleftrightarrow> (x, y) \<in> (strong_links obs)\<^sup>*" if "x \<in> ?S" "y \<in> ?S" for x y
    using link(3) that strong_links_closure [of obs] unfolding classes_def by auto
  with link(1) labels show ?thesis by (auto simp: cluster_observations_def dom_def)
qed

definition demo_observation :: "string \<Rightarrow> string option \<Rightarrow> observation" where
  "demo_observation i ja3 = \<lparr>ob_id = i, ob_ja3 = ja3, ob_hassh = None, ob_asn = Some 1, ob_payload_hashes = {},
     ob_c2_endpoints = {}, ob_credentials = {}, ob_commands_by_phase = []\<rparr>"

theorem clusters_are_strong_components_witness:
  "\<exists>labels. cluster_observations [demo_observation ''a'' (Some ''f''), demo_observation ''b'' (Some ''f'')] = Some labels \<and>
     map_of labels ''a'' = map_of labels ''b''"
proof -
  define a b where "a = demo_observation ''a'' (Some ''f'')" and "b = demo_observation ''b'' (Some ''f'')"
  have ids: "ob_id a = ''a''" "ob_id b = ''b''" and strong: "high_weight_edge a b = 1"
    by (simp_all add: a_def b_def demo_observation_def high_weight_edge_def)
  have chain: "(ob_id a, ob_id b) \<in> (strong_links [a, b])\<^sup>*" by (rule r_into_rtrancl [OF strong_linksI]) (simp_all add: strong)
  obtain labels where labels: "cluster_observations [a, b] = Some labels"
    "\<forall>c d. c \<in> set [a, b] \<and> d \<in> set [a, b] \<longrightarrow>
       (map_of labels (ob_id c) = map_of labels (ob_id d) \<longleftrightarrow> (ob_id c, ob_id d) \<in> (strong_links [a, b])\<^sup>*)"
    using clusters_are_strong_components [of "[a, b]"] by blast
  from labels(2) [rule_format, of a b] chain have "map_of labels ''a'' = map_of labels ''b''" by (simp add: ids)
  with labels(1) show ?thesis unfolding a_def b_def by blast
qed

end
