(* ===== verification/Syslog.thy ===== *)
theory Syslog
  imports Py_Json "HOL-Library.Sublist" "HOL-Library.Monad_Syntax"
begin

text \<open>
  The log lines that couple the honeypots to the correlation engine: the formatter
  (\<open>decnet/logging/syslog_formatter.py\<close>) and the parser (\<open>decnet/correlation/parser.py\<close>).  Text is ASCII.
  A regular expression of the parser is written out as the scan it performs; none of them needs
  backtracking, because every repeated class excludes what has to follow it.  Reading an ISO timestamp, UTC where it names no zone
  (\<open>from_iso\<close>) and finding an address in free text (\<open>msg_ip\<close>) are arguments.
\<close>

section \<open>Formatting\<close>

abbreviation BACKSLASH :: char where "BACKSLASH \<equiv> CHR 0x5C"
abbreviation QUOTE :: char where "QUOTE \<equiv> CHR 0x22"
abbreviation BRACKET :: char where "BRACKET \<equiv> CHR '']''"
abbreviation NEWLINE :: char where "NEWLINE \<equiv> CHR 0x0A"

definition replace_char :: "char \<Rightarrow> string \<Rightarrow> string \<Rightarrow> string" where
  "replace_char c r s = concat (map (\<lambda>x. if x = c then r else [x]) s)"

definition pri :: "nat \<Rightarrow> string" where
  "pri severity = ''<'' @ nat_str (16 * 8 + severity) @ ''>''"

definition truncate_to :: "string \<Rightarrow> nat \<Rightarrow> string" where
  "truncate_to value maxlen = (if maxlen < length value then take maxlen value else value)"

definition sd_escape :: "string \<Rightarrow> string" where
  "sd_escape value = replace_char BRACKET [BACKSLASH, BRACKET]
     (replace_char QUOTE [BACKSLASH, QUOTE] (replace_char BACKSLASH [BACKSLASH, BACKSLASH] value))"

definition sd_param :: "string \<times> string \<Rightarrow> string" where
  "sd_param kv = fst kv @ [CHR ''='', QUOTE] @ sd_escape (snd kv) @ [QUOTE]"

definition sd_element :: "(string, string) dict \<Rightarrow> string" where
  "sd_element fields = (if fields = [] then ''-'' else ''[relay@55555 '' @ join '' '' (map sd_param fields) @ '']'')"

definition or_nil :: "string \<Rightarrow> string" where
  "or_nil s = (if s = [] then ''-'' else s)"

definition format_rfc5424 ::
  "string \<Rightarrow> string \<Rightarrow> string \<Rightarrow> nat \<Rightarrow> string \<Rightarrow> string option \<Rightarrow> (string, string) dict \<Rightarrow> string" where
  "format_rfc5424 service hostname event_type severity ts msg fields =
     pri severity @ ''1 '' @ ts @ '' '' @ truncate_to (or_nil hostname) 255 @ '' '' @ truncate_to (or_nil service) 48 @ '' - '' @
     truncate_to (or_nil event_type) 32 @ '' '' @ sd_element fields @
     (case msg of None \<Rightarrow> [] | Some m \<Rightarrow> if m = [] then [] else '' '' @ m)"

section \<open>Parsing\<close>

definition is_word :: "char \<Rightarrow> bool" where
  "is_word c \<longleftrightarrow> (let n = of_char c :: nat in 48 \<le> n \<and> n \<le> 57 \<or> 65 \<le> n \<and> n \<le> 90 \<or> n = 95 \<or> 97 \<le> n \<and> n \<le> 122)"

fun expect :: "string \<Rightarrow> string \<Rightarrow> string option" where
  "expect [] s = Some s"
| "expect (c # p) [] = None"
| "expect (c # p) (x # s) = (if x = c then expect p s else None)"

definition take_word :: "string \<Rightarrow> (string \<times> string) option" where
  "take_word s = (let w = takeWhile (\<lambda>c. \<not> is_space c) s; r = dropWhile (\<lambda>c. \<not> is_space c) s in
     if w = [] then None else Some (w, r))"

definition rest_of_line :: "string \<Rightarrow> string option" where
  "rest_of_line s = (if s = [] \<or> NEWLINE \<in> set s then None else Some s)"

definition skip_digits :: "string \<Rightarrow> string option" where
  "skip_digits s = (if takeWhile is_digit s = [] then None else Some (dropWhile is_digit s))"

definition skip_spaces :: "string \<Rightarrow> string option" where
  "skip_spaces s = (if takeWhile is_space s = [] then None else Some (dropWhile is_space s))"

text \<open>\<open>_RFC5424_RE\<close> and \<open>_INNER_RFC5424_RE\<close>.\<close>

definition match_rfc5424 :: "string \<Rightarrow> (string \<times> string \<times> string \<times> string \<times> string) option" where
  "match_rfc5424 line =
     do { s \<leftarrow> expect ''<'' line; s \<leftarrow> skip_digits s; s \<leftarrow> expect ''>1 '' s;
          (ts, s) \<leftarrow> take_word s; s \<leftarrow> expect '' '' s;
          (host, s) \<leftarrow> take_word s; s \<leftarrow> expect '' '' s;
          (app, s) \<leftarrow> take_word s; s \<leftarrow> expect '' '' s;
          s \<leftarrow> expect ''- '' s;
          (msgid, s) \<leftarrow> take_word s; s \<leftarrow> expect '' '' s;
          rest \<leftarrow> rest_of_line s;
          Some (ts, host, app, msgid, rest) }"

definition dated :: "string \<Rightarrow> bool" where
  "dated w \<longleftrightarrow> 11 < length w \<and> list_all is_digit (take 4 w) \<and> w ! 4 = CHR ''-'' \<and> list_all is_digit (take 2 (drop 5 w)) \<and>
     w ! 7 = CHR ''-'' \<and> list_all is_digit (take 2 (drop 8 w)) \<and> w ! 10 = CHR ''T''"

definition match_inner :: "string \<Rightarrow> (string \<times> string \<times> string \<times> string) option" where
  "match_inner body =
     do { (ts, s) \<leftarrow> take_word body; s \<leftarrow> (if dated ts then skip_spaces s else None);
          (host, s) \<leftarrow> take_word s; s \<leftarrow> skip_spaces s;
          (app, s) \<leftarrow> take_word s; s \<leftarrow> skip_spaces s;
          (_, s) \<leftarrow> take_word s; s \<leftarrow> skip_spaces s;
          (msgid, s) \<leftarrow> take_word s; s \<leftarrow> skip_spaces s;
          rest \<leftarrow> rest_of_line s;
          Some (host, app, msgid, rest) }"

text \<open>\<open>_SD_BLOCK_RE.search\<close>: the text up to the first closing bracket.\<close>

definition sd_block_at :: "string \<Rightarrow> string option" where
  "sd_block_at s = do { s \<leftarrow> expect ''[relay@55555'' s; s \<leftarrow> skip_spaces s;
     if BRACKET \<in> set s then Some (takeWhile (\<lambda>c. c \<noteq> BRACKET) s) else None }"

fun sd_block :: "string \<Rightarrow> string option" where
  "sd_block [] = None"
| "sd_block (c # s) = (case sd_block_at (c # s) of Some b \<Rightarrow> Some b | None \<Rightarrow> sd_block s)"

text \<open>\<open>_PARAM_RE.findall\<close>.\<close>

fun scan_value :: "string \<Rightarrow> (string \<times> string) option" where
  "scan_value [] = None"
| "scan_value (c # s) =
     (if c = QUOTE then Some ([], s)
      else if c = BACKSLASH then
        (case s of
           [] \<Rightarrow> None
         | d # s' \<Rightarrow> if d = NEWLINE then None else map_option (\<lambda>(v, r). (c # d # v, r)) (scan_value s'))
      else map_option (\<lambda>(v, r). (c # v, r)) (scan_value s))"

lemma scan_value_shrinks: "scan_value s = Some (v, r) \<Longrightarrow> length r < length s"
proof (induction s arbitrary: v r rule: scan_value.induct)
  case (2 c s)
  consider "c = QUOTE" | "c \<noteq> QUOTE" "c = BACKSLASH" | "c \<noteq> QUOTE" "c \<noteq> BACKSLASH" by blast
  then show ?case
  proof cases
    case 2
    with \<open>scan_value (c # s) = Some (v, r)\<close> obtain d s' v' where
      "s = d # s'" "d \<noteq> NEWLINE" "scan_value s' = Some (v', r)"
      by (auto split: list.splits if_splits)
    with "2.IH"(1) 2 show ?thesis by fastforce
  next
    case 3
    with \<open>scan_value (c # s) = Some (v, r)\<close> obtain v' where "scan_value s = Some (v', r)" by auto
    with "2.IH"(2) 3 show ?thesis by fastforce
  qed (use \<open>scan_value (c # s) = Some (v, r)\<close> in simp)
qed simp

definition param_at :: "string \<Rightarrow> (string \<times> string \<times> string) option" where
  "param_at s =
     (let key = takeWhile is_word s in
      if key = [] then None
      else do { r \<leftarrow> expect [CHR ''='', QUOTE] (dropWhile is_word s); (v, r) \<leftarrow> scan_value r; Some (key, v, r) })"

lemma expect_Some: "expect p s = Some r \<longleftrightarrow> s = p @ r"
  by (induction p s rule: expect.induct) auto

lemma param_at_shrinks:
  assumes "param_at s = Some (k, v, r)"
  shows "length r < length s"
proof -
  from assms obtain t where t: "dropWhile is_word s = CHR ''='' # QUOTE # t" "scan_value t = Some (v, r)"
    by (auto simp: param_at_def Let_def expect_Some split: if_splits bind_splits)
  from scan_value_shrinks [OF t(2)] length_dropWhile_le [of is_word s] t(1) show ?thesis by simp
qed

function find_params :: "string \<Rightarrow> (string \<times> string) list" where
  "find_params s =
     (if s = [] then []
      else case param_at s of
        Some (k, v, r) \<Rightarrow> (k, v) # find_params r
      | None \<Rightarrow> find_params (tl s))"
  by pat_completeness auto

termination
  by (relation "measure length") (auto intro: param_at_shrinks)

declare find_params.simps [simp del]

text \<open>\<open>str.replace\<close> of a pair of characters, and the unescaping of a value.\<close>

fun replace_pair :: "char \<Rightarrow> char \<Rightarrow> string \<Rightarrow> string \<Rightarrow> string" where
  "replace_pair a b r (x # y # s) = (if x = a \<and> y = b then r @ replace_pair a b r s else x # replace_pair a b r (y # s))"
| "replace_pair a b r s = s"

definition unescape :: "string \<Rightarrow> string" where
  "unescape val = replace_pair BACKSLASH BRACKET [BRACKET]
     (replace_pair BACKSLASH BACKSLASH [BACKSLASH] (replace_pair BACKSLASH QUOTE [QUOTE] val))"

definition parse_sd_params :: "string \<Rightarrow> (string, string) dict" where
  "parse_sd_params sd_rest =
     (case sd_block sd_rest of
        None \<Rightarrow> []
      | Some block \<Rightarrow> fold (\<lambda>(key, val) params. AList.update key (unescape val) params) (find_params block) [])"

definition IP_FIELDS :: "string list" where
  "IP_FIELDS = [''src_ip'', ''src'', ''client_ip'', ''remote_ip'', ''remote_addr'', ''target_ip'', ''ip'']"

definition extract_attacker_ip :: "(string \<Rightarrow> string option) \<Rightarrow> (string, string) dict \<Rightarrow> string \<Rightarrow> string option" where
  "extract_attacker_ip msg_ip fields msg =
     (case find (\<lambda>f. f \<in> fst ` set fields) IP_FIELDS of
        Some f \<Rightarrow> map_of fields f
      | None \<Rightarrow> if msg \<noteq> [] then msg_ip msg else None)"

text \<open>\<open>re.search(r'\]\s+(.+)$', sd_rest)\<close> and its strip; the text has no newline.\<close>

fun message_tail :: "string \<Rightarrow> string" where
  "message_tail [] = []"
| "message_tail (c # s) =
     (if c = BRACKET \<and> takeWhile is_space s \<noteq> [] \<and> dropWhile is_space s \<noteq> [] then strip (dropWhile is_space s)
      else message_tail s)"

text \<open>\<open>re.findall(r'(\w+)=(\S+)', head)\<close> and \<open>partition("cmd=")\<close>.\<close>

definition pair_at :: "string \<Rightarrow> (string \<times> string \<times> string) option" where
  "pair_at s =
     (let key = takeWhile is_word s in
      if key = [] then None
      else do { r \<leftarrow> expect ''='' (dropWhile is_word s); (v, r) \<leftarrow> take_word r; Some (key, v, r) })"

lemma pair_at_shrinks: "pair_at s = Some (k, v, r) \<Longrightarrow> length r < length s"
proof -
  assume "pair_at s = Some (k, v, r)"
  then obtain t where t: "dropWhile is_word s = CHR ''='' # t" "take_word t = Some (v, r)"
    by (auto simp: pair_at_def Let_def expect_Some split: if_splits bind_splits)
  from t(2) length_dropWhile_le [of "\<lambda>c. \<not> is_space c" t] have "length r \<le> length t"
    by (auto simp: take_word_def Let_def split: if_splits)
  with t(1) length_dropWhile_le [of is_word s] show ?thesis by simp
qed

function find_pairs :: "string \<Rightarrow> (string \<times> string) list" where
  "find_pairs s =
     (if s = [] then []
      else case pair_at s of
        Some (k, v, r) \<Rightarrow> (k, v) # find_pairs r
      | None \<Rightarrow> find_pairs (tl s))"
  by pat_completeness auto

termination
  by (relation "measure length") (auto intro: pair_at_shrinks)

declare find_pairs.simps [simp del]

fun partition_at :: "string \<Rightarrow> string \<Rightarrow> string \<times> bool \<times> string" where
  "partition_at sep [] = ([], False, [])"
| "partition_at sep (c # s) =
     (if prefix sep (c # s) then ([], True, drop (length sep) (c # s))
      else case partition_at sep s of (h, found, t) \<Rightarrow> (c # h, found, t))"

record 'ts log_event =
  le_timestamp :: 'ts
  le_decky :: string
  le_service :: string
  le_event_type :: string
  le_attacker_ip :: "string option"
  le_fields :: "(string, string) dict"
  le_raw :: string
  le_mutation :: bool

definition command_fields :: "string \<Rightarrow> string \<Rightarrow> (string, string) dict \<Rightarrow> string \<times> (string, string) dict" where
  "command_fields event_type msg flds =
     (if event_type \<in> {''-'', ''command''} \<and> prefix ''CMD '' msg \<and> ''command'' \<notin> fst ` set flds then
        (case partition_at ''cmd='' (drop 4 msg) of (head, sep, cmd_rest) \<Rightarrow>
           let flds = fold (\<lambda>(k, v). setdefault k v) (find_pairs head) flds
           in (''command'', if sep then setdefault ''command'' cmd_rest flds else flds))
      else (event_type, flds))"

definition parse_line :: "(string \<Rightarrow> 'ts option) \<Rightarrow> (string \<Rightarrow> string option) \<Rightarrow> string \<Rightarrow> 'ts log_event option" where
  "parse_line from_iso msg_ip raw =
     (let line = strip raw in
      if line = [] then None
      else do {
        (ts_raw, decky, service, event_type, sd_rest) \<leftarrow> match_rfc5424 line;
        let (decky, service, event_type, sd_rest) =
          (if event_type = ''-'' \<and> prefix ''-'' sd_rest
           then (case match_inner (dropWhile is_space (tl sd_rest)) of
                   Some inner \<Rightarrow> inner | None \<Rightarrow> (decky, service, event_type, sd_rest))
           else (decky, service, event_type, sd_rest));
        if decky = ''-'' \<or> service = ''-'' then None
        else do {
          timestamp \<leftarrow> from_iso ts_raw;
          let flds = parse_sd_params sd_rest;
          let msg = (if prefix ''-'' sd_rest then dropWhile is_space (tl sd_rest) else message_tail sd_rest);
          let attacker_ip = extract_attacker_ip msg_ip flds msg;
          let (event_type, flds) = command_fields event_type msg flds;
          Some \<lparr>le_timestamp = timestamp, le_decky = decky, le_service = service, le_event_type = event_type,
            le_attacker_ip = attacker_ip, le_fields = flds, le_raw = line,
            le_mutation = (service = ''mutator'' \<and> event_type = ''decky_mutated'')\<rparr> } })"

section \<open>Reading back what was formatted\<close>

definition esc_char :: "char \<Rightarrow> string" where
  "esc_char c = (if c \<in> {BACKSLASH, QUOTE, BRACKET} then [BACKSLASH, c] else [c])"

lemma sd_escape_Nil [simp]: "sd_escape [] = []"
  by (simp add: sd_escape_def replace_char_def)

lemma sd_escape_Cons [simp]: "sd_escape (c # v) = esc_char c @ sd_escape v"
  by (simp add: sd_escape_def replace_char_def esc_char_def)

text \<open>The three replacements of the reader undo the three of the writer.\<close>

lemma unescape_sd_escape:
  assumes "BRACKET \<notin> set v"
  shows "unescape (sd_escape v) = v"
proof -
  define half where "half v = replace_char BACKSLASH [BACKSLASH, BACKSLASH] v" for v
  have half: "half [] = []" "half (c # v) = (if c = BACKSLASH then [BACKSLASH, BACKSLASH] else [c]) @ half v" for c v
    by (simp_all add: half_def replace_char_def)
  have keep: "replace_pair BACKSLASH QUOTE [QUOTE] (x # sd_escape v) = x # replace_pair BACKSLASH QUOTE [QUOTE] (sd_escape v)" for x v
    by (cases v) (auto simp: esc_char_def)
  have one: "replace_pair BACKSLASH QUOTE [QUOTE] (sd_escape v) = half v"
    using assms by (induction v) (auto simp: half esc_char_def keep)
  have two: "replace_pair BACKSLASH BACKSLASH [BACKSLASH] (half v) = v"
  proof (induction v)
    case (Cons c v)
    then show ?case by (cases v) (auto simp: half)
  qed (simp add: half)
  have three: "BRACKET \<notin> set v \<Longrightarrow> replace_pair BACKSLASH BRACKET [BRACKET] v = v" for v
    by (induction BACKSLASH BRACKET "[BRACKET]" v rule: replace_pair.induct) auto
  from one two three [OF assms] show ?thesis by (simp add: unescape_def)
qed

lemma takeWhile_sd_escape:
  "takeWhile (\<lambda>c. c \<noteq> BRACKET) (sd_escape v @ s) =
     (if BRACKET \<in> set v then sd_escape (takeWhile (\<lambda>c. c \<noteq> BRACKET) v) @ [BACKSLASH]
      else sd_escape v @ takeWhile (\<lambda>c. c \<noteq> BRACKET) s)"
  by (induction v) (auto simp: esc_char_def)

lemma scan_sd_escape: "scan_value (sd_escape v @ QUOTE # s) = Some (sd_escape v, s)"
  by (induction v) (auto simp: esc_char_def)

lemma scan_cut: "BRACKET \<notin> set v \<Longrightarrow> scan_value (sd_escape v @ [BACKSLASH]) = None"
  by (induction v) (auto simp: esc_char_def)

text \<open>No parameter starts inside an escaped value: a quote follows a backslash there, never an equals sign.\<close>

fun starts_value :: "string \<Rightarrow> bool" where
  "starts_value (x # y # s) = (x = CHR ''='' \<and> y = QUOTE \<or> starts_value (y # s))"
| "starts_value s = False"

lemma starts_value_append: "starts_value (a @ CHR ''='' # QUOTE # s)"
proof (induction a)
  case (Cons c a)
  then show ?case by (cases a) auto
qed simp

lemma not_starts_cut: "\<not> starts_value (sd_escape v @ [BACKSLASH])"
proof (induction v)
  case (Cons c v)
  then show ?case by (cases v) (auto simp: esc_char_def)
qed simp

lemma param_at_starts:
  assumes "param_at s = Some p"
  shows "starts_value s"
proof -
  from assms obtain t where "dropWhile is_word s = CHR ''='' # QUOTE # t"
    by (auto simp: param_at_def Let_def expect_Some split: if_splits bind_splits)
  with starts_value_append [of "takeWhile is_word s" t] show ?thesis
    by (metis takeWhile_dropWhile_id)
qed

lemma find_params_none: "\<not> starts_value s \<Longrightarrow> find_params s = []"
proof (induction s)
  case (Cons c s)
  from Cons.prems have "\<not> starts_value s" by (cases s) auto
  with Cons param_at_starts [of "c # s"] show ?case
    by (cases "param_at (c # s)") (auto simp: find_params.simps [of "c # s"])
qed (simp add: find_params.simps)

lemma find_params_skip: "\<not> is_word c \<Longrightarrow> find_params (c # s) = find_params s"
  by (subst find_params.simps) (simp add: param_at_def)

definition is_key :: "string \<Rightarrow> bool" where
  "is_key k \<longleftrightarrow> k \<noteq> [] \<and> list_all is_word k"

lemma key_spans:
  assumes "list_all is_word k"
  shows "takeWhile is_word (k @ CHR ''='' # s) = k" and "dropWhile is_word (k @ CHR ''='' # s) = CHR ''='' # s"
  using assms by (auto simp: takeWhile_append dropWhile_append list_all_iff is_word_def Let_def)

lemma find_params_param:
  assumes "is_key (fst kv)"
  shows "find_params (sd_param kv @ s) = (fst kv, sd_escape (snd kv)) # find_params s"
proof -
  from assms have "param_at (sd_param kv @ s) = Some (fst kv, sd_escape (snd kv), s)"
    by (simp add: param_at_def sd_param_def is_key_def key_spans scan_sd_escape)
  moreover from assms have "sd_param kv @ s \<noteq> []" by (simp add: sd_param_def)
  ultimately show ?thesis by (subst find_params.simps) simp
qed

lemma find_params_cut:
  assumes "list_all is_word k" and "BRACKET \<notin> set v"
  shows "find_params (k @ CHR ''='' # QUOTE # sd_escape v @ [BACKSLASH]) = []"
  using assms(1)
proof (induction k)
  case Nil
  have "\<not> is_word (CHR ''='')" "\<not> is_word QUOTE" by (simp_all add: is_word_def)
  with find_params_none [OF not_starts_cut] show ?case by (simp add: find_params_skip)
next
  case (Cons c k)
  then have "param_at ((c # k) @ CHR ''='' # QUOTE # sd_escape v @ [BACKSLASH]) = None"
    unfolding param_at_def key_spans [OF Cons.prems] by (simp add: scan_cut [OF assms(2)])
  with Cons show ?case by (subst find_params.simps) simp
qed

lemma takeWhile_param:
  assumes "is_key (fst kv)"
  shows "takeWhile (\<lambda>c. c \<noteq> BRACKET) (sd_param kv @ s) =
     (if BRACKET \<in> set (snd kv)
      then fst kv @ CHR ''='' # QUOTE # sd_escape (takeWhile (\<lambda>c. c \<noteq> BRACKET) (snd kv)) @ [BACKSLASH]
      else sd_param kv @ takeWhile (\<lambda>c. c \<noteq> BRACKET) s)"
proof -
  from assms have "\<forall>c \<in> set (fst kv). c \<noteq> BRACKET"
    by (auto simp: is_key_def list_all_iff is_word_def Let_def)
  then have "takeWhile (\<lambda>c. c \<noteq> BRACKET) (fst kv @ t) = fst kv @ takeWhile (\<lambda>c. c \<noteq> BRACKET) t" for t
    by (simp add: takeWhile_append)
  then show ?thesis by (simp add: sd_param_def takeWhile_sd_escape)
qed

text \<open>What the block yields: the parameters before the first value with a closing bracket.\<close>

lemma find_params_block:
  assumes "list_all (\<lambda>kv. is_key (fst kv)) kvs"
  shows "find_params (takeWhile (\<lambda>c. c \<noteq> BRACKET) (join '' '' (map sd_param kvs) @ [BRACKET])) =
     map (\<lambda>kv. (fst kv, sd_escape (snd kv))) (takeWhile (\<lambda>kv. BRACKET \<notin> set (snd kv)) kvs)"
  using assms
proof (induction kvs)
  case (Cons kv kvs)
  then have key: "is_key (fst kv)" "list_all is_word (fst kv)" by (simp_all add: is_key_def)
  have cut: "BRACKET \<notin> set (takeWhile (\<lambda>c. c \<noteq> BRACKET) v)" for v by (auto dest: set_takeWhileD)
  have space: "\<not> is_word (CHR '' '')" by (simp add: is_word_def)
  show ?case
  proof (cases kvs)
    case Nil
    with find_params_param [OF key(1), of "[]"] show ?thesis
      by (simp add: takeWhile_param [OF key(1)] find_params_cut [OF key(2) cut] find_params.simps [of "[]"])
  next
    case (Cons kv' kvs')
    with Cons.IH Cons.prems show ?thesis
      by (simp add: takeWhile_param [OF key(1)] find_params_cut [OF key(2) cut] find_params_param [OF key(1)]
          find_params_skip [OF space])
  qed
qed (simp add: find_params.simps)

lemma parse_sd_element:
  assumes "list_all (\<lambda>kv. is_key (fst kv)) kvs" and "distinct (map fst kvs)"
  shows "parse_sd_params (sd_element kvs) = takeWhile (\<lambda>kv. BRACKET \<notin> set (snd kv)) kvs"
proof (cases kvs)
  case (Cons kv kvs')
  define body where "body = join '' '' (map sd_param kvs) @ [BRACKET]"
  obtain c s where c: "body = c # s" "is_word c"
  proof -
    from assms(1) Cons obtain c k where "fst kv = c # k" "is_word c" by (cases "fst kv") (auto simp: is_key_def)
    with Cons that show thesis by (cases kvs') (auto simp: body_def sd_param_def)
  qed
  then have "\<not> is_space c" by (auto simp: is_word_def is_space_def Let_def)
  with c have "skip_spaces (CHR '' '' # body) = Some body" by (simp add: skip_spaces_def is_space_def)
  then have "sd_block_at (''[relay@55555 '' @ body) = Some (takeWhile (\<lambda>c. c \<noteq> BRACKET) body)"
    by (simp add: sd_block_at_def body_def)
  moreover have "sd_element kvs = ''[relay@55555 '' @ body" using Cons by (simp add: sd_element_def body_def)
  ultimately have "sd_block (sd_element kvs) = Some (takeWhile (\<lambda>c. c \<noteq> BRACKET) body)" by simp
  moreover have "distinct (map fst (takeWhile (\<lambda>kv. BRACKET \<notin> set (snd kv)) kvs))"
    using assms(2) by (metis distinct_take takeWhile_eq_take take_map)
  moreover have "map (\<lambda>kv. (fst kv, unescape (sd_escape (snd kv)))) (takeWhile (\<lambda>kv. BRACKET \<notin> set (snd kv)) kvs) =
      takeWhile (\<lambda>kv. BRACKET \<notin> set (snd kv)) kvs"
    by (rule map_idI) (auto simp: unescape_sd_escape dest: set_takeWhileD)
  ultimately show ?thesis
    using find_params_block [OF assms(1)]
      fold_update_fresh [of fst "takeWhile (\<lambda>kv. BRACKET \<notin> set (snd kv)) kvs" "[]" "\<lambda>kv. unescape (sd_escape (snd kv))"]
    by (simp add: parse_sd_params_def body_def fold_map comp_def)
qed (simp add: sd_element_def parse_sd_params_def sd_block_at_def)

text \<open>The header.\<close>

definition is_token :: "string \<Rightarrow> bool" where
  "is_token w \<longleftrightarrow> w \<noteq> [] \<and> list_all (\<lambda>c. \<not> is_space c) w"

lemma space_is_space [simp]: "is_space (CHR '' '')"
  by (simp add: is_space_def)

lemma take_word_token: "is_token w \<Longrightarrow> take_word (w @ CHR '' '' # s) = Some (w, CHR '' '' # s)"
  by (auto simp: is_token_def take_word_def list_all_iff takeWhile_append dropWhile_append Let_def)

lemma token_take: "is_token w \<Longrightarrow> 0 < n \<Longrightarrow> is_token (take n w)"
  by (auto simp: is_token_def list_all_iff dest: in_set_takeD)

lemma truncate_to_or_nil: "is_token w \<Longrightarrow> truncate_to (or_nil w) n = take n w"
  by (simp add: truncate_to_def or_nil_def is_token_def)

lemma take_short_iff: "length v < n \<Longrightarrow> take n w = v \<longleftrightarrow> w = v"
  by (cases "length w \<le> n") auto

lemma skip_pri: "expect ''<'' (pri severity @ s) \<bind> skip_digits = Some (CHR ''>'' # s)"
proof -
  have "\<forall>c \<in> set (nat_str n). is_digit c" for n by (simp add: nat_str_digits)
  moreover have "\<not> is_digit (CHR ''>'')" by (simp add: is_digit_def)
  ultimately show ?thesis
    by (simp add: pri_def skip_digits_def takeWhile_append dropWhile_append)
qed

lemma match_formatted:
  assumes "is_token ts" and "is_token host" and "is_token app" and "is_token msgid" and "rest_of_line rest = Some rest"
  shows "match_rfc5424 (pri severity @ ''1 '' @ ts @ '' '' @ host @ '' '' @ app @ '' - '' @ msgid @ '' '' @ rest) =
    Some (ts, host, app, msgid, rest)"
proof -
  have "match_rfc5424 (pri severity @ s) =
     do { s \<leftarrow> expect ''>1 '' (CHR ''>'' # s);
          (ts, s) \<leftarrow> take_word s; s \<leftarrow> expect '' '' s;
          (host, s) \<leftarrow> take_word s; s \<leftarrow> expect '' '' s;
          (app, s) \<leftarrow> take_word s; s \<leftarrow> expect '' '' s;
          s \<leftarrow> expect ''- '' s;
          (msgid, s) \<leftarrow> take_word s; s \<leftarrow> expect '' '' s;
          rest \<leftarrow> rest_of_line s;
          Some (ts, host, app, msgid, rest) }" for s
    using skip_pri [of severity s] by (auto simp: match_rfc5424_def bind_eq_Some_conv)
  with assms show ?thesis by (simp add: take_word_token)
qed

lemma set_join: "set (join sep ws) \<subseteq> set sep \<union> (\<Union>w \<in> set ws. set w)"
  by (induction sep ws rule: join.induct) auto

lemma set_sd_escape: "set (sd_escape v) \<subseteq> insert BACKSLASH (set v)"
  by (induction v) (auto simp: esc_char_def)

lemma set_params:
  "set (join '' '' (map sd_param kvs)) \<subseteq>
     {CHR '' '', CHR ''='', QUOTE, BACKSLASH} \<union> (\<Union>kv \<in> set kvs. set (fst kv) \<union> set (snd kv))"
proof -
  have "set (sd_param kv) \<subseteq> {CHR ''='', QUOTE, BACKSLASH} \<union> (set (fst kv) \<union> set (snd kv))" for kv
    using set_sd_escape [of "snd kv"] by (auto simp: sd_param_def)
  then have "(\<Union>w \<in> set (map sd_param kvs). set w) \<subseteq>
      {CHR ''='', QUOTE, BACKSLASH} \<union> (\<Union>kv \<in> set kvs. set (fst kv) \<union> set (snd kv))"
    by (simp add: UN_subset_iff) blast
  with set_join [of "'' ''" "map sd_param kvs"] show ?thesis by auto
qed

lemma key_chars: "is_key k \<Longrightarrow> NEWLINE \<notin> set k \<and> BRACKET \<notin> set k"
  by (auto simp: is_key_def list_all_iff is_word_def Let_def)

lemma sd_element_one_line:
  assumes "list_all (\<lambda>kv. is_key (fst kv) \<and> NEWLINE \<notin> set (snd kv)) kvs"
  shows "rest_of_line (sd_element kvs) = Some (sd_element kvs)"
proof -
  from assms have "NEWLINE \<notin> set (join '' '' (map sd_param kvs))"
    using set_params [of kvs] key_chars by (fastforce simp: list_all_iff)
  then show ?thesis by (simp add: rest_of_line_def sd_element_def)
qed

lemma message_tail_end: "BRACKET \<notin> set s \<Longrightarrow> message_tail (s @ [BRACKET]) = []"
  by (induction s) auto

lemma sd_element_no_message:
  assumes "list_all (\<lambda>kv. is_key (fst kv) \<and> BRACKET \<notin> set (snd kv)) kvs"
  shows "(if prefix ''-'' (sd_element kvs) then dropWhile is_space (tl (sd_element kvs)) else message_tail (sd_element kvs)) = []"
proof (cases "kvs = []")
  case False
  from assms have "BRACKET \<notin> set (join '' '' (map sd_param kvs))"
    using set_params [of kvs] key_chars by (fastforce simp: list_all_iff)
  then have "message_tail (''[relay@55555 '' @ join '' '' (map sd_param kvs) @ [BRACKET]) = []"
    using message_tail_end [of "''[relay@55555 '' @ join '' '' (map sd_param kvs)"] by simp
  with False show ?thesis by (simp add: sd_element_def)
qed (simp add: sd_element_def)

lemma strip_ends: "s \<noteq> [] \<Longrightarrow> \<not> is_space (hd s) \<Longrightarrow> \<not> is_space (last s) \<Longrightarrow> strip s = s"
  by (cases s) (auto simp: strip_def rstrip_by_id)

lemma parse_formatted:
  fixes severity :: nat
  assumes ts: "is_token ts" and iso: "from_iso ts = Some t"
    and host: "is_token host" "host \<noteq> ''-''" and app: "is_token service" "service \<noteq> ''-''"
    and ev: "is_token event_type" "event_type \<notin> {''-'', ''command''}"
    and keys: "list_all (\<lambda>kv. is_key (fst kv) \<and> NEWLINE \<notin> set (snd kv)) kvs" and "distinct (map fst kvs)"
  defines "sd \<equiv> sd_element kvs"
  defines "msg \<equiv> (if prefix ''-'' sd then dropWhile is_space (tl sd) else message_tail sd)"
  defines "line \<equiv> format_rfc5424 service host event_type severity ts None kvs"
  defines "read \<equiv> takeWhile (\<lambda>kv. BRACKET \<notin> set (snd kv)) kvs"
  shows "parse_line from_iso msg_ip line =
    Some \<lparr>le_timestamp = t, le_decky = take 255 host, le_service = take 48 service, le_event_type = take 32 event_type,
      le_attacker_ip = extract_attacker_ip msg_ip read msg, le_fields = read, le_raw = line,
      le_mutation = (take 48 service = ''mutator'' \<and> take 32 event_type = ''decky_mutated'')\<rparr>"
proof -
  have line: "line = pri severity @ ''1 '' @ ts @ '' '' @ take 255 host @ '' '' @ take 48 service @ '' - '' @
      take 32 event_type @ '' '' @ sd"
    by (simp add: line_def format_rfc5424_def truncate_to_or_nil host app ev sd_def)
  have "match_rfc5424 line = Some (ts, take 255 host, take 48 service, take 32 event_type, sd)"
    unfolding line sd_def
    by (rule match_formatted) (simp_all add: ts host app ev token_take sd_element_one_line [OF keys])
  moreover have "strip line = line"
  proof (rule strip_ends)
    show "\<not> is_space (hd line)" by (simp add: line pri_def is_space_def)
    have "sd \<noteq> []" "\<not> is_space (last sd)" by (simp_all add: sd_def sd_element_def is_space_def)
    then show "\<not> is_space (last line)" by (simp add: line)
  qed (simp add: line)
  moreover have "line \<noteq> []" by (simp add: line)
  moreover have "take 32 event_type \<noteq> ''-''" "take 32 event_type \<noteq> ''command''" "take 255 host \<noteq> ''-''" "take 48 service \<noteq> ''-''"
    using host app ev by (simp_all add: take_short_iff)
  moreover have "parse_sd_params sd = read"
    unfolding sd_def read_def using keys assms by (intro parse_sd_element) (simp_all add: list_all_iff)
  ultimately show ?thesis
    using iso by (simp add: parse_line_def command_fields_def msg_def Let_def)
qed

text \<open>
  C34.  A log line that \<open>format_rfc5424\<close> writes without a message is read back by \<open>parse_line\<close>, whatever
  the severity and whatever quotes, backslashes and equals signs the values contain: the timestamp,
  the decky, the service and the event type come back (cut to the lengths of RFC 5424).  The fields come back
  in order and unchanged up to the first value that contains a closing bracket; that field and the
  ones after it are lost, because the search for the structured-data block stops at the escaped bracket.
  With no such value all fields come back and the attacker address is the first address field.
\<close>

theorem formatted_line_is_read_back:
  assumes "is_token ts" and "from_iso ts = Some t"
    and "is_token host" and "host \<noteq> ''-''" and "is_token service" and "service \<noteq> ''-''"
    and "is_token event_type" and "event_type \<notin> {''-'', ''command''}"
    and "list_all (\<lambda>kv. is_key (fst kv) \<and> NEWLINE \<notin> set (snd kv)) kvs" and "distinct (map fst kvs)"
  shows "\<exists>e. parse_line from_iso msg_ip (format_rfc5424 service host event_type severity ts None kvs) = Some e \<and>
    le_timestamp e = t \<and> le_decky e = take 255 host \<and> le_service e = take 48 service \<and> le_event_type e = take 32 event_type \<and>
    le_fields e = takeWhile (\<lambda>kv. BRACKET \<notin> set (snd kv)) kvs \<and>
    (list_all (\<lambda>kv. BRACKET \<notin> set (snd kv)) kvs \<longrightarrow>
       le_fields e = kvs \<and> le_attacker_ip e = find (\<lambda>f. f \<in> fst ` set kvs) IP_FIELDS \<bind> map_of kvs)"
proof -
  let ?sd = "sd_element kvs"
  have "list_all (\<lambda>kv. BRACKET \<notin> set (snd kv)) kvs \<Longrightarrow>
      takeWhile (\<lambda>kv. BRACKET \<notin> set (snd kv)) kvs = kvs \<and>
      (if prefix ''-'' ?sd then dropWhile is_space (tl ?sd) else message_tail ?sd) = []"
    using assms(9) sd_element_no_message [of kvs] by (simp add: list_all_iff)
  moreover have "extract_attacker_ip msg_ip kvs [] = find (\<lambda>f. f \<in> fst ` set kvs) IP_FIELDS \<bind> map_of kvs"
    by (simp add: extract_attacker_ip_def split: option.split)
  ultimately show ?thesis
    unfolding parse_formatted [of ts from_iso t host service event_type kvs, OF assms] by (simp del: takeWhile_eq_all_conv)
qed

theorem formatted_line_is_read_back_witness:
  "\<exists>e. parse_line (\<lambda>ts. if ts = ''2026-01-01T00:00:00'' then Some (0::nat) else None) (\<lambda>m. None)
       (format_rfc5424 ''http'' ''web01'' ''request'' 6 ''2026-01-01T00:00:00'' None
          [(''src_ip'', ''10.0.0.9''), (''path'', ''a=\"b'' @ [BACKSLASH]), (''ua'', ''x] y''), (''z'', ''1'')]) = Some e \<and>
     le_decky e = ''web01'' \<and> le_event_type e = ''request'' \<and>
     le_fields e = [(''src_ip'', ''10.0.0.9''), (''path'', ''a=\"b'' @ [BACKSLASH])]"
  using formatted_line_is_read_back [of "''2026-01-01T00:00:00''"
      "\<lambda>ts. if ts = ''2026-01-01T00:00:00'' then Some (0::nat) else None" 0 "''web01''" "''http''" "''request''"
      "[(''src_ip'', ''10.0.0.9''), (''path'', ''a=\"b'' @ [BACKSLASH]), (''ua'', ''x] y''), (''z'', ''1'')]" "\<lambda>m. None" 6]
  by (auto simp: is_token_def is_key_def is_word_def is_space_def)

end
