(* ===== verification/Correlation.thy ===== *)
theory Correlation
  imports Syslog "HOL-Library.Multiset"
begin

text \<open>
  The correlation engine: the traversal types of \<open>decnet/correlation/graph.py\<close>, the engine of
  \<open>decnet/correlation/engine.py\<close> that indexes parsed log lines by attacker and by decky, and the log
  line by which the mutator reports a change (\<open>decnet/mutator/events.py\<close>).  Time stamps are instants
  of an arbitrary linear order; their text and their differences are arguments where the code
  prints them.  A Python set is iterated in an order of its own: the argument \<open>iter\<close>.
\<close>

section \<open>Traversals\<close>

record 'ts traversal_hop =
  hop_timestamp :: 'ts
  hop_decky :: string
  hop_service :: string
  hop_event_type :: string

record 'ts mutation_marker =
  mk_timestamp :: 'ts
  mk_decky :: string
  mk_old_services :: "string list"
  mk_new_services :: "string list"
  mk_trigger :: string

record 'ts attacker_traversal =
  tr_attacker_ip :: string
  tr_hops :: "'ts traversal_hop list"
  tr_mutations :: "'ts mutation_marker list"

definition first_seen :: "'ts attacker_traversal \<Rightarrow> 'ts" where
  "first_seen t = hop_timestamp (hd (tr_hops t))"

definition last_seen :: "'ts attacker_traversal \<Rightarrow> 'ts" where
  "last_seen t = hop_timestamp (last (tr_hops t))"

definition traversal_deckies :: "'ts attacker_traversal \<Rightarrow> string list" where
  "traversal_deckies t = fold (\<lambda>hop seen. if hop_decky hop \<notin> set seen then seen @ [hop_decky hop] else seen) (tr_hops t) []"

definition decky_count :: "'ts attacker_traversal \<Rightarrow> nat" where
  "decky_count t = card (hop_decky ` set (tr_hops t))"

datatype 'ts timeline_entry = HopEntry "'ts traversal_hop" | MutationEntry "'ts mutation_marker"

definition timeline :: "('ts :: linorder) attacker_traversal \<Rightarrow> 'ts timeline_entry list" where
  "timeline t = map snd (sort_key fst
     (map (\<lambda>h. (hop_timestamp h, HopEntry h)) (tr_hops t) @ map (\<lambda>m. (mk_timestamp m, MutationEntry m)) (tr_mutations t)))"

section \<open>The engine\<close>

record 'ts correlation_engine =
  ce_events :: "(string, 'ts log_event list) dict"
  ce_mutations :: "(string, 'ts log_event list) dict"
  ce_lines_parsed :: nat
  ce_events_indexed :: nat
  ce_mutations_indexed :: nat
  ce_published :: "'ts log_event list"

definition engine_init :: "'ts correlation_engine" where
  "engine_init = \<lparr>ce_events = [], ce_mutations = [], ce_lines_parsed = 0, ce_events_indexed = 0,
     ce_mutations_indexed = 0, ce_published = []\<rparr>"

text \<open>\<open>defaultdict(list)\<close>: reading a key, and appending under it.\<close>

definition entries :: "(string, 'a list) dict \<Rightarrow> string \<Rightarrow> 'a list" where
  "entries d k = (case map_of d k of None \<Rightarrow> [] | Some xs \<Rightarrow> xs)"

definition append_entry :: "string \<Rightarrow> 'a \<Rightarrow> (string, 'a list) dict \<Rightarrow> (string, 'a list) dict" where
  "append_entry k x d = AList.update k (entries d k @ [x]) d"

text \<open>\<open>hook\<close>: whether a publisher was given; \<open>ce_published\<close> are the calls of it.  An exception of the
  publisher is logged and dropped.\<close>

definition ingest :: "(string \<Rightarrow> 'ts option) \<Rightarrow> (string \<Rightarrow> string option) \<Rightarrow> bool \<Rightarrow> string \<Rightarrow> 'ts correlation_engine \<Rightarrow>
    'ts log_event option \<times> 'ts correlation_engine" where
  "ingest from_iso msg_ip hook line eng =
     (let eng = eng\<lparr>ce_lines_parsed := ce_lines_parsed eng + 1\<rparr> in
      case parse_line from_iso msg_ip line of
        None \<Rightarrow> (None, eng)
      | Some e \<Rightarrow>
          if le_mutation e then
            (Some e, eng\<lparr>ce_mutations := append_entry (le_decky e) e (ce_mutations eng),
               ce_mutations_indexed := ce_mutations_indexed eng + 1\<rparr>)
          else case le_attacker_ip e of
            None \<Rightarrow> (Some e, eng)
          | Some ip \<Rightarrow>
              if ip = [] then (Some e, eng)
              else let first_sighting = ip \<notin> fst ` set (ce_events eng);
                       eng = eng\<lparr>ce_events := append_entry ip e (ce_events eng), ce_events_indexed := ce_events_indexed eng + 1\<rparr>
                   in (Some e, if first_sighting \<and> hook then eng\<lparr>ce_published := ce_published eng @ [e]\<rparr> else eng))"

definition ingest_file :: "(string \<Rightarrow> 'ts option) \<Rightarrow> (string \<Rightarrow> string option) \<Rightarrow> bool \<Rightarrow> string list \<Rightarrow> 'ts correlation_engine \<Rightarrow>
    nat \<times> 'ts correlation_engine" where
  "ingest_file from_iso msg_ip hook lines eng =
     (let eng = fold (\<lambda>line eng. snd (ingest from_iso msg_ip hook line eng)) lines eng in (ce_events_indexed eng, eng))"

definition is_internal_decky :: "string \<Rightarrow> bool" where
  "is_internal_decky name \<longleftrightarrow> name \<noteq> [] \<and> prefix ''decnet-'' name"

definition get_field :: "(string, string) dict \<Rightarrow> string \<Rightarrow> string" where
  "get_field flds k = (case map_of flds k of None \<Rightarrow> [] | Some v \<Rightarrow> v)"

definition split_services :: "string \<Rightarrow> string list" where
  "split_services s = filter (\<lambda>p. p \<noteq> []) (split_on CHR '','' s)"

definition marker_from_event :: "'ts log_event \<Rightarrow> 'ts mutation_marker" where
  "marker_from_event e = \<lparr>mk_timestamp = le_timestamp e, mk_decky = le_decky e,
     mk_old_services = split_services (get_field (le_fields e) ''old_services''),
     mk_new_services = split_services (get_field (le_fields e) ''new_services''),
     mk_trigger = get_field (le_fields e) ''trigger''\<rparr>"

definition hop_of :: "'ts log_event \<Rightarrow> 'ts traversal_hop" where
  "hop_of e = \<lparr>hop_timestamp = le_timestamp e, hop_decky = le_decky e, hop_service = le_service e, hop_event_type = le_event_type e\<rparr>"

definition traversal_of :: "(string list \<Rightarrow> string list) \<Rightarrow> int \<Rightarrow> (string, ('ts :: linorder) log_event list) dict \<Rightarrow> string \<Rightarrow>
    'ts log_event list \<Rightarrow> 'ts attacker_traversal option result" where
  "traversal_of iter min_deckies mutations ip events =
     (let decoy_events = filter (\<lambda>e. \<not> is_internal_decky (le_decky e)) events in
      if int (card (le_decky ` set decoy_events)) < min_deckies then Inr None
      else let hops = sort_key hop_timestamp (map hop_of decoy_events) in
        if hops = [] then Inl IndexError
        else let first_ts = hop_timestamp (hd hops); last_ts = hop_timestamp (last hops);
                 markers = concat (map (\<lambda>decky. map marker_from_event
                   (filter (\<lambda>mev. first_ts \<le> le_timestamp mev \<and> le_timestamp mev \<le> last_ts) (entries mutations decky)))
                   (iter (map hop_decky hops)))
             in Inr (Some \<lparr>tr_attacker_ip = ip, tr_hops = hops, tr_mutations = sort_key mk_timestamp markers\<rparr>))"

fun collect_traversals :: "(string list \<Rightarrow> string list) \<Rightarrow> int \<Rightarrow> (string, ('ts :: linorder) log_event list) dict \<Rightarrow>
    (string, 'ts log_event list) dict \<Rightarrow> 'ts attacker_traversal list result" where
  "collect_traversals iter min_deckies mutations [] = Inr []"
| "collect_traversals iter min_deckies mutations ((ip, events) # rest) =
     bindE (traversal_of iter min_deckies mutations ip events) (\<lambda>t.
     bindE (collect_traversals iter min_deckies mutations rest) (\<lambda>ts.
     Inr (case t of None \<Rightarrow> ts | Some t \<Rightarrow> t # ts)))"

definition traversals :: "(string list \<Rightarrow> string list) \<Rightarrow> int \<Rightarrow> ('ts :: linorder) correlation_engine \<Rightarrow> 'ts attacker_traversal list result" where
  "traversals iter min_deckies eng =
     bindE (collect_traversals iter min_deckies (ce_mutations eng) (ce_events eng)) (\<lambda>result.
     Inr (sort_key first_seen result))"

definition all_attackers :: "'ts correlation_engine \<Rightarrow> (string, nat) dict" where
  "all_attackers eng = sort_key (\<lambda>kv. - int (snd kv)) (map (\<lambda>(ip, evts). (ip, length evts)) (ce_events eng))"

text \<open>The findings as log lines; \<open>to_iso\<close> prints an instant, \<open>secs\<close> is the whole seconds between two.\<close>

definition traversal_syslog_lines :: "(string list \<Rightarrow> string list) \<Rightarrow> ('ts \<Rightarrow> string) \<Rightarrow> ('ts \<Rightarrow> 'ts \<Rightarrow> nat) \<Rightarrow> string \<Rightarrow> int \<Rightarrow>
    ('ts :: linorder) correlation_engine \<Rightarrow> string list result" where
  "traversal_syslog_lines iter to_iso secs now min_deckies eng =
     bindE (traversals iter min_deckies eng) (\<lambda>ts.
     Inr (map (\<lambda>t. format_rfc5424 ''correlator'' ''decnet-correlator'' ''traversal_detected'' 4 now None
       [(''attacker_ip'', tr_attacker_ip t), (''decky_count'', nat_str (decky_count t)),
        (''deckies'', join '','' (traversal_deckies t)), (''first_seen'', to_iso (first_seen t)), (''last_seen'', to_iso (last_seen t)),
        (''hop_count'', nat_str (length (tr_hops t))), (''duration_s'', nat_str (secs (first_seen t) (last_seen t)))]) ts))"

section \<open>The mutator's log line\<close>

definition mutation_fields :: "string \<Rightarrow> string list \<Rightarrow> string list \<Rightarrow> string \<Rightarrow> string option \<Rightarrow> (string, string) dict" where
  "mutation_fields decky old_services new_services trigger actor =
     [(''decky'', decky), (''old_services'', join '','' old_services), (''new_services'', join '','' new_services), (''trigger'', trigger)] @
     (case actor of None \<Rightarrow> [] | Some a \<Rightarrow> if a = [] then [] else [(''actor'', a)])"

definition mutation_line :: "string \<Rightarrow> string \<Rightarrow> string list \<Rightarrow> string list \<Rightarrow> string \<Rightarrow> string option \<Rightarrow> string" where
  "mutation_line now decky old_services new_services trigger actor =
     format_rfc5424 ''mutator'' decky ''decky_mutated'' 6 now None (mutation_fields decky old_services new_services trigger actor)"

section \<open>What is indexed\<close>

definition parsed :: "(string \<Rightarrow> 'ts option) \<Rightarrow> (string \<Rightarrow> string option) \<Rightarrow> string list \<Rightarrow> 'ts log_event list" where
  "parsed from_iso msg_ip lines = List.map_filter (parse_line from_iso msg_ip) lines"

definition sightings :: "'ts log_event list \<Rightarrow> string \<Rightarrow> 'ts log_event list" where
  "sightings evs ip = filter (\<lambda>e. \<not> le_mutation e \<and> le_attacker_ip e = Some ip \<and> ip \<noteq> []) evs"

definition mutations_of :: "'ts log_event list \<Rightarrow> string \<Rightarrow> 'ts log_event list" where
  "mutations_of evs decky = filter (\<lambda>e. le_mutation e \<and> le_decky e = decky) evs"

text \<open>An index holds, under each key, a list that is not empty.\<close>

definition index_of :: "(string, 'a list) dict \<Rightarrow> (string \<Rightarrow> 'a list) \<Rightarrow> bool" where
  "index_of d f \<longleftrightarrow> distinct (map fst d) \<and> (\<forall>k xs. (k, xs) \<in> set d \<longrightarrow> xs = f k \<and> xs \<noteq> []) \<and> (\<forall>k. f k \<noteq> [] \<longrightarrow> k \<in> fst ` set d)"

lemma index_of_entries: "index_of d f \<Longrightarrow> entries d k = f k"
proof (cases "map_of d k")
  case None
  assume "index_of d f"
  with None have "f k = []" by (auto simp: index_of_def map_of_eq_None_iff)
  with None show ?thesis by (simp add: entries_def)
next
  case (Some xs)
  assume "index_of d f"
  with map_of_SomeD [OF Some] Some show ?thesis by (auto simp: entries_def index_of_def)
qed

lemma index_of_append:
  assumes "index_of d f"
  shows "index_of (append_entry k x d) (f(k := f k @ [x]))"
proof -
  have set: "set (AList.update k v d) = {p \<in> set d. fst p \<noteq> k} \<union> {(k, v)}" if "distinct (map fst d)" for v and d :: "(string \<times> 'a list) list"
    using that by (induction d) (auto, force+)
  from assms have "distinct (map fst d)" by (simp add: index_of_def)
  note set = set [OF this]
  have "distinct (map fst (append_entry k x d))"
    using assms by (simp add: append_entry_def index_of_def distinct_update)
  moreover have "\<forall>j xs. (j, xs) \<in> set (append_entry k x d) \<longrightarrow> xs = (f(k := f k @ [x])) j \<and> xs \<noteq> []"
    using assms by (auto simp: append_entry_def set index_of_entries [OF assms]) (auto simp: index_of_def)
  moreover have "\<forall>j. (f(k := f k @ [x])) j \<noteq> [] \<longrightarrow> j \<in> fst ` set (append_entry k x d)"
    using assms by (force simp: append_entry_def set index_of_def)
  ultimately show ?thesis unfolding index_of_def by blast
qed

definition engine_reads :: "'ts log_event list \<Rightarrow> 'ts correlation_engine \<Rightarrow> bool" where
  "engine_reads evs eng \<longleftrightarrow> index_of (ce_events eng) (sightings evs) \<and> index_of (ce_mutations eng) (mutations_of evs)"

lemma index_of_cong: "index_of d f \<Longrightarrow> (\<And>k. g k = f k) \<Longrightarrow> index_of d g"
  by (simp add: index_of_def)

lemma engine_reads_init: "engine_reads [] engine_init"
  by (simp add: engine_reads_def engine_init_def index_of_def sightings_def mutations_of_def)

lemma ingest_reads:
  assumes "engine_reads (parsed from_iso msg_ip lines) eng"
  shows "engine_reads (parsed from_iso msg_ip (lines @ [line])) (snd (ingest from_iso msg_ip hook line eng))"
proof -
  define evs where "evs = parsed from_iso msg_ip lines"
  from assms have idx: "index_of (ce_events eng) (sightings evs)" "index_of (ce_mutations eng) (mutations_of evs)"
    by (simp_all add: engine_reads_def evs_def)
  have snoc: "parsed from_iso msg_ip (lines @ [line]) =
      evs @ (case parse_line from_iso msg_ip line of None \<Rightarrow> [] | Some e \<Rightarrow> [e])"
    by (simp add: parsed_def evs_def map_filter_def split: option.split)
  show ?thesis
  proof (cases "parse_line from_iso msg_ip line")
    case None
    with idx show ?thesis by (simp add: snoc ingest_def engine_reads_def)
  next
    case (Some e)
    have s: "sightings (evs @ [e]) k = (if \<not> le_mutation e \<and> le_attacker_ip e = Some k \<and> k \<noteq> [] then sightings evs k @ [e] else sightings evs k)"
      and m: "mutations_of (evs @ [e]) k = (if le_mutation e \<and> le_decky e = k then mutations_of evs k @ [e] else mutations_of evs k)" for k
      by (simp_all add: sightings_def mutations_of_def)
    show ?thesis
    proof (cases "le_mutation e")
      case True
      have "index_of (ce_events eng) (sightings (evs @ [e]))" by (rule index_of_cong [OF idx(1)]) (simp add: s True)
      moreover have "index_of (append_entry (le_decky e) e (ce_mutations eng)) (mutations_of (evs @ [e]))"
        by (rule index_of_cong [OF index_of_append [OF idx(2)]]) (simp add: m True)
      ultimately show ?thesis using Some True by (simp add: snoc ingest_def engine_reads_def)
    next
      case False
      have mut: "index_of (ce_mutations eng) (mutations_of (evs @ [e]))" by (rule index_of_cong [OF idx(2)]) (simp add: m False)
      show ?thesis
      proof (cases "\<exists>ip. le_attacker_ip e = Some ip \<and> ip \<noteq> []")
        case True
        then obtain ip where ip: "le_attacker_ip e = Some ip" "ip \<noteq> []" by blast
        have "index_of (append_entry ip e (ce_events eng)) (sightings (evs @ [e]))"
          by (rule index_of_cong [OF index_of_append [OF idx(1)]]) (simp add: s False ip)
        with Some False ip mut show ?thesis by (simp add: snoc ingest_def engine_reads_def Let_def)
      next
        case no: False
        have "index_of (ce_events eng) (sightings (evs @ [e]))" by (rule index_of_cong [OF idx(1)]) (use s no in auto)
        with Some False no mut show ?thesis by (auto simp: snoc ingest_def engine_reads_def Let_def split: option.split)
      qed
    qed
  qed
qed

lemma ingest_file_reads:
  "engine_reads (parsed from_iso msg_ip lines) (snd (ingest_file from_iso msg_ip hook lines engine_init))"
proof -
  have "engine_reads (parsed from_iso msg_ip lines) (fold (\<lambda>line eng. snd (ingest from_iso msg_ip hook line eng)) lines engine_init)"
  proof (induction lines rule: rev_induct)
    case Nil
    show ?case using engine_reads_init by (simp add: parsed_def map_filter_simps)
  next
    case (snoc line lines)
    from ingest_reads [OF this] show ?case by simp
  qed
  then show ?thesis by (simp add: ingest_file_def Let_def)
qed

section \<open>Traversals are exact\<close>

definition contacts :: "'ts log_event list \<Rightarrow> string \<Rightarrow> 'ts log_event list" where
  "contacts evs ip = filter (\<lambda>e. \<not> is_internal_decky (le_decky e)) (sightings evs ip)"

definition mutations_during :: "('ts :: linorder) log_event list \<Rightarrow> 'ts traversal_hop list \<Rightarrow> 'ts log_event list" where
  "mutations_during evs hops = filter (\<lambda>m. le_mutation m \<and> le_decky m \<in> hop_decky ` set hops \<and>
     hop_timestamp (hd hops) \<le> le_timestamp m \<and> le_timestamp m \<le> hop_timestamp (last hops)) evs"

definition traversal_spec :: "('ts :: linorder) log_event list \<Rightarrow> 'ts attacker_traversal \<Rightarrow> bool" where
  "traversal_spec evs t \<longleftrightarrow>
     tr_hops t = sort_key hop_timestamp (map hop_of (contacts evs (tr_attacker_ip t))) \<and>
     sorted (map mk_timestamp (tr_mutations t)) \<and>
     mset (tr_mutations t) = mset (map marker_from_event (mutations_during evs (tr_hops t)))"

lemma mset_concat_partition:
  "distinct ds \<Longrightarrow> mset (concat (map (\<lambda>d. filter (\<lambda>m. R m \<and> key m = d \<and> Q m) xs) ds)) =
     mset (filter (\<lambda>m. R m \<and> key m \<in> set ds \<and> Q m) xs)"
proof (induction ds)
  case (Cons d ds)
  have "mset (filter (\<lambda>m. R m \<and> key m \<in> set (d # ds) \<and> Q m) xs) =
      mset (filter (\<lambda>m. R m \<and> key m = d \<and> Q m) xs) + mset (filter (\<lambda>m. R m \<and> key m \<in> set ds \<and> Q m) xs)"
    using Cons.prems by (induction xs) auto
  with Cons show ?case by simp
qed simp

lemma traversal_of_spec:
  assumes idx: "index_of muts (mutations_of evs)" and iter: "\<And>ds. distinct (iter ds) \<and> set (iter ds) = set ds" and "1 \<le> n"
  shows "\<exists>t. traversal_of iter n muts ip (sightings evs ip) = Inr t \<and>
    (case t of None \<Rightarrow> int (card (le_decky ` set (contacts evs ip))) < n
     | Some t \<Rightarrow> n \<le> int (card (le_decky ` set (contacts evs ip))) \<and> tr_attacker_ip t = ip \<and> traversal_spec evs t)"
proof (cases "int (card (le_decky ` set (contacts evs ip))) < n")
  case True
  then show ?thesis by (simp add: traversal_of_def contacts_def)
next
  case False
  define hops where "hops = sort_key hop_timestamp (map hop_of (contacts evs ip))"
  from False \<open>1 \<le> n\<close> have "contacts evs ip \<noteq> []" by auto
  moreover have "set hops = hop_of ` set (contacts evs ip)" by (simp add: hops_def)
  ultimately have "hops \<noteq> []" by auto
  define markers where "markers = concat (map (\<lambda>decky. map marker_from_event
      (filter (\<lambda>mev. hop_timestamp (hd hops) \<le> le_timestamp mev \<and> le_timestamp mev \<le> hop_timestamp (last hops)) (entries muts decky)))
      (iter (map hop_decky hops)))"
  have "markers = map marker_from_event (concat (map (\<lambda>decky.
      filter (\<lambda>mev. hop_timestamp (hd hops) \<le> le_timestamp mev \<and> le_timestamp mev \<le> hop_timestamp (last hops)) (mutations_of evs decky))
      (iter (map hop_decky hops))))"
    by (simp add: markers_def index_of_entries [OF idx] map_concat comp_def)
  then have "mset markers = mset (map marker_from_event (mutations_during evs hops))"
    using mset_concat_partition [of "iter (map hop_decky hops)" le_mutation le_decky _ evs] iter [of "map hop_decky hops"]
    by (simp add: mutations_of_def mutations_during_def)
  moreover have "traversal_of iter n muts ip (sightings evs ip) =
      Inr (Some \<lparr>tr_attacker_ip = ip, tr_hops = hops, tr_mutations = sort_key mk_timestamp markers\<rparr>)"
    using False \<open>hops \<noteq> []\<close> by (simp add: traversal_of_def contacts_def [symmetric] hops_def [symmetric] markers_def [symmetric] Let_def)
  ultimately show ?thesis using False by (simp add: traversal_spec_def hops_def)
qed

lemma collect_spec:
  assumes "index_of muts (mutations_of evs)" "\<And>ds. distinct (iter ds) \<and> set (iter ds) = set ds" "1 \<le> n"
    and "\<And>ip es. (ip, es) \<in> set d \<Longrightarrow> es = sightings evs ip"
  shows "\<exists>ts. collect_traversals iter n muts d = Inr ts \<and>
    map tr_attacker_ip ts = filter (\<lambda>ip. n \<le> int (card (le_decky ` set (contacts evs ip)))) (map fst d) \<and> list_all (traversal_spec evs) ts"
  using assms(4)
proof (induction d)
  case (Cons p d)
  obtain ip es where p: "p = (ip, es)" by fastforce
  with Cons obtain ts where ts: "collect_traversals iter n muts d = Inr ts"
    "map tr_attacker_ip ts = filter (\<lambda>ip. n \<le> int (card (le_decky ` set (contacts evs ip)))) (map fst d)" "list_all (traversal_spec evs) ts"
    by auto
  from p Cons.prems have "es = sightings evs ip" by simp
  with traversal_of_spec [OF assms(1-3), of ip] obtain t where t: "traversal_of iter n muts ip es = Inr t"
    "case t of None \<Rightarrow> int (card (le_decky ` set (contacts evs ip))) < n
     | Some t \<Rightarrow> n \<le> int (card (le_decky ` set (contacts evs ip))) \<and> tr_attacker_ip t = ip \<and> traversal_spec evs t" by blast
  with ts p show ?case by (cases t) auto
qed simp

lemma traversals_spec:
  assumes "engine_reads evs eng" "\<And>ds. distinct (iter ds) \<and> set (iter ds) = set ds" "1 \<le> n"
  shows "\<exists>ts. traversals iter n eng = Inr ts \<and> distinct (map tr_attacker_ip ts) \<and> sorted (map first_seen ts) \<and>
    set (map tr_attacker_ip ts) = {ip. n \<le> int (card (le_decky ` set (contacts evs ip)))} \<and> list_all (traversal_spec evs) ts"
proof -
  from assms(1) have idx: "index_of (ce_events eng) (sightings evs)" "index_of (ce_mutations eng) (mutations_of evs)"
    by (simp_all add: engine_reads_def)
  then have "\<And>ip es. (ip, es) \<in> set (ce_events eng) \<Longrightarrow> es = sightings evs ip" by (auto simp: index_of_def)
  from collect_spec [OF idx(2) assms(2,3) this] obtain ts where
    ts: "collect_traversals iter n (ce_mutations eng) (ce_events eng) = Inr ts"
    "map tr_attacker_ip ts = filter (\<lambda>ip. n \<le> int (card (le_decky ` set (contacts evs ip)))) (map fst (ce_events eng))"
    "list_all (traversal_spec evs) ts" by blast
  let ?ts = "sort_key first_seen ts"
  have "distinct (map tr_attacker_ip ts)" using idx(1) by (simp add: ts(2) index_of_def)
  then have "distinct (map tr_attacker_ip ?ts)" by (simp add: distinct_map)
  moreover have "ip \<in> fst ` set (ce_events eng)" if "n \<le> int (card (le_decky ` set (contacts evs ip)))" for ip
  proof -
    from that assms(3) have "sightings evs ip \<noteq> []" by (auto simp: contacts_def)
    with idx(1) show ?thesis by (auto simp: index_of_def)
  qed
  moreover have "set (map tr_attacker_ip ?ts) = set (map tr_attacker_ip ts)" by simp
  ultimately show ?thesis using ts by (auto simp: traversals_def list_all_iff)
qed

text \<open>C35. Whatever lines the engine has read, asking for traversals of at least \<open>n \<ge> 1\<close> deckies returns, in
  order of the first contact, one traversal for each attacker address whose events touch at
  least \<open>n\<close> decoys (workers of the system itself do not count) and for no other address.  Its hops are all of these events in
  chronological order (events of one instant as they were read), and its markers are, in order of time, exactly
  the changes of touched deckies between the first and the last hop.  The order in which sets are iterated
  does not matter.\<close>

theorem traversals_are_exact:
  assumes "1 \<le> n" and "\<And>ds. distinct (iter ds) \<and> set (iter ds) = set ds"
  shows "\<exists>ts. traversals iter n (snd (ingest_file from_iso msg_ip hook lines engine_init)) = Inr ts \<and>
    distinct (map tr_attacker_ip ts) \<and> sorted (map first_seen ts) \<and>
    (let evs = parsed from_iso msg_ip lines in
     set (map tr_attacker_ip ts) = {ip. n \<le> int (card (le_decky ` set (contacts evs ip)))} \<and>
     list_all (traversal_spec evs) ts)"
  using traversals_spec [OF ingest_file_reads assms(2,1)] unfolding Let_def by blast

definition demo_lines :: "string list" where
  "demo_lines = [''<134>1 a web01 http - request [relay@55555 src_ip=\"10.0.0.9\"]'', ''<134>1 ab db01 ssh - login [relay@55555 src_ip=\"10.0.0.9\"]'']"

lemma demo_parsed:
  "map (\<lambda>e. (le_decky e, le_attacker_ip e, le_mutation e)) (parsed (\<lambda>s. Some (length s)) (\<lambda>_. None) demo_lines) =
     [(''web01'', Some ''10.0.0.9'', False), (''db01'', Some ''10.0.0.9'', False)]"
  by code_simp

theorem traversals_are_exact_witness:
  "\<exists>ts. traversals remdups 2 (snd (ingest_file (\<lambda>s. Some (length s)) (\<lambda>_. None) True demo_lines engine_init)) = Inr ts \<and>
     ''10.0.0.9'' \<in> tr_attacker_ip ` set ts"
proof -
  obtain a b where evs: "parsed (\<lambda>s. Some (length s)) (\<lambda>_. None) demo_lines = [a, b]"
    and ab: "le_decky a = ''web01''" "le_attacker_ip a = Some ''10.0.0.9''" "\<not> le_mutation a"
      "le_decky b = ''db01''" "le_attacker_ip b = Some ''10.0.0.9''" "\<not> le_mutation b"
    using demo_parsed by (auto simp: map_eq_Cons_conv)
  have "contacts [a, b] ''10.0.0.9'' = [a, b]" using ab by (simp add: contacts_def sightings_def is_internal_decky_def)
  then have "2 \<le> int (card (le_decky ` set (contacts [a, b] ''10.0.0.9'')))" using ab by simp
  then show ?thesis
    using traversals_are_exact [of 2 remdups "\<lambda>s. Some (length s)" "\<lambda>_. None" True demo_lines] by (force simp: evs Let_def)
qed

section \<open>A change of a decky reaches the engine\<close>

lemma strip_snoc: "is_space c \<Longrightarrow> strip (s @ [c]) = strip s"
proof (cases "\<forall>x \<in> set s. is_space x")
  case True
  moreover assume "is_space c"
  ultimately have "dropWhile is_space (s @ [c]) = []" "dropWhile is_space s = []" by simp_all
  then show ?thesis by (simp only: strip_def)
qed (auto simp: strip_def dropWhile_append rstrip_by_snoc)

lemma parse_line_newline: "parse_line from_iso msg_ip (s @ [NEWLINE]) = parse_line from_iso msg_ip s"
  by (simp add: parse_line_def strip_snoc is_space_def)

definition plain :: "string \<Rightarrow> bool" where
  "plain s \<longleftrightarrow> BRACKET \<notin> set s \<and> NEWLINE \<notin> set s"

definition service_ok :: "string \<Rightarrow> bool" where
  "service_ok s \<longleftrightarrow> s \<noteq> [] \<and> CHR '','' \<notin> set s \<and> plain s"

lemma plain_join: "list_all service_ok ss \<Longrightarrow> plain (join '','' ss)"
  using set_join [of "'',''" ss] by (auto simp: plain_def service_ok_def list_all_iff)

lemma split_services_join:
  assumes "list_all service_ok ss"
  shows "split_services (join '','' ss) = ss"
proof (cases "ss = []")
  case False
  with assms have "split_on CHR '','' (join '','' ss) = ss" by (intro split_on_join) (auto simp: service_ok_def list_all_iff)
  with assms show ?thesis by (simp add: split_services_def service_ok_def list_all_iff)
qed (simp add: split_services_def)

lemma mutation_fields_ok:
  assumes "plain decky" "list_all service_ok (old @ new)" "plain trigger" "\<And>a. actor = Some a \<Longrightarrow> plain a"
  shows "list_all (\<lambda>kv. is_key (fst kv) \<and> NEWLINE \<notin> set (snd kv)) (mutation_fields decky old new trigger actor)"
    "list_all (\<lambda>kv. BRACKET \<notin> set (snd kv)) (mutation_fields decky old new trigger actor)"
    "distinct (map fst (mutation_fields decky old new trigger actor))"
proof -
  have keys: "is_key ''decky''" "is_key ''old_services''" "is_key ''new_services''" "is_key ''trigger''" "is_key ''actor''"
    by (simp_all add: is_key_def is_word_def)
  have "plain (join '','' old)" "plain (join '','' new)" using assms(2) by (simp_all add: plain_join)
  then show "list_all (\<lambda>kv. is_key (fst kv) \<and> NEWLINE \<notin> set (snd kv)) (mutation_fields decky old new trigger actor)"
    "list_all (\<lambda>kv. BRACKET \<notin> set (snd kv)) (mutation_fields decky old new trigger actor)"
    using assms keys by (auto simp: mutation_fields_def plain_def split: option.split)
  show "distinct (map fst (mutation_fields decky old new trigger actor))" by (cases actor) (auto simp: mutation_fields_def)
qed

lemma mutation_line_read:
  assumes "is_token now" and "from_iso now = Some t" and "is_token decky" and "decky \<noteq> ''-''" and "length decky \<le> 255" and "plain decky"
    and "list_all service_ok (old @ new)" and "plain trigger" and "\<And>a. actor = Some a \<Longrightarrow> plain a"
  obtains e where "parse_line from_iso msg_ip (mutation_line now decky old new trigger actor @ [NEWLINE]) = Some e" "le_mutation e" "le_decky e = decky"
    "marker_from_event e = \<lparr>mk_timestamp = t, mk_decky = decky, mk_old_services = old, mk_new_services = new, mk_trigger = trigger\<rparr>"
proof -
  note ok = mutation_fields_ok [OF assms(6-9)]
  have names: "is_token ''mutator''" "is_token ''decky_mutated''" by (simp_all add: is_token_def is_space_def)
  let ?kvs = "mutation_fields decky old new trigger actor"
  have all: "takeWhile (\<lambda>kv. BRACKET \<notin> set (snd kv)) ?kvs = ?kvs" using ok(2) by (simp add: list_all_iff)
  obtain e where e: "parse_line from_iso msg_ip (mutation_line now decky old new trigger actor) = Some e"
    "le_timestamp e = t" "le_decky e = decky" "le_fields e = ?kvs" "le_mutation e"
    using parse_formatted [of now from_iso t decky "''mutator''" "''decky_mutated''" ?kvs msg_ip 6] assms(1-5) names ok(1,3)
    by (simp add: mutation_line_def all)
  have "marker_from_event e = \<lparr>mk_timestamp = t, mk_decky = decky, mk_old_services = old, mk_new_services = new, mk_trigger = trigger\<rparr>"
    using assms(7) by (simp add: marker_from_event_def e get_field_def mutation_fields_def split_services_join)
  with e that show thesis by (simp add: parse_line_newline)
qed

text \<open>C36. What the mutator writes, the correlation engine reads: the line for a change of a decky is indexed under
  the decky and nowhere else, and its marker has the services before and after and the trigger as they were
  reported, also when there are none.\<close>

theorem mutation_event_is_indexed:
  assumes "is_token now" and "from_iso now = Some t" and "is_token decky" and "decky \<noteq> ''-''" and "length decky \<le> 255" and "plain decky"
    and "list_all service_ok (old @ new)" and "plain trigger" and "\<And>a. actor = Some a \<Longrightarrow> plain a"
  shows "\<exists>e eng'. ingest from_iso msg_ip hook (mutation_line now decky old new trigger actor @ [NEWLINE]) eng = (Some e, eng') \<and>
    ce_events eng' = ce_events eng \<and>
    entries (ce_mutations eng') k = (if k = decky then entries (ce_mutations eng) k @ [e] else entries (ce_mutations eng) k) \<and>
    marker_from_event e = \<lparr>mk_timestamp = t, mk_decky = decky, mk_old_services = old, mk_new_services = new, mk_trigger = trigger\<rparr>"
proof -
  obtain e where e: "parse_line from_iso msg_ip (mutation_line now decky old new trigger actor @ [NEWLINE]) = Some e" "le_mutation e" "le_decky e = decky"
    "marker_from_event e = \<lparr>mk_timestamp = t, mk_decky = decky, mk_old_services = old, mk_new_services = new, mk_trigger = trigger\<rparr>"
    using mutation_line_read [of now from_iso t decky old new trigger actor, OF assms] by blast
  moreover have "entries (append_entry decky e d) k = (if k = decky then entries d k @ [e] else entries d k)" for d
    by (simp add: append_entry_def entries_def update_conv)
  ultimately show ?thesis by (simp add: ingest_def)
qed

theorem mutation_event_is_indexed_witness:
  "\<exists>e eng'. ingest (\<lambda>s. if s = ''now'' then Some (0::nat) else None) (\<lambda>m. None) False
      (mutation_line ''now'' ''web01'' [''ssh'', ''http''] [] ''retirement'' None @ [NEWLINE]) engine_init = (Some e, eng') \<and>
    entries (ce_mutations eng') ''web01'' = [e] \<and> mk_old_services (marker_from_event e) = [''ssh'', ''http'']"
  using mutation_event_is_indexed [of "''now''" "\<lambda>s. if s = ''now'' then Some (0::nat) else None" 0 "''web01''" "[''ssh'', ''http'']" "[]"
      "''retirement''" None "\<lambda>m. None" False engine_init "''web01''"]
  by (auto simp: is_token_def is_space_def plain_def service_ok_def engine_init_def entries_def)

end
