(* ===== verification/Fleet_Reconciler.thy ===== *)
theory Fleet_Reconciler
  imports Bus_Topics Py_Json
begin

text \<open>
  The flat fleet: its table (\<open>decnet/web/db/models/fleet.py\<close>, \<open>decnet/web/db/sqlmodel_repo/fleet.py\<close>) and the
  reconciler that converges the state file, the table and Docker (\<open>decnet/fleet/reconciler.py\<close>).  The
  state file and what Docker lists are arguments; a published event is recorded.
\<close>

section \<open>The table\<close>

text \<open>The settings of a decky in the state file (\<open>DeckyConfig\<close>): the fields the reconciler and the mutator read,
  and the rest as JSON.  Times are in seconds.\<close>

record fleet_config =
  fd_name :: string
  fd_ip :: string
  fd_services :: "string list"
  fd_archetype :: "string option"
  fd_mutate_interval :: "int option"
  fd_last_mutated :: rat
  fd_host_uuid :: "string option"
  fd_rest :: json

record fleet_row =
  fl_host_uuid :: string
  fl_name :: string
  fl_services :: "string list"
  fl_config :: fleet_config
  fl_ip :: string
  fl_state :: string
  fl_last_error :: "string option"
  fl_last_seen :: "nat option"
  fl_updated_at :: nat

definition fl_key :: "fleet_row \<Rightarrow> string \<times> string" where
  "fl_key r = (fl_host_uuid r, fl_name r)"

definition upsert_fleet_decky :: "nat \<Rightarrow> string \<Rightarrow> fleet_config \<Rightarrow> string \<Rightarrow> fleet_row list \<Rightarrow> fleet_row list" where
  "upsert_fleet_decky now host d st rows =
     (if (host, fd_name d) \<in> fl_key ` set rows
      then map (\<lambda>r. if fl_key r = (host, fd_name d)
             then r\<lparr>fl_services := fd_services d, fl_config := d, fl_ip := fd_ip d, fl_state := st, fl_updated_at := now\<rparr> else r) rows
      else rows @ [\<lparr>fl_host_uuid = host, fl_name = fd_name d, fl_services = fd_services d, fl_config = d, fl_ip = fd_ip d,
             fl_state = st, fl_last_error = None, fl_last_seen = None, fl_updated_at = now\<rparr>])"

definition delete_fleet_decky :: "string \<Rightarrow> string \<Rightarrow> fleet_row list \<Rightarrow> fleet_row list" where
  "delete_fleet_decky host name rows = filter (\<lambda>r. fl_key r \<noteq> (host, name)) rows"

definition update_fleet_decky_state :: "nat \<Rightarrow> string \<Rightarrow> string \<Rightarrow> string \<Rightarrow> string option \<Rightarrow> fleet_row list \<Rightarrow> fleet_row list" where
  "update_fleet_decky_state now host name st last_error rows =
     map (\<lambda>r. if fl_key r = (host, name)
       then (let r = r\<lparr>fl_state := st, fl_updated_at := now, fl_last_seen := Some now\<rparr> in
             if last_error \<noteq> None then r\<lparr>fl_last_error := last_error\<rparr> else r) else r) rows"

definition list_fleet_deckies :: "string option \<Rightarrow> fleet_row list \<Rightarrow> fleet_row list" where
  "list_fleet_deckies host rows =
     sort_key fl_name (case host of None \<Rightarrow> rows | Some h \<Rightarrow> if h = [] then rows else filter (\<lambda>r. fl_host_uuid r = h) rows)"

definition list_running_fleet_deckies :: "fleet_row list \<Rightarrow> fleet_row list" where
  "list_running_fleet_deckies rows = filter (\<lambda>r. fl_state r = ''running'') rows"

section \<open>The reconciler\<close>

text \<open>\<open>svc.replace('_', '-')\<close>.\<close>

definition dashed :: "string \<Rightarrow> string" where
  "dashed s = map (\<lambda>c. if c = CHR ''_'' then CHR ''-'' else c) s"

definition aggregate_decky_state :: "string \<Rightarrow> string list \<Rightarrow> (string, string) dict \<Rightarrow> string" where
  "aggregate_decky_state decky_name services container_states =
     (let expected = (\<lambda>svc. decky_name @ ''-'' @ dashed svc) ` set services;
          seen = filter (\<lambda>(n, s). n \<in> expected) container_states;
          statuses = snd ` set seen
      in if seen = [] then ''torn_down''
         else if statuses = {''running''} \<and> length seen = card expected then ''running''
         else if ''running'' \<notin> statuses then ''failed''
         else ''degraded'')"

record state_event =
  se_topic :: string
  se_host_uuid :: string
  se_name :: string
  se_state :: string
  se_transition :: string
  se_previous :: "string option"

record fleet_world =
  fw_rows :: "fleet_row list"
  fw_events :: "state_event list"

record reconcile_counts =
  rc_inserted :: nat
  rc_deleted :: nat
  rc_state_updated :: nat

definition on_fleet :: "(fleet_row list \<Rightarrow> fleet_row list) \<Rightarrow> (unit, fleet_world) op" where
  "on_fleet f w = (Inr (), w\<lparr>fw_rows := f (fw_rows w)\<rparr>)"

text \<open>The topic is built before the guarded publish, so that its exception is raised.\<close>

definition emit_state :: "bool \<Rightarrow> string \<Rightarrow> string \<Rightarrow> string \<Rightarrow> string \<Rightarrow> string option \<Rightarrow> (unit, fleet_world) op" where
  "emit_state bus host name st transition previous w =
     (if \<not> bus then (Inr (), w)
      else case decky_topic (host @ '':'' @ name) ''state'' of
        Inl e \<Rightarrow> (Inl e, w)
      | Inr topic \<Rightarrow> (Inr (), w\<lparr>fw_events := fw_events w @ [\<lparr>se_topic = topic, se_host_uuid = host, se_name = name, se_state = st,
          se_transition = transition, se_previous = previous\<rparr>]\<rparr>))"

definition insert_step :: "nat \<Rightarrow> string \<Rightarrow> (string, string) dict option \<Rightarrow> bool \<Rightarrow> (string, fleet_row) dict \<Rightarrow> fleet_config \<Rightarrow>
    reconcile_counts \<Rightarrow> (reconcile_counts, fleet_world) op" where
  "insert_step now host container_states bus db_by_name d counts =
     (if fd_name d \<in> fst ` set db_by_name then returnS counts
      else let new_state = (case container_states of Some cs \<Rightarrow> aggregate_decky_state (fd_name d) (fd_services d) cs | None \<Rightarrow> ''running'');
               row_host = (case fd_host_uuid d of Some h \<Rightarrow> if h = [] then host else h | None \<Rightarrow> host)
           in bindS (on_fleet (upsert_fleet_decky now row_host d new_state)) (\<lambda>_.
              bindS (emit_state bus row_host (fd_name d) new_state ''inserted'' None) (\<lambda>_.
              returnS (counts\<lparr>rc_inserted := rc_inserted counts + 1\<rparr>))))"

definition delete_step :: "bool \<Rightarrow> string set \<Rightarrow> fleet_row \<Rightarrow> reconcile_counts \<Rightarrow> (reconcile_counts, fleet_world) op" where
  "delete_step bus json_names r counts =
     (if fl_name r \<in> json_names then returnS counts
      else bindS (on_fleet (delete_fleet_decky (fl_host_uuid r) (fl_name r))) (\<lambda>_.
           bindS (emit_state bus (fl_host_uuid r) (fl_name r) ''torn_down'' ''deleted'' None) (\<lambda>_.
           returnS (counts\<lparr>rc_deleted := rc_deleted counts + 1\<rparr>))))"

definition state_step :: "nat \<Rightarrow> (string, string) dict \<Rightarrow> bool \<Rightarrow> (string, fleet_row) dict \<Rightarrow> fleet_config \<Rightarrow>
    reconcile_counts \<Rightarrow> (reconcile_counts, fleet_world) op" where
  "state_step now cs bus db_by_name d counts =
     (case map_of db_by_name (fd_name d) of
        None \<Rightarrow> returnS counts
      | Some existing \<Rightarrow>
          let new_state = aggregate_decky_state (fd_name d) (fd_services d) cs in
          if fl_state existing = new_state then returnS counts
          else bindS (on_fleet (update_fleet_decky_state now (fl_host_uuid existing) (fd_name d) new_state None)) (\<lambda>_.
               bindS (emit_state bus (fl_host_uuid existing) (fd_name d) new_state ''state_changed'' (Some (fl_state existing))) (\<lambda>_.
               returnS (counts\<lparr>rc_state_updated := rc_state_updated counts + 1\<rparr>))))"

definition reconcile_once :: "nat \<Rightarrow> string \<Rightarrow> fleet_config list option \<Rightarrow> (string, string) dict option \<Rightarrow> bool \<Rightarrow>
    (reconcile_counts, fleet_world) op" where
  "reconcile_once now host state container_states bus w =
     (let json_deckies = (case state of Some ds \<Rightarrow> ds | None \<Rightarrow> []);
          db_rows = list_fleet_deckies (Some host) (fw_rows w);
          db_by_name = dict_of fl_name (\<lambda>r. r) db_rows
      in bindS (foldS (insert_step now host container_states bus db_by_name) json_deckies
                 \<lparr>rc_inserted = 0, rc_deleted = 0, rc_state_updated = 0\<rparr>) (\<lambda>counts.
         bindS (foldS (delete_step bus (fd_name ` set json_deckies)) db_rows counts) (\<lambda>counts.
         case container_states of
           None \<Rightarrow> returnS counts
         | Some cs \<Rightarrow> foldS (state_step now cs bus db_by_name) json_deckies counts)) w)"

section \<open>One pass, phase by phase\<close>

definition fleet_wf :: "fleet_row list \<Rightarrow> bool" where
  "fleet_wf rows \<longleftrightarrow> distinct (map fl_key rows)"

definition local_to :: "string \<Rightarrow> fleet_config \<Rightarrow> bool" where
  "local_to host d \<longleftrightarrow> fd_host_uuid d \<in> {None, Some [], Some host}"

definition aggregated :: "(string, string) dict \<Rightarrow> fleet_config \<Rightarrow> string" where
  "aggregated cs d = aggregate_decky_state (fd_name d) (fd_services d) cs"

definition new_row :: "nat \<Rightarrow> string \<Rightarrow> (string, string) dict \<Rightarrow> fleet_config \<Rightarrow> fleet_row" where
  "new_row now host cs d = \<lparr>fl_host_uuid = host, fl_name = fd_name d, fl_services = fd_services d, fl_config = d, fl_ip = fd_ip d,
     fl_state = aggregated cs d, fl_last_error = None, fl_last_seen = None, fl_updated_at = now\<rparr>"

lemma foldS_id: "(\<And>x. x \<in> set xs \<Longrightarrow> f x b s = (Inr b, s)) \<Longrightarrow> foldS f xs b s = (Inr b, s)"
  by (induction xs) (simp_all add: bindS_step)

lemma db_lookup:
  assumes "fleet_wf rows" "host \<noteq> []"
  shows "map_of (dict_of fl_name (\<lambda>r. r) (list_fleet_deckies (Some host) rows)) n = Some r \<longleftrightarrow>
      r \<in> set rows \<and> fl_host_uuid r = host \<and> fl_name r = n"
    and "fst ` set (dict_of fl_name (\<lambda>r. r) (list_fleet_deckies (Some host) rows)) = {fl_name r | r. r \<in> set rows \<and> fl_host_uuid r = host}"
proof -
  let ?db = "list_fleet_deckies (Some host) rows"
  have set: "set ?db = {r \<in> set rows. fl_host_uuid r = host}" using assms(2) by (auto simp: list_fleet_deckies_def)
  have "distinct ?db" using assms by (simp add: list_fleet_deckies_def fleet_wf_def distinct_map)
  moreover have "inj_on fl_name (set ?db)" using assms(1) by (auto simp: set fleet_wf_def distinct_map inj_on_def fl_key_def)
  ultimately have d: "distinct (map fl_name ?db)" by (simp add: distinct_map)
  then have "dict_of fl_name (\<lambda>r. r) ?db = map (\<lambda>r. (fl_name r, r)) ?db" by (rule dict_of_distinct)
  with d set show "map_of (dict_of fl_name (\<lambda>r. r) ?db) n = Some r \<longleftrightarrow> r \<in> set rows \<and> fl_host_uuid r = host \<and> fl_name r = n"
    "fst ` set (dict_of fl_name (\<lambda>r. r) ?db) = {fl_name r | r. r \<in> set rows \<and> fl_host_uuid r = host}"
    by (auto simp: map_of_dict_mem comp_def image_iff)
qed

lemma emit_state_ok:
  assumes "bus \<Longrightarrow> segment_ok (host @ '':'' @ name)"
  shows "\<exists>ev. emit_state bus host name st tr prev w = (Inr (), w\<lparr>fw_events := fw_events w @ ev\<rparr>)"
proof (cases bus)
  case True
  have "segment_ok ''state''" by (simp add: segment_ok_def is_space_def)
  with assms True obtain topic where "decky_topic (host @ '':'' @ name) ''state'' = Inr topic"
    using reject_tokens_ok [of "[host @ '':'' @ name, ''state'']" "()"] by (auto simp: decky_topic_def built_def)
  with True show ?thesis by (auto simp: emit_state_def)
next
  case False
  then have "emit_state bus host name st tr prev w = (Inr (), w\<lparr>fw_events := fw_events w @ []\<rparr>)" by (simp add: emit_state_def)
  then show ?thesis by blast
qed

lemma insert_phase:
  assumes "distinct (map fd_name ds)" "\<And>d. d \<in> set ds \<Longrightarrow> local_to host d"
    and "\<And>d. d \<in> set ds \<Longrightarrow> fd_name d \<notin> fst ` set db \<Longrightarrow> (host, fd_name d) \<notin> fl_key ` set (fw_rows w)"
    and "\<And>d. bus \<Longrightarrow> d \<in> set ds \<Longrightarrow> segment_ok (host @ '':'' @ fd_name d)"
  shows "\<exists>c' w'. foldS (insert_step now host (Some cs) bus db) ds c w = (Inr c', w') \<and>
    fw_rows w' = fw_rows w @ map (new_row now host cs) (filter (\<lambda>d. fd_name d \<notin> fst ` set db) ds)"
  using assms
proof (induction ds arbitrary: c w)
  case (Cons d ds)
  show ?case
  proof (cases "fd_name d \<in> fst ` set db")
    case True
    then have "insert_step now host (Some cs) bus db d c w = (Inr c, w)" by (simp add: insert_step_def)
    with Cons.IH [of w c] Cons.prems True show ?thesis by (auto simp: bindS_step)
  next
    case False
    let ?c1 = "c\<lparr>rc_inserted := rc_inserted c + 1\<rparr>"
    have host: "(case fd_host_uuid d of Some h \<Rightarrow> if h = [] then host else h | None \<Rightarrow> host) = host"
      using Cons.prems(2) [of d] by (auto simp: local_to_def split: option.split)
    have up: "upsert_fleet_decky now host d (aggregated cs d) (fw_rows w) = fw_rows w @ [new_row now host cs d]"
      using Cons.prems(3) [of d] False by (simp add: upsert_fleet_decky_def new_row_def)
    obtain w2 where step: "insert_step now host (Some cs) bus db d c w = (Inr ?c1, w2)" and rows2: "fw_rows w2 = fw_rows w @ [new_row now host cs d]"
      using emit_state_ok [of bus host "fd_name d" "aggregated cs d" "''inserted''" None "w\<lparr>fw_rows := fw_rows w @ [new_row now host cs d]\<rparr>"]
        Cons.prems(4) [of d] False
      by (auto simp: insert_step_def Let_def host bindS_step on_fleet_def aggregated_def [symmetric] up)
    have "\<exists>c' w'. foldS (insert_step now host (Some cs) bus db) ds ?c1 w2 = (Inr c', w') \<and>
        fw_rows w' = fw_rows w2 @ map (new_row now host cs) (filter (\<lambda>d. fd_name d \<notin> fst ` set db) ds)"
    proof (rule Cons.IH)
      show "(host, fd_name d') \<notin> fl_key ` set (fw_rows w2)" if "d' \<in> set ds" "fd_name d' \<notin> fst ` set db" for d'
      proof -
        have "fl_key (new_row now host cs d) = (host, fd_name d)" by (simp add: fl_key_def new_row_def)
        moreover have "fd_name d' \<noteq> fd_name d" using Cons.prems(1) that(1) by (metis distinct.simps(2) image_eqI list.set_map list.simps(9))
        ultimately show ?thesis using Cons.prems(3) [of d'] that by (simp add: rows2)
      qed
    qed (use Cons.prems in auto)
    with step rows2 False show ?thesis by (auto simp: bindS_step)
  qed
qed simp

lemma delete_phase:
  assumes "\<And>r. bus \<Longrightarrow> r \<in> set rs \<Longrightarrow> segment_ok (fl_host_uuid r @ '':'' @ fl_name r)"
  shows "\<exists>c' w'. foldS (delete_step bus names) rs c w = (Inr c', w') \<and>
    fw_rows w' = filter (\<lambda>r. fl_key r \<notin> fl_key ` {r \<in> set rs. fl_name r \<notin> names}) (fw_rows w)"
  using assms
proof (induction rs arbitrary: c w)
  case (Cons r rs)
  show ?case
  proof (cases "fl_name r \<in> names")
    case True
    then have "delete_step bus names r c w = (Inr c, w)" by (simp add: delete_step_def)
    moreover have "{x \<in> set (r # rs). fl_name x \<notin> names} = {x \<in> set rs. fl_name x \<notin> names}" using True by auto
    ultimately show ?thesis using Cons.IH [of c w] Cons.prems by (auto simp: bindS_step)
  next
    case False
    let ?c1 = "c\<lparr>rc_deleted := rc_deleted c + 1\<rparr>" and ?rows = "filter (\<lambda>x. fl_key x \<noteq> fl_key r) (fw_rows w)"
    have del: "delete_fleet_decky (fl_host_uuid r) (fl_name r) (fw_rows w) = ?rows" by (simp add: delete_fleet_decky_def fl_key_def)
    obtain w2 where step: "delete_step bus names r c w = (Inr ?c1, w2)" and rows2: "fw_rows w2 = ?rows"
      using emit_state_ok [of bus "fl_host_uuid r" "fl_name r" "''torn_down''" "''deleted''" None "w\<lparr>fw_rows := ?rows\<rparr>"] Cons.prems [of r] False
      by (auto simp: delete_step_def bindS_step on_fleet_def del)
    have "{x \<in> set (r # rs). fl_name x \<notin> names} = insert r {x \<in> set rs. fl_name x \<notin> names}" using False by auto
    then have "filter (\<lambda>x. fl_key x \<notin> fl_key ` {r \<in> set rs. fl_name r \<notin> names}) ?rows =
        filter (\<lambda>x. fl_key x \<notin> fl_key ` {x \<in> set (r # rs). fl_name x \<notin> names}) (fw_rows w)"
      by (simp add: conj_commute)
    with Cons.IH [of ?c1 w2] Cons.prems step rows2 show ?thesis by (auto simp: bindS_step)
  qed
qed simp

text \<open>What the third phase makes of a row.\<close>

definition changed :: "(string, string) dict \<Rightarrow> (string, fleet_row) dict \<Rightarrow> fleet_config \<Rightarrow> bool" where
  "changed cs db d \<longleftrightarrow> (\<exists>e. map_of db (fd_name d) = Some e \<and> fl_state e \<noteq> aggregated cs d)"

definition settle :: "nat \<Rightarrow> string \<Rightarrow> (string, string) dict \<Rightarrow> (string, fleet_row) dict \<Rightarrow> fleet_config list \<Rightarrow> fleet_row \<Rightarrow> fleet_row" where
  "settle now host cs db ds r =
     (case find (\<lambda>d. fl_key r = (host, fd_name d) \<and> changed cs db d) ds of
        None \<Rightarrow> r | Some d \<Rightarrow> r\<lparr>fl_state := aggregated cs d, fl_updated_at := now, fl_last_seen := Some now\<rparr>)"

lemma fl_key_settle [simp]: "fl_key (settle now host cs db ds r) = fl_key r"
  by (simp add: settle_def fl_key_def split: option.split)

lemma settle_Cons:
  assumes "fd_name d \<notin> fd_name ` set ds"
  shows "settle now host cs db (d # ds) r = settle now host cs db ds
    (if fl_key r = (host, fd_name d) \<and> changed cs db d then r\<lparr>fl_state := aggregated cs d, fl_updated_at := now, fl_last_seen := Some now\<rparr> else r)"
proof (cases "fl_key r = (host, fd_name d) \<and> changed cs db d")
  case True
  let ?r = "r\<lparr>fl_state := aggregated cs d, fl_updated_at := now, fl_last_seen := Some now\<rparr>"
  have "fl_key ?r = (host, fd_name d)" using True by (simp add: fl_key_def)
  then have "find (\<lambda>d'. fl_key ?r = (host, fd_name d') \<and> changed cs db d') ds = None" using assms by (auto simp: find_None_iff)
  with True show ?thesis by (simp add: settle_def)
qed (auto simp: settle_def)

lemma state_phase:
  assumes "distinct (map fd_name ds)" "\<And>n e. map_of db n = Some e \<Longrightarrow> fl_host_uuid e = host"
    and "\<And>d. bus \<Longrightarrow> d \<in> set ds \<Longrightarrow> segment_ok (host @ '':'' @ fd_name d)"
  shows "\<exists>c' w'. foldS (state_step now cs bus db) ds c w = (Inr c', w') \<and> fw_rows w' = map (settle now host cs db ds) (fw_rows w)"
  using assms(1,3)
proof (induction ds arbitrary: c w)
  case Nil
  then show ?case by (simp add: settle_def)
next
  case (Cons d ds)
  let ?f = "\<lambda>r. if fl_key r = (host, fd_name d) \<and> changed cs db d then r\<lparr>fl_state := aggregated cs d, fl_updated_at := now, fl_last_seen := Some now\<rparr> else r"
  have "\<exists>c1 w1. state_step now cs bus db d c w = (Inr c1, w1) \<and> fw_rows w1 = map ?f (fw_rows w)"
  proof (cases "changed cs db d")
    case False
    then have "state_step now cs bus db d c w = (Inr c, w)" by (auto simp: state_step_def changed_def aggregated_def Let_def split: option.split)
    with False show ?thesis by simp
  next
    case True
    then obtain e where e: "map_of db (fd_name d) = Some e" "fl_state e \<noteq> aggregated cs d" by (auto simp: changed_def)
    have host: "fl_host_uuid e = host" by (rule assms(2) [OF e(1)])
    have up: "update_fleet_decky_state now host (fd_name d) (aggregated cs d) None (fw_rows w) = map ?f (fw_rows w)"
      using True by (simp add: update_fleet_decky_state_def Let_def)
    show ?thesis
      using emit_state_ok [of bus host "fd_name d" "aggregated cs d" "''state_changed''" "Some (fl_state e)" "w\<lparr>fw_rows := map ?f (fw_rows w)\<rparr>"]
        Cons.prems(2) [of d] e up
      by (auto simp: state_step_def Let_def host bindS_step on_fleet_def aggregated_def [symmetric])
  qed
  then obtain c1 w1 where step: "state_step now cs bus db d c w = (Inr c1, w1)" "fw_rows w1 = map ?f (fw_rows w)" by blast
  from Cons.IH [of c1 w1] Cons.prems obtain c' w' where rest: "foldS (state_step now cs bus db) ds c1 w1 = (Inr c', w')"
    "fw_rows w' = map (settle now host cs db ds) (fw_rows w1)" by auto
  have "map (settle now host cs db ds) (map ?f (fw_rows w)) = map (settle now host cs db (d # ds)) (fw_rows w)"
    using settle_Cons [of d ds now host cs db] Cons.prems(1) by simp
  with step rest show ?case by (simp add: bindS_step)
qed

section \<open>A pass converges\<close>

definition no_counts :: reconcile_counts where
  "no_counts = \<lparr>rc_inserted = 0, rc_deleted = 0, rc_state_updated = 0\<rparr>"

text \<open>The table agrees with the state file and Docker on the rows of a host.\<close>

definition in_step :: "string \<Rightarrow> fleet_config list \<Rightarrow> (string, string) dict \<Rightarrow> fleet_row list \<Rightarrow> bool" where
  "in_step host ds cs rows \<longleftrightarrow>
     {(fl_name r, fl_state r) | r. r \<in> set rows \<and> fl_host_uuid r = host} = {(fd_name d, aggregated cs d) | d. d \<in> set ds}"

lemma distinct_names: "distinct (map fd_name ds) \<Longrightarrow> d \<in> set ds \<Longrightarrow> d' \<in> set ds \<Longrightarrow> fd_name d = fd_name d' \<Longrightarrow> d = d'"
  by (auto simp: distinct_map inj_on_def)

lemma settle_other: "fl_host_uuid r \<noteq> host \<Longrightarrow> settle now host cs db ds r = r"
proof -
  assume "fl_host_uuid r \<noteq> host"
  then have "find (\<lambda>d. fl_key r = (host, fd_name d) \<and> changed cs db d) ds = None" by (auto simp: find_None_iff fl_key_def)
  then show ?thesis by (simp add: settle_def)
qed

lemma settle_state:
  assumes "distinct (map fd_name ds)" "d \<in> set ds" "fl_key r = (host, fd_name d)"
  shows "fl_state (settle now host cs db ds r) = (if changed cs db d then aggregated cs d else fl_state r)"
proof (cases "find (\<lambda>d. fl_key r = (host, fd_name d) \<and> changed cs db d) ds")
  case None
  with assms(2,3) have "\<not> changed cs db d" by (auto simp: find_None_iff)
  with None show ?thesis by (simp add: settle_def)
next
  case (Some d')
  then have "d' \<in> set ds" "fl_key r = (host, fd_name d')" "changed cs db d'" by (auto simp: find_Some_iff)
  with distinct_names [OF assms(1,2), of d'] assms(3) have "d' = d" "changed cs db d" by auto
  with Some show ?thesis by (simp add: settle_def)
qed

lemma reconcile_in_step:
  assumes "fleet_wf (fw_rows w)" "host \<noteq> []" "in_step host ds cs (fw_rows w)" "distinct (map fd_name ds)"
  shows "reconcile_once now host (Some ds) (Some cs) bus w = (Inr no_counts, w)"
proof -
  define db where "db = dict_of fl_name (\<lambda>r. r) (list_fleet_deckies (Some host) (fw_rows w))"
  note look = db_lookup [OF assms(1,2), folded db_def]
  have both: "\<exists>r. map_of db (fd_name d) = Some r \<and> fl_state r = aggregated cs d" if "d \<in> set ds" for d
  proof -
    from that assms(3) have "(fd_name d, aggregated cs d) \<in> {(fl_name r, fl_state r) | r. r \<in> set (fw_rows w) \<and> fl_host_uuid r = host}"
      unfolding in_step_def by blast
    then show ?thesis using look(1) by auto
  qed
  have names: "fl_name r \<in> fd_name ` set ds" if "r \<in> set (list_fleet_deckies (Some host) (fw_rows w))" for r
  proof -
    from that assms(2) have "r \<in> set (fw_rows w)" "fl_host_uuid r = host" by (auto simp: list_fleet_deckies_def)
    then have "(fl_name r, fl_state r) \<in> {(fd_name d, aggregated cs d) | d. d \<in> set ds}" using assms(3) unfolding in_step_def by blast
    then show ?thesis by auto
  qed
  have "foldS (insert_step now host (Some cs) bus db) ds no_counts w = (Inr no_counts, w)"
  proof (rule foldS_id)
    show "insert_step now host (Some cs) bus db d no_counts w = (Inr no_counts, w)" if "d \<in> set ds" for d
      using both [OF that] by (force simp: insert_step_def dest: map_of_SomeD)
  qed
  moreover have "foldS (delete_step bus (fd_name ` set ds)) (list_fleet_deckies (Some host) (fw_rows w)) no_counts w = (Inr no_counts, w)"
    by (rule foldS_id) (simp add: delete_step_def names)
  moreover have "foldS (state_step now cs bus db) ds no_counts w = (Inr no_counts, w)"
  proof (rule foldS_id)
    show "state_step now cs bus db d no_counts w = (Inr no_counts, w)" if "d \<in> set ds" for d
      using both [OF that] by (auto simp: state_step_def aggregated_def Let_def)
  qed
  ultimately show ?thesis by (simp add: reconcile_once_def Let_def bindS_step db_def [symmetric] no_counts_def [symmetric])
qed

lemma reconcile_rows:
  assumes "fleet_wf (fw_rows w)" "host \<noteq> []" "distinct (map fd_name ds)" "\<And>d. d \<in> set ds \<Longrightarrow> local_to host d"
    and "\<And>n. bus \<Longrightarrow> n \<in> fd_name ` set ds \<union> fl_name ` {r \<in> set (fw_rows w). fl_host_uuid r = host} \<Longrightarrow> segment_ok (host @ '':'' @ n)"
  shows "\<exists>c w' db. reconcile_once now host (Some ds) (Some cs) bus w = (Inr c, w') \<and>
    (\<forall>n r. map_of db n = Some r \<longleftrightarrow> r \<in> set (fw_rows w) \<and> fl_host_uuid r = host \<and> fl_name r = n) \<and>
    fw_rows w' = map (settle now host cs db ds)
      (filter (\<lambda>r. \<not> (fl_host_uuid r = host \<and> fl_name r \<notin> fd_name ` set ds))
        (fw_rows w @ map (new_row now host cs) (filter (\<lambda>d. (host, fd_name d) \<notin> fl_key ` set (fw_rows w)) ds)))"
proof -
  define rs where "rs = list_fleet_deckies (Some host) (fw_rows w)"
  define db where "db = dict_of fl_name (\<lambda>r. r) rs"
  note look = db_lookup [OF assms(1,2), folded rs_def, folded db_def]
  have rs: "set rs = {r \<in> set (fw_rows w). fl_host_uuid r = host}" using assms(2) by (auto simp: rs_def list_fleet_deckies_def)
  have in_db: "fd_name d \<notin> fst ` set db \<longleftrightarrow> (host, fd_name d) \<notin> fl_key ` set (fw_rows w)" for d
    by (auto simp: look(2) fl_key_def)
  obtain c1 w1 where one: "foldS (insert_step now host (Some cs) bus db) ds no_counts w = (Inr c1, w1)"
    "fw_rows w1 = fw_rows w @ map (new_row now host cs) (filter (\<lambda>d. fd_name d \<notin> fst ` set db) ds)"
  proof -
    have "\<exists>c' w'. foldS (insert_step now host (Some cs) bus db) ds no_counts w = (Inr c', w') \<and>
      fw_rows w' = fw_rows w @ map (new_row now host cs) (filter (\<lambda>d. fd_name d \<notin> fst ` set db) ds)"
      by (rule insert_phase) (use assms(3-5) in_db in \<open>blast | simp\<close>)+
    with that show thesis by blast
  qed
  obtain c2 w2 where two: "foldS (delete_step bus (fd_name ` set ds)) rs c1 w1 = (Inr c2, w2)"
    "fw_rows w2 = filter (\<lambda>r. fl_key r \<notin> fl_key ` {r \<in> set rs. fl_name r \<notin> fd_name ` set ds}) (fw_rows w1)"
    using delete_phase [of bus rs "fd_name ` set ds" c1 w1] assms(5) rs by auto
  obtain c3 w3 where three: "foldS (state_step now cs bus db) ds c2 w2 = (Inr c3, w3)"
    "fw_rows w3 = map (settle now host cs db ds) (fw_rows w2)"
    using state_phase [of ds db host bus now cs c2 w2] assms(3,5) look(1) by auto
  have "fl_key r \<notin> fl_key ` {r \<in> set rs. fl_name r \<notin> fd_name ` set ds} \<longleftrightarrow> \<not> (fl_host_uuid r = host \<and> fl_name r \<notin> fd_name ` set ds)"
    if "r \<in> set (fw_rows w1)" for r
    using that by (auto simp: one(2) rs fl_key_def new_row_def) (metis image_eqI)
  then have "fw_rows w2 = filter (\<lambda>r. \<not> (fl_host_uuid r = host \<and> fl_name r \<notin> fd_name ` set ds)) (fw_rows w1)"
    unfolding two(2) by (rule filter_cong [OF refl])
  then have "fw_rows w3 = map (settle now host cs db ds) (filter (\<lambda>r. \<not> (fl_host_uuid r = host \<and> fl_name r \<notin> fd_name ` set ds))
      (fw_rows w @ map (new_row now host cs) (filter (\<lambda>d. (host, fd_name d) \<notin> fl_key ` set (fw_rows w)) ds)))"
    unfolding three(2) one(2) in_db by (rule arg_cong)
  moreover have "reconcile_once now host (Some ds) (Some cs) bus w = (Inr c3, w3)"
    using one(1) two(1) three(1)
    by (simp add: reconcile_once_def Let_def bindS_step rs_def [symmetric] db_def [symmetric] no_counts_def [symmetric])
  ultimately show ?thesis using look(1) by blast
qed

lemma reconcile_result:
  assumes "fleet_wf rows" "distinct (map fd_name ds)"
    and look: "\<And>n r. map_of db n = Some r \<longleftrightarrow> r \<in> set rows \<and> fl_host_uuid r = host \<and> fl_name r = n"
    and rows': "rows' = map (settle now host cs db ds)
      (filter (\<lambda>r. \<not> (fl_host_uuid r = host \<and> fl_name r \<notin> fd_name ` set ds))
        (rows @ map (new_row now host cs) (filter (\<lambda>d. (host, fd_name d) \<notin> fl_key ` set rows) ds)))"
  shows "fleet_wf rows'" "filter (\<lambda>r. fl_host_uuid r \<noteq> host) rows' = filter (\<lambda>r. fl_host_uuid r \<noteq> host) rows" "in_step host ds cs rows'"
proof -
  define new where "new = map (new_row now host cs) (filter (\<lambda>d. (host, fd_name d) \<notin> fl_key ` set rows) ds)"
  define kept where "kept = filter (\<lambda>r. \<not> (fl_host_uuid r = host \<and> fl_name r \<notin> fd_name ` set ds)) (rows @ new)"
  have rows': "rows' = map (settle now host cs db ds) kept" by (simp add: rows' kept_def new_def)
  have new_key: "fl_key (new_row now host cs d) = (host, fd_name d)" for d by (simp add: fl_key_def new_row_def)
  have "map fl_key new = map (Pair host) (map fd_name (filter (\<lambda>d. (host, fd_name d) \<notin> fl_key ` set rows) ds))"
    by (simp add: new_def new_key)
  then have "distinct (map fl_key new)" using assms(2) by (simp add: distinct_map_filter distinct_map inj_on_def)
  moreover have "set (map fl_key rows) \<inter> set (map fl_key new) = {}" by (auto simp: new_def new_key)
  ultimately have "distinct (map fl_key (rows @ new))" using assms(1) by (simp add: fleet_wf_def)
  then have "distinct (map fl_key kept)" unfolding kept_def by (rule distinct_map_filter)
  then show "fleet_wf rows'" by (simp add: rows' fleet_wf_def comp_def)
  have host: "fl_host_uuid (settle now host cs db ds r) = fl_host_uuid r" "fl_name (settle now host cs db ds r) = fl_name r" for r
    using fl_key_settle [of now host cs db ds r] by (simp_all add: fl_key_def)
  have "filter (\<lambda>r. fl_host_uuid r \<noteq> host) rows' = map (settle now host cs db ds) (filter (\<lambda>r. fl_host_uuid r \<noteq> host) kept)"
    by (simp add: rows' filter_map comp_def host)
  also have "\<dots> = filter (\<lambda>r. fl_host_uuid r \<noteq> host) kept" by (rule map_idI) (simp add: settle_other)
  also have "\<dots> = filter (\<lambda>r. fl_host_uuid r \<noteq> host) (rows @ new)" unfolding kept_def filter_filter by (rule filter_cong) auto
  also have "\<dots> = filter (\<lambda>r. fl_host_uuid r \<noteq> host) rows" by (auto simp: new_def new_row_def)
  finally show "filter (\<lambda>r. fl_host_uuid r \<noteq> host) rows' = filter (\<lambda>r. fl_host_uuid r \<noteq> host) rows" .
  have state: "fl_state (settle now host cs db ds r) = aggregated cs d" if "r \<in> set kept" "fl_host_uuid r = host" "d \<in> set ds" "fl_name r = fd_name d" for r d
  proof -
    have settled: "fl_state (settle now host cs db ds r) = (if changed cs db d then aggregated cs d else fl_state r)"
      by (rule settle_state [OF assms(2) that(3)]) (simp add: fl_key_def that)
    from that(1) consider "r \<in> set rows" | "r \<in> set new" by (auto simp: kept_def)
    then show ?thesis
    proof cases
      case 1
      then have "map_of db (fd_name d) = Some r" using that by (simp add: look)
      then show ?thesis using settled by (auto simp: changed_def)
    next
      case 2
      then obtain d' where d': "d' \<in> set ds" "r = new_row now host cs d'" "(host, fd_name d') \<notin> fl_key ` set rows" by (auto simp: new_def)
      then have "d' = d" using distinct_names [OF assms(2) that(3) d'(1)] that(4) by (simp add: new_row_def)
      moreover have "map_of db (fd_name d) = None"
        using d'(3) \<open>d' = d\<close> look [of "fd_name d"] by (cases "map_of db (fd_name d)") (force simp: fl_key_def)+
      ultimately show ?thesis using settled d'(2) by (simp add: changed_def new_row_def)
    qed
  qed
  have "\<exists>r \<in> set kept. fl_host_uuid r = host \<and> fl_name r = fd_name d" if "d \<in> set ds" for d
  proof (cases "(host, fd_name d) \<in> fl_key ` set rows")
    case True
    then obtain r where "r \<in> set rows" "fl_host_uuid r = host" "fl_name r = fd_name d" by (auto simp: fl_key_def)
    with that show ?thesis by (auto simp: kept_def)
  next
    case False
    with that have "new_row now host cs d \<in> set new" by (simp add: new_def)
    with that show ?thesis by (intro bexI [of _ "new_row now host cs d"]) (auto simp: kept_def new_row_def)
  qed
  moreover have "\<exists>d \<in> set ds. fl_name r = fd_name d" if "r \<in> set kept" "fl_host_uuid r = host" for r
    using that by (auto simp: kept_def)
  ultimately show "in_step host ds cs rows'" unfolding in_step_def rows'
    by (auto simp: host) (metis host state imageI)+
qed

section \<open>Deckies of another host\<close>

definition shows_state :: "string \<times> string \<Rightarrow> string \<Rightarrow> fleet_row list \<Rightarrow> bool" where
  "shows_state k st rows \<longleftrightarrow> k \<in> fl_key ` set rows \<and> (\<forall>r \<in> set rows. fl_key r = k \<longrightarrow> fl_state r = st)"

lemma foldS_keeps:
  assumes "P c w" "\<And>x c w. x \<in> set xs \<Longrightarrow> P c w \<Longrightarrow> \<exists>c' w'. f x c w = (Inr c', w') \<and> P c' w'"
  shows "\<exists>c' w'. foldS f xs c w = (Inr c', w') \<and> P c' w'"
  using assms
proof (induction xs arbitrary: c w)
  case (Cons x xs)
  from Cons.prems(1) Cons.prems(2) [of x c w] obtain c1 w1 where "f x c w = (Inr c1, w1)" "P c1 w1" by auto
  with Cons.IH [of c1 w1] Cons.prems(2) show ?case by (auto simp: bindS_step)
qed simp

lemma foldS_append: "foldS f (xs @ ys) c = bindS (foldS f xs c) (foldS f ys)"
proof (induction xs arbitrary: c)
  case Nil
  show ?case by (rule ext) (simp add: bindS_def)
next
  case (Cons x xs)
  then show ?case by (simp add: bindS_def fun_eq_iff split: prod.split sum.split)
qed

lemma upsert_keys: "fl_key ` set (upsert_fleet_decky now h d st rows) = insert (h, fd_name d) (fl_key ` set rows)"
proof (cases "(h, fd_name d) \<in> fl_key ` set rows")
  case True
  then have "map fl_key (upsert_fleet_decky now h d st rows) = map fl_key rows" by (simp add: upsert_fleet_decky_def fl_key_def)
  then have "fl_key ` set (upsert_fleet_decky now h d st rows) = fl_key ` set rows" by (metis list.set_map)
  with True show ?thesis by (simp add: insert_absorb)
qed (simp add: upsert_fleet_decky_def, simp add: fl_key_def)

lemma upsert_shows: "shows_state (h, fd_name d) st (upsert_fleet_decky now h d st rows)"
  using upsert_keys [of now h d st rows] by (auto simp: shows_state_def upsert_fleet_decky_def fl_key_def)

lemma upsert_other: "k \<noteq> (h, fd_name d) \<Longrightarrow> shows_state k st rows \<Longrightarrow> shows_state k st (upsert_fleet_decky now h d st' rows)"
  using upsert_keys [of now h d st' rows] by (auto simp: shows_state_def upsert_fleet_decky_def fl_key_def)

lemma delete_other: "k \<noteq> (h, n) \<Longrightarrow> shows_state k st rows \<Longrightarrow> shows_state k st (delete_fleet_decky h n rows)"
  by (auto simp: shows_state_def delete_fleet_decky_def)

lemma update_keys: "fl_key ` set (update_fleet_decky_state now h n st e rows) = fl_key ` set rows"
proof -
  have "map fl_key (update_fleet_decky_state now h n st e rows) = map fl_key rows"
    by (simp add: update_fleet_decky_state_def fl_key_def Let_def)
  then show ?thesis by (metis list.set_map)
qed

lemma update_other: "k \<noteq> (h, n) \<Longrightarrow> shows_state k st rows \<Longrightarrow> shows_state k st (update_fleet_decky_state now h n st' e rows)"
  using update_keys [of now h n st' e rows] by (auto simp: shows_state_def update_fleet_decky_state_def Let_def fl_key_def)

lemma emit_no_bus: "emit_state False h n st tr p w = (Inr (), w)"
  by (simp add: emit_state_def)

lemma foreign_pass:
  assumes host: "host \<noteq> []" "fd_host_uuid d = Some peer" "peer \<noteq> []" "peer \<noteq> host"
    and ds: "d \<in> set ds" "distinct (map fd_name ds)" and absent: "(host, fd_name d) \<notin> fl_key ` set (fw_rows w)"
  shows "\<exists>c w'. reconcile_once now host (Some ds) (Some cs) False w = (Inr c, w') \<and> 1 \<le> rc_inserted c \<and>
    shows_state (peer, fd_name d) (aggregated cs d) (fw_rows w') \<and> (host, fd_name d) \<notin> fl_key ` set (fw_rows w')"
proof -
  define rs where "rs = list_fleet_deckies (Some host) (fw_rows w)"
  define db where "db = dict_of fl_name (\<lambda>r. r) rs"
  have rs: "r \<in> set rs \<Longrightarrow> r \<in> set (fw_rows w) \<and> fl_host_uuid r = host" for r using host(1) by (auto simp: rs_def list_fleet_deckies_def)
  have db: "(n, r) \<in> set db \<Longrightarrow> r \<in> set rs \<and> n = fl_name r" for n r
  proof -
    have "\<forall>(n, r) \<in> set (fold (\<lambda>x d. AList.update (fl_name x) x d) xs d0). r \<in> set xs \<and> n = fl_name r \<or> (n, r) \<in> set d0" for xs and d0 :: "(string, fleet_row) dict"
    proof (induction xs arbitrary: d0)
      case (Cons x xs)
      have "(n, r) \<in> set (AList.update (fl_name x) x d0) \<Longrightarrow> r = x \<and> n = fl_name x \<or> (n, r) \<in> set d0" for n r
        by (induction d0) (auto split: if_splits)
      with Cons.IH [of "AList.update (fl_name x) x d0"] show ?case by fastforce
    qed simp
    from this [of rs "[]"] show "(n, r) \<in> set db \<Longrightarrow> r \<in> set rs \<and> n = fl_name r" by (auto simp: db_def dict_of_def)
  qed
  have new: "fd_name d \<notin> fst ` set db"
  proof
    assume "fd_name d \<in> fst ` set db"
    then obtain r where "r \<in> set (fw_rows w)" "fl_host_uuid r = host" "fl_name r = fd_name d" using db rs by force
    with absent show False by (force simp: fl_key_def)
  qed
  let ?k = "(peer, fd_name d)" and ?h = "(host, fd_name d)" and ?st = "aggregated cs d"
  let ?P = "\<lambda>c (w :: fleet_world). 1 \<le> rc_inserted c \<and> shows_state ?k ?st (fw_rows w) \<and> ?h \<notin> fl_key ` set (fw_rows w)"
  have other: "\<exists>c' w'. insert_step now host (Some cs) False db x c w = (Inr c', w') \<and>
      rc_inserted c \<le> rc_inserted c' \<and> (shows_state ?k ?st (fw_rows w) \<longrightarrow> shows_state ?k ?st (fw_rows w')) \<and>
      (?h \<notin> fl_key ` set (fw_rows w) \<longrightarrow> ?h \<notin> fl_key ` set (fw_rows w'))" if "fd_name x \<noteq> fd_name d" for x c and w :: fleet_world
    using that by (auto simp: insert_step_def Let_def bindS_step on_fleet_def emit_no_bus upsert_keys intro!: upsert_other)
  obtain xs ys where split: "ds = xs @ d # ys" using ds(1) by (meson split_list)
  have names: "fd_name x \<noteq> fd_name d" if "x \<in> set xs \<union> set ys" for x using ds(2) that by (auto simp: split) (metis image_eqI)+
  obtain c1 w1 where one: "foldS (insert_step now host (Some cs) False db) xs no_counts w = (Inr c1, w1)" "?h \<notin> fl_key ` set (fw_rows w1)"
    using foldS_keeps [of "\<lambda>c w. ?h \<notin> fl_key ` set (fw_rows w)" no_counts w xs "insert_step now host (Some cs) False db"] absent other names
    by (metis UnI1)
  obtain c2 w2 where two: "insert_step now host (Some cs) False db d c1 w1 = (Inr c2, w2)" "?P c2 w2"
    using new host one(2) upsert_shows [of peer d ?st now "fw_rows w1"]
    by (auto simp: insert_step_def Let_def bindS_step on_fleet_def emit_no_bus upsert_keys aggregated_def [symmetric])
  obtain c3 w3 where three: "foldS (insert_step now host (Some cs) False db) ys c2 w2 = (Inr c3, w3)" "?P c3 w3"
  proof -
    have "\<exists>c' w'. insert_step now host (Some cs) False db x c w = (Inr c', w') \<and> ?P c' w'" if "x \<in> set ys" "?P c w" for x c w
    proof -
      from that(1) have "fd_name x \<noteq> fd_name d" by (intro names) simp
      from other [OF this, of c w] that(2) show ?thesis by (meson order_trans)
    qed
    with foldS_keeps [of ?P c2 w2 ys "insert_step now host (Some cs) False db"] two(2) have
      "\<exists>c' w'. foldS (insert_step now host (Some cs) False db) ys c2 w2 = (Inr c', w') \<and> ?P c' w'" by blast
    with that show thesis by blast
  qed
  have "\<exists>c' w'. delete_step False names' r c w = (Inr c', w') \<and> ?P c' w'" if "r \<in> set rs" "?P c w" for r c w and names'
    using that rs [OF that(1)] host(4)
    by (auto simp: delete_step_def bindS_step on_fleet_def emit_no_bus intro!: delete_other) (auto simp: delete_fleet_decky_def)
  then obtain c4 w4 where four: "foldS (delete_step False (fd_name ` set ds)) rs c3 w3 = (Inr c4, w4)" "?P c4 w4"
    using foldS_keeps [of ?P c3 w3 rs "delete_step False (fd_name ` set ds)"] three(2) by blast
  have "\<exists>c' w'. state_step now cs False db x c w = (Inr c', w') \<and> ?P c' w'" if "?P c w" for x c w
  proof (cases "map_of db (fd_name x)")
    case (Some e)
    then have "fl_host_uuid e = host" using db rs map_of_SomeD by metis
    with Some that host(4) show ?thesis
      by (auto simp: state_step_def Let_def bindS_step on_fleet_def emit_no_bus update_keys intro!: update_other)
  qed (use that in \<open>simp add: state_step_def\<close>)
  then obtain c5 w5 where five: "foldS (state_step now cs False db) ds c4 w4 = (Inr c5, w5)" "?P c5 w5"
    using foldS_keeps [of ?P c4 w4 ds "state_step now cs False db"] four(2) by blast
  have "foldS (insert_step now host (Some cs) False db) ds no_counts w = (Inr c3, w3)"
    using one(1) two(1) three(1) by (simp add: split foldS_append bindS_step)
  then have "reconcile_once now host (Some ds) (Some cs) False w = (Inr c5, w5)"
    using four(1) five(1)
    by (simp add: reconcile_once_def Let_def bindS_step rs_def [symmetric] db_def [symmetric] no_counts_def [symmetric])
  with five(2) show ?thesis by blast
qed

section \<open>Properties\<close>


definition demo_fleet_decky :: "string option \<Rightarrow> fleet_config" where
  "demo_fleet_decky host = \<lparr>fd_name = ''web'', fd_ip = ''10.0.0.2'', fd_services = [''ssh''], fd_archetype = None,
     fd_mutate_interval = None, fd_last_mutated = 0, fd_host_uuid = host, fd_rest = JNull\<rparr>"

definition demo_fleet_row :: "string \<Rightarrow> string \<Rightarrow> fleet_row" where
  "demo_fleet_row host name = \<lparr>fl_host_uuid = host, fl_name = name, fl_services = [''ssh''], fl_config = demo_fleet_decky None, fl_ip = ''10.0.0.3'',
     fl_state = ''running'', fl_last_error = None, fl_last_seen = None, fl_updated_at = 0\<rparr>"


text \<open>C38. A decky of the state file that belongs to another host is written again by every pass: the row of
  its host is overwritten with the state that the containers of this host show, which is \<open>torn_down\<close>
  when they run elsewhere, the pass reports an insertion, and the condition for this holds again
  afterwards.\<close>

theorem foreign_decky_is_overwritten:
  assumes "host \<noteq> []" and "fd_host_uuid d = Some peer" and "peer \<noteq> []" and "peer \<noteq> host"
    and "d \<in> set ds" and "distinct (map fd_name ds)" and "(host, fd_name d) \<notin> fl_key ` set (fw_rows w)"
    and "\<forall>svc \<in> set (fd_services d). fd_name d @ ''-'' @ dashed svc \<notin> fst ` set cs"
  shows "\<exists>c w'. reconcile_once now host (Some ds) (Some cs) False w = (Inr c, w') \<and> 1 \<le> rc_inserted c \<and>
    (peer, fd_name d) \<in> fl_key ` set (fw_rows w') \<and>
    (\<forall>r \<in> set (fw_rows w'). fl_key r = (peer, fd_name d) \<longrightarrow> fl_state r = ''torn_down'') \<and>
    (host, fd_name d) \<notin> fl_key ` set (fw_rows w')"
proof -
  have "n \<notin> (\<lambda>svc. fd_name d @ ''-'' @ dashed svc) ` set (fd_services d)" if "(n, s) \<in> set cs" for n s
  proof -
    from that have "n \<in> fst ` set cs" by (rule rev_image_eqI) simp
    with assms(8) show ?thesis by blast
  qed
  then have "filter (\<lambda>(n, s). n \<in> (\<lambda>svc. fd_name d @ ''-'' @ dashed svc) ` set (fd_services d)) cs = []"
    unfolding filter_empty_conv by auto
  then have "aggregated cs d = ''torn_down''" unfolding aggregated_def aggregate_decky_state_def Let_def by (simp only: refl if_True)
  with foreign_pass [OF assms(1-7), of now cs] show ?thesis by (simp add: shows_state_def)
qed

theorem foreign_decky_is_overwritten_witness:
  "\<exists>c w'. reconcile_once 1 ''local'' (Some [demo_fleet_decky (Some ''peer'')]) (Some []) False
       \<lparr>fw_rows = [demo_fleet_row ''peer'' ''web''], fw_events = []\<rparr> = (Inr c, w') \<and>
     (\<forall>r \<in> set (fw_rows w'). fl_key r = (''peer'', ''web'') \<longrightarrow> fl_state r = ''torn_down'')"
proof -
  define d where "d = demo_fleet_decky (Some ''peer'')"
  have d: "fd_host_uuid d = Some ''peer''" "fd_name d = ''web''" by (simp_all add: d_def demo_fleet_decky_def)
  let ?w = "\<lparr>fw_rows = [demo_fleet_row ''peer'' ''web''], fw_events = []\<rparr>"
  have "(''local'', fd_name d) \<notin> fl_key ` set (fw_rows ?w)" by (simp add: d demo_fleet_row_def fl_key_def)
  from foreign_decky_is_overwritten [OF _ d(1) _ _ _ _ this, of "[d]" "[]" 1] show ?thesis
    unfolding d_def [symmetric] by (simp add: d) blast
qed

end
