(* ===== verification/Fleet_Mutator.thy ===== *)
theory Fleet_Mutator
  imports Correlation Fleet_Reconciler Topology_Generator_Live
begin

text \<open>
  The rotation of services in the flat fleet (\<open>mutate_decky\<close>, \<open>mutate_all\<close> and the pause of the watch loop
  in \<open>decnet/mutator/engine.py\<close>) with the event of \<open>decnet/mutator/events.py\<close>.  The world is the stored
  deployment, the source of random draws, the lines of the ingest log and the topics published; what the
  archetypes, the compose file, Docker, the agents, the clock and the log file answer are arguments; a
  pass sees one instant.
\<close>

section \<open>The world\<close>

record flat_config =
  fc_mode :: string
  fc_mutate_interval :: "int option"
  fc_deckies :: "fleet_config list"

record mutator_world =
  mw_deployment :: "flat_config option"
  mw_rng :: rng
  mw_lines :: "string list"
  mw_topics :: "string list"

record flat_env =
  me_now :: rat
  me_timestamp :: string
  me_archetypes :: "string \<Rightarrow> string list option"
  me_services :: "string list"
  me_write_compose :: "mutator_world \<Rightarrow> unit result"
  me_compose_up :: "mutator_world \<Rightarrow> unit result"
  me_agent_mutate :: "mutator_world \<Rightarrow> string \<Rightarrow> unit result"
  me_log_writable :: bool
  me_bus :: bool

section \<open>One decky\<close>

definition service_pool :: "flat_env \<Rightarrow> fleet_config \<Rightarrow> string list" where
  "service_pool env d =
     (case fd_archetype d of
        None \<Rightarrow> me_services env
      | Some a \<Rightarrow> if a = [] then me_services env
                  else case me_archetypes env a of Some ss \<Rightarrow> ss | None \<Rightarrow> me_services env)"

text \<open>The choice of new services is the loop of the generator with the present services as the only
  combination to avoid.\<close>

definition shuffle_services :: "string list \<Rightarrow> string list \<Rightarrow> rng \<Rightarrow> (string list \<times> rng) result" where
  "shuffle_services svc_pool current_services r = pick_loop svc_pool {set current_services} 0 r"

text \<open>The same choice as a function of its own, for the API.\<close>

definition pick_new_services :: "flat_env \<Rightarrow> fleet_config \<Rightarrow> rng \<Rightarrow> (string list option \<times> rng) result" where
  "pick_new_services env d r =
     (if service_pool env d = [] then Inr (None, r)
      else bindE (shuffle_services (service_pool env d) (fd_services d) r) (\<lambda>(chosen, r). Inr (Some chosen, r)))"

fun store_services :: "string \<Rightarrow> string list \<Rightarrow> rat \<Rightarrow> fleet_config list \<Rightarrow> fleet_config list" where
  "store_services name ss now [] = []"
| "store_services name ss now (d # ds) =
     (if fd_name d = name then d\<lparr>fd_services := ss, fd_last_mutated := now\<rparr> # ds else d # store_services name ss now ds)"

text \<open>Both sides of the event; the topic is built whether or not there is a bus, and outside the guard.\<close>

definition emit_decky_mutated :: "flat_env \<Rightarrow> string \<Rightarrow> string list \<Rightarrow> string list \<Rightarrow> string \<Rightarrow> (unit, mutator_world) op" where
  "emit_decky_mutated env decky old_services new_services trigger w =
     (let w = (if me_log_writable env
               then w\<lparr>mw_lines := mw_lines w @ [mutation_line (me_timestamp env) decky old_services new_services trigger None @ [NEWLINE]]\<rparr> else w)
      in case decky_mutation decky of
           Inl e \<Rightarrow> (Inl e, w)
         | Inr topic \<Rightarrow> (Inr (), if me_bus env then w\<lparr>mw_topics := mw_topics w @ [topic]\<rparr> else w))"

definition reify :: "flat_env \<Rightarrow> flat_config \<Rightarrow> fleet_config \<Rightarrow> mutator_world \<Rightarrow> bool result" where
  "reify env cfg d w =
     (if fc_mode cfg = ''swarm'' \<and> fd_host_uuid d \<notin> {None, Some []}
      then (case me_agent_mutate env w (fd_name d) of Inl _ \<Rightarrow> Inr False | Inr _ \<Rightarrow> Inr True)
      else bindE (me_write_compose env w) (\<lambda>_. case me_compose_up env w of Inl _ \<Rightarrow> Inr False | Inr _ \<Rightarrow> Inr True))"

definition mutate_decky :: "flat_env \<Rightarrow> string \<Rightarrow> string \<Rightarrow> (bool, mutator_world) op" where
  "mutate_decky env name trigger w =
     (case mw_deployment w of
        None \<Rightarrow> (Inr False, w)
      | Some cfg \<Rightarrow>
          (case find (\<lambda>d. fd_name d = name) (fc_deckies cfg) of
             None \<Rightarrow> (Inr False, w)
           | Some d \<Rightarrow>
               let svc_pool = service_pool env d in
               if svc_pool = [] then (Inr False, w)
               else (case shuffle_services svc_pool (fd_services d) (mw_rng w) of
                 Inl e \<Rightarrow> (Inl e, w)
               | Inr (chosen, r) \<Rightarrow>
                   let cfg = cfg\<lparr>fc_deckies := store_services name chosen (me_now env) (fc_deckies cfg)\<rparr>;
                       w = w\<lparr>mw_deployment := Some cfg, mw_rng := r\<rparr>
                   in (case reify env cfg d w of
                         Inl e \<Rightarrow> (Inl e, w)
                       | Inr False \<Rightarrow> (Inr False, w)
                       | Inr True \<Rightarrow> bindS (emit_decky_mutated env name (fd_services d) chosen trigger) (\<lambda>_. returnS True) w))))"

section \<open>The fleet\<close>

definition interval_of :: "flat_config \<Rightarrow> fleet_config \<Rightarrow> int option" where
  "interval_of cfg d = (case fd_mutate_interval d of Some i \<Rightarrow> if i \<noteq> 0 then Some i else fc_mutate_interval cfg | None \<Rightarrow> fc_mutate_interval cfg)"

definition mutate_due :: "flat_env \<Rightarrow> bool \<Rightarrow> string set option \<Rightarrow> flat_config \<Rightarrow> fleet_config \<Rightarrow> rat option \<Rightarrow> (rat option, mutator_world) op" where
  "mutate_due env force only cfg d next_due_in =
     (let trigger = (if force \<or> only \<noteq> None then ''operator'' else ''scheduled'') in
      if (case only of Some names \<Rightarrow> fd_name d \<notin> names | None \<Rightarrow> False) then returnS next_due_in
      else if interval_of cfg d = None \<and> \<not> force then returnS next_due_in
      else if force \<or> only \<noteq> None then bindS (mutate_decky env (fd_name d) trigger) (\<lambda>_. returnS next_due_in)
      else (case interval_of cfg d of
              None \<Rightarrow> returnS next_due_in
            | Some interval_mins \<Rightarrow>
                let elapsed_secs = me_now env - fd_last_mutated d;
                    remaining = of_int (interval_mins * 60) - elapsed_secs
                in if elapsed_secs \<ge> of_int (interval_mins * 60)
                   then bindS (mutate_decky env (fd_name d) trigger) (\<lambda>_. returnS next_due_in)
                   else returnS (case next_due_in of None \<Rightarrow> Some remaining | Some n \<Rightarrow> if remaining < n then Some remaining else Some n)))"

definition mutate_all :: "flat_env \<Rightarrow> bool \<Rightarrow> string set option \<Rightarrow> (rat option, mutator_world) op" where
  "mutate_all env force only w =
     (case mw_deployment w of
        None \<Rightarrow> (Inr None, w)
      | Some cfg \<Rightarrow> foldS (mutate_due env force only cfg) (fc_deckies cfg) None w)"

text \<open>The pause after a tick of the watch loop.\<close>

definition watch_timeout :: "rat \<Rightarrow> rat option \<Rightarrow> rat" where
  "watch_timeout poll_interval_secs next_due =
     (case next_due of None \<Rightarrow> poll_interval_secs | Some n \<Rightarrow> if n > poll_interval_secs then poll_interval_secs else max 1 n)"

section \<open>What a mutation does\<close>

lemma stored_deckies:
  assumes "find (\<lambda>d. fd_name d = name) ds = Some d"
  shows "find (\<lambda>d. fd_name d = name) (store_services name ss now ds) = Some (d\<lparr>fd_services := ss, fd_last_mutated := now\<rparr>)"
    and "filter (\<lambda>d. fd_name d \<noteq> name) (store_services name ss now ds) = filter (\<lambda>d. fd_name d \<noteq> name) ds"
    and "map fd_name (store_services name ss now ds) = map fd_name ds"
  using assms by (induction ds) (auto split: if_splits)

lemma token_of_topic: "decky_mutation name = Inr topic \<Longrightarrow> is_token name"
  by (auto simp: decky_mutation_def built_def is_token_def list_all_iff list_ex_iff split: if_splits)

lemma mutate_decky_True:
  assumes "mutate_decky env name trigger w = (Inr True, w')" "mw_deployment w = Some cfg"
    and "find (\<lambda>d. fd_name d = name) (fc_deckies cfg) = Some d"
  obtains new r topic where "shuffle_services (service_pool env d) (fd_services d) (mw_rng w) = Inr (new, r)" "decky_mutation name = Inr topic"
    "mw_deployment w' = Some (cfg\<lparr>fc_deckies := store_services name new (me_now env) (fc_deckies cfg)\<rparr>)"
    "mw_lines w' = mw_lines w @ (if me_log_writable env
       then [mutation_line (me_timestamp env) name (fd_services d) new trigger None @ [NEWLINE]] else [])"
proof -
  obtain new r where new: "shuffle_services (service_pool env d) (fd_services d) (mw_rng w) = Inr (new, r)"
    using assms by (auto simp: mutate_decky_def Let_def split: if_splits sum.splits)
  define cfg' where "cfg' = cfg\<lparr>fc_deckies := store_services name new (me_now env) (fc_deckies cfg)\<rparr>"
  define w1 where "w1 = w\<lparr>mw_deployment := Some cfg', mw_rng := r\<rparr>"
  have "emit_decky_mutated env name (fd_services d) new trigger w1 = (Inr (), w')"
    using assms new by (auto simp: mutate_decky_def Let_def cfg'_def w1_def split: if_splits sum.splits bool.splits)
  then have "\<exists>topic. decky_mutation name = Inr topic" "mw_deployment w' = Some cfg'"
    "mw_lines w' = mw_lines w @ (if me_log_writable env then [mutation_line (me_timestamp env) name (fd_services d) new trigger None @ [NEWLINE]] else [])"
    by (auto simp: emit_decky_mutated_def Let_def w1_def split: sum.splits if_splits)
  with new that show thesis unfolding cfg'_def by blast
qed

lemma pick_new_services_total: "\<exists>x r'. pick_new_services env d r = Inr (x, r')"
proof (cases "service_pool env d = []")
  case False
  from pick_loop_total [OF this, of "{set (fd_services d)}" 0 r] show ?thesis by (auto simp: pick_new_services_def shuffle_services_def)
qed (simp add: pick_new_services_def)

lemma pick_new_services_sound:
  "pick_new_services env d r = Inr (Some ss, r') \<Longrightarrow> ss \<noteq> [] \<and> distinct ss \<and> length ss \<le> 3 \<and> set ss \<subseteq> set (service_pool env d)"
  by (auto simp: pick_new_services_def shuffle_services_def SVC_MAX_def dest!: pick_loop_sound split: if_splits)

text \<open>The pause of the watch loop is between one second and the poll interval.\<close>

lemma watch_timeout_bounds: "1 \<le> poll \<Longrightarrow> 1 \<le> watch_timeout poll next_due \<and> watch_timeout poll next_due \<le> poll"
  by (auto simp: watch_timeout_def split: option.split)

text \<open>A request for a decky without an interval is dropped, although it asks for a change at once.\<close>

lemma request_without_interval:
  assumes "mw_deployment w = Some cfg" "\<And>d. d \<in> set (fc_deckies cfg) \<Longrightarrow> fd_name d \<in> names \<Longrightarrow> interval_of cfg d = None"
  shows "mutate_all env False (Some names) w = (Inr None, w)"
proof -
  have "foldS (mutate_due env False (Some names) cfg) (fc_deckies cfg) None w = (Inr None, w)"
    by (rule foldS_id) (use assms(2) in \<open>auto simp: mutate_due_def Let_def\<close>)
  with assms(1) show ?thesis by (simp add: mutate_all_def)
qed

section \<open>Properties\<close>

text \<open>C39. When the mutation of a decky succeeds, the stored deployment has one to three different services of its pool for that
  decky and the time of the change, and every other decky as before; and when the ingest log can be written,
  the one line appended to it is read by the correlation engine as the change of this decky from the old services to
  the new ones.\<close>

theorem mutation_is_stored_and_reported:
  assumes run: "mutate_decky env name trigger w = (Inr True, w')" and "mw_deployment w = Some cfg"
    and "find (\<lambda>d. fd_name d = name) (fc_deckies cfg) = Some d"
    and "name \<noteq> ''-''" and "length name \<le> 255" and "plain name" and "plain trigger"
    and "list_all service_ok (fd_services d @ service_pool env d)"
    and "me_log_writable env" and "is_token (me_timestamp env)" and "from_iso (me_timestamp env) = Some t"
  shows "\<exists>new ds line e. new \<noteq> [] \<and> distinct new \<and> length new \<le> 3 \<and> set new \<subseteq> set (service_pool env d) \<and>
    mw_deployment w' = Some (cfg\<lparr>fc_deckies := ds\<rparr>) \<and> map fd_name ds = map fd_name (fc_deckies cfg) \<and>
    find (\<lambda>d. fd_name d = name) ds = Some (d\<lparr>fd_services := new, fd_last_mutated := me_now env\<rparr>) \<and>
    filter (\<lambda>d. fd_name d \<noteq> name) ds = filter (\<lambda>d. fd_name d \<noteq> name) (fc_deckies cfg) \<and>
    mw_lines w' = mw_lines w @ [line] \<and> parse_line from_iso msg_ip line = Some e \<and> le_mutation e \<and>
    marker_from_event e = \<lparr>mk_timestamp = t, mk_decky = name, mk_old_services = fd_services d, mk_new_services = new, mk_trigger = trigger\<rparr>"
proof -
  obtain new r topic where m: "shuffle_services (service_pool env d) (fd_services d) (mw_rng w) = Inr (new, r)" "decky_mutation name = Inr topic"
    "mw_deployment w' = Some (cfg\<lparr>fc_deckies := store_services name new (me_now env) (fc_deckies cfg)\<rparr>)"
    "mw_lines w' = mw_lines w @ [mutation_line (me_timestamp env) name (fd_services d) new trigger None @ [NEWLINE]]"
    using mutate_decky_True [OF assms(1-3)] assms(9) by auto
  from pick_loop_sound [OF m(1) [unfolded shuffle_services_def]] have
    new: "set new \<subseteq> set (service_pool env d)" "distinct new" "new \<noteq> []" "length new \<le> 3" by (simp_all add: SVC_MAX_def)
  have "list_all service_ok (fd_services d @ new)" using assms(8) new(1) by (auto simp: list_all_iff)
  then obtain e where "parse_line from_iso msg_ip (mutation_line (me_timestamp env) name (fd_services d) new trigger None @ [NEWLINE]) = Some e" "le_mutation e"
    "marker_from_event e = \<lparr>mk_timestamp = t, mk_decky = name, mk_old_services = fd_services d, mk_new_services = new, mk_trigger = trigger\<rparr>"
    using mutation_line_read [of "me_timestamp env" from_iso t name "fd_services d" new trigger None] assms(4-7,10,11) token_of_topic [OF m(2)]
    by (metis option.distinct(1))
  with m(3,4) new stored_deckies [OF assms(3), of new "me_now env"] show ?thesis by blast
qed

definition demo_flat_env :: flat_env where
  "demo_flat_env = \<lparr>me_now = 7200, me_timestamp = ''now'', me_archetypes = (\<lambda>_. None), me_services = [''ssh''],
     me_write_compose = (\<lambda>_. Inr ()), me_compose_up = (\<lambda>_. Inr ()), me_agent_mutate = (\<lambda>_ _. Inr ()), me_log_writable = True, me_bus = False\<rparr>"

definition demo_flat_world :: "string \<Rightarrow> mutator_world" where
  "demo_flat_world name = \<lparr>mw_deployment = Some \<lparr>fc_mode = ''unihost'', fc_mutate_interval = Some 30,
     fc_deckies = [(demo_fleet_decky None)\<lparr>fd_name := name\<rparr>]\<rparr>, mw_rng = \<lparr>rng_pos = 0, rng_seq = (\<lambda>_. 0)\<rparr>, mw_lines = [], mw_topics = []\<rparr>"

theorem mutation_is_stored_and_reported_witness:
  "\<exists>w' line e. mutate_decky demo_flat_env ''web'' ''operator'' (demo_flat_world ''web'') = (Inr True, w') \<and> mw_lines w' = [line] \<and>
     parse_line (\<lambda>s. Some (length s)) (\<lambda>_. None) line = Some e \<and> mk_old_services (marker_from_event e) = [''ssh'']"
proof -
  define d where "d = (demo_fleet_decky None)\<lparr>fd_name := ''web''\<rparr>"
  have d: "fd_name d = ''web''" "fd_services d = [''ssh'']" "fd_archetype d = None" by (simp_all add: d_def demo_fleet_decky_def)
  have pool: "service_pool demo_flat_env d = [''ssh'']" by (simp add: service_pool_def d demo_flat_env_def)
  obtain new r where new: "shuffle_services [''ssh''] [''ssh''] \<lparr>rng_pos = 0, rng_seq = (\<lambda>_. 0)\<rparr> = Inr (new, r)"
    using pick_loop_total [of "[''ssh'']"] unfolding shuffle_services_def by blast
  have "decky_mutation ''web'' = Inr ''decky.web.mutation''" by (simp add: decky_mutation_def built_def is_space_def)
  then obtain w' where run: "mutate_decky demo_flat_env ''web'' ''operator'' (demo_flat_world ''web'') = (Inr True, w')"
    using new pool d by (simp add: mutate_decky_def demo_flat_world_def d_def [symmetric] Let_def reify_def bindS_def emit_decky_mutated_def) (simp add: demo_flat_env_def emit_decky_mutated_def)
  let ?cfg = "\<lparr>fc_mode = ''unihost'', fc_mutate_interval = Some 30, fc_deckies = [d]\<rparr>"
  have w: "mw_deployment (demo_flat_world ''web'') = Some ?cfg" "mw_lines (demo_flat_world ''web'') = []" by (simp_all add: demo_flat_world_def d_def)
  have find: "find (\<lambda>d. fd_name d = ''web'') (fc_deckies ?cfg) = Some d" by (simp add: d)
  have services: "list_all service_ok (fd_services d @ service_pool demo_flat_env d)" by (simp add: plain_def service_ok_def d pool)
  have ok: "plain ''web''" "plain ''operator''" "me_log_writable demo_flat_env" "is_token (me_timestamp demo_flat_env)"
    by (simp_all add: plain_def demo_flat_env_def is_token_def is_space_def)
  from mutation_is_stored_and_reported [OF run w(1) find _ _ ok(1,2) services ok(3,4), of "\<lambda>s. Some (length s)" _ "\<lambda>_. None"] obtain line e where
    "mw_lines w' = mw_lines (demo_flat_world ''web'') @ [line]" "parse_line (\<lambda>s. Some (length s)) (\<lambda>_. None) line = Some e"
    "mk_old_services (marker_from_event e) = fd_services d" by auto
  with run w(2) d(2) show ?thesis by auto
qed

text \<open>C40. A decky whose name has a dot, which the specification of deckies allows, stops the rotation of the
  fleet: when it is the first decky and due, Docker does as told and a pass raises \<open>ValueError\<close>,
  after the new services were stored and the log line was written, without looking at the
  other deckies; the exception reaches the watch loop, which has no handler for it.\<close>

theorem dotted_decky_stops_rotation:
  assumes "mw_deployment w = Some cfg" and "fc_deckies cfg = d # ds" and "CHR ''.'' \<in> set (fd_name d)" and "service_pool env d \<noteq> []"
    and "interval_of cfg d = Some i" and "me_now env - fd_last_mutated d \<ge> of_int (i * 60)"
    and "me_write_compose env = (\<lambda>_. Inr ())" and "me_compose_up env = (\<lambda>_. Inr ())" and "me_agent_mutate env = (\<lambda>_ _. Inr ())"
  shows "\<exists>w' new. mutate_all env False None w = (Inl ValueError, w') \<and>
    mw_deployment w' = Some (cfg\<lparr>fc_deckies := d\<lparr>fd_services := new, fd_last_mutated := me_now env\<rparr> # ds\<rparr>) \<and>
    (me_log_writable env \<longrightarrow> length (mw_lines w') = length (mw_lines w) + 1)"
proof -
  from pick_loop_total [OF assms(4)] obtain new r where new: "shuffle_services (service_pool env d) (fd_services d) (mw_rng w) = Inr (new, r)"
    unfolding shuffle_services_def by blast
  have topic: "decky_mutation (fd_name d) = Inl ValueError"
    using assms(3) by (auto simp: decky_mutation_def built_def)
  have "\<exists>w'. mutate_decky env (fd_name d) ''scheduled'' w = (Inl ValueError, w') \<and>
      mw_deployment w' = Some (cfg\<lparr>fc_deckies := d\<lparr>fd_services := new, fd_last_mutated := me_now env\<rparr> # ds\<rparr>) \<and>
      (me_log_writable env \<longrightarrow> length (mw_lines w') = length (mw_lines w) + 1)"
    using assms(1,2,4,7-9) new topic
    by (simp add: mutate_decky_def Let_def reify_def bindS_def emit_decky_mutated_def)
  then show ?thesis
    using assms(1,2,5,6) by (auto simp: mutate_all_def mutate_due_def Let_def bindS_step)
qed

theorem dotted_decky_stops_rotation_witness:
  "\<exists>w'. mutate_all demo_flat_env False None (demo_flat_world ''web.lan'') = (Inl ValueError, w') \<and> length (mw_lines w') = 1"
proof -
  define d where "d = (demo_fleet_decky None)\<lparr>fd_name := ''web.lan''\<rparr>"
  let ?cfg = "\<lparr>fc_mode = ''unihost'', fc_mutate_interval = Some 30, fc_deckies = [d]\<rparr>"
  have w: "mw_deployment (demo_flat_world ''web.lan'') = Some ?cfg" "mw_lines (demo_flat_world ''web.lan'') = []" by (simp_all add: demo_flat_world_def d_def)
  have "CHR ''.'' \<in> set (fd_name d)" "service_pool demo_flat_env d \<noteq> []" "interval_of ?cfg d = Some 30"
    "of_int (30 * 60) \<le> me_now demo_flat_env - fd_last_mutated d"
    by (simp_all add: d_def demo_fleet_decky_def service_pool_def demo_flat_env_def interval_of_def)
  with dotted_decky_stops_rotation [OF w(1), of d "[]" demo_flat_env 30] w(2) show ?thesis by (force simp: demo_flat_env_def)
qed

end
