(* ===== verification/Spec2Isabelle.thy ===== *)
theory Spec2Isabelle
  imports Topology_Roundtrip Topology_Generator_Live Swarm_Resync Bus_Server Clustering
    Fleet_Mutator
begin

text \<open>
  DECNET builds honeypot networks.  Its MazeNET part, modelled here, plans a nested topology of LANs
  and decoy hosts (deckies), stores it, validates it, renders it as a Docker Compose file, deploys it
  on the master or on an agent and changes it while it is live.  Beside it stand the event bus that
  wakes its workers, the log lines by which the deckies report and their correlation, the clustering of
  the attackers they observe, and the reconciler and the mutator of the flat fleet.

  \<^bold>\<open>Parts of the program and their theories\<close> (paths under \<open>src/decnet/\<close>):

  \<^item> \<open>Decnet_Prelude\<close>: exceptions as the datatype \<open>exn\<close>; \<open>'a result\<close> is a pure function that may raise,
    \<open>('a, 's) op\<close> one that also changes a state \<open>'s\<close>; folds, dicts as association lists in insertion
    order.  \<open>Py_Random\<close>: the calls of \<open>random.Random\<close> over an arbitrary sequence of draws.
    \<open>Py_Json\<close>: JSON values.  \<open>Op_Hoare\<close>: pre- and postconditions of operations.
  \<^item> \<open>Ipv4\<close>: the part of \<open>ipaddress\<close> the code calls (text, networks, hosts, overlap).
  \<^item> \<open>Topology_Status\<close>: \<open>topology/status.py\<close>, the status machine.
  \<^item> \<open>Topology_Allocator\<close>: \<open>topology/allocator.py\<close>, both allocators as states with one definition per
    method, and their common contract as a locale interpreted for each.
  \<^item> \<open>Topology_Config\<close>, \<open>Topology_Generator\<close>, \<open>Topology_Generator_Live\<close>: \<open>topology/config.py\<close> and
    \<open>topology/generator.py\<close>; the last theory shows that generation succeeds when there is room.
  \<^item> \<open>Topology_Repo\<close>, \<open>Topology_Repo_Inv\<close>, \<open>Topology_Commands\<close>: the tables of \<open>web/db/models/topology.py\<close>
    as lists of records and every method of \<open>web/db/sqlmodel_repo/topology/\<close> as one session (all of
    its changes or none); the invariant \<open>repo_wf\<close>, optimistic locking, and the state machine \<open>reach\<close>
    whose steps are the repository commands.
  \<^item> \<open>Topology_Persistence\<close>, \<open>Topology_Roundtrip\<close>: \<open>topology/persistence.py\<close>.
  \<^item> \<open>Topology_Validate\<close>, \<open>Topology_Validate_Sound\<close>: \<open>topology/validate.py\<close> and the declarative
    specification \<open>valid_topology\<close> it is proved equivalent to.
  \<^item> \<open>Topology_Compose\<close>: \<open>topology/compose.py\<close>.
  \<^item> \<open>Mutator_Docker\<close>, \<open>Mutator_Ops\<close>, \<open>Mutator_Inv\<close>: \<open>mutator/ops.py\<close>; the state is a \<open>world\<close> of the
    repository, the Docker commands issued and the events published.  The locale \<open>edit_invariant\<close>
    states what an invariant must survive (each repository edit the operations use) and concludes that
    every dispatched operation keeps it; it is interpreted for well-formedness, reachability, the
    mutation queue and the topology table.
  \<^item> \<open>Mutator_Engine\<close>: the reconciler of \<open>mutator/engine.py\<close>.
  \<^item> \<open>Json_Dumps\<close>, \<open>Topology_Hash\<close>: \<open>json.dumps\<close> with sorted keys and \<open>topology/hashing.py\<close>, the hash by
    which master and agent compare what is applied.
  \<^item> \<open>Topology_Deploy\<close>, \<open>Topology_Deploy_Inv\<close>: the topology half of \<open>engine/deployer.py\<close> on the same world,
    with the compose command line, the compose file and the agents as further things that answer.
  \<^item> \<open>Simulation\<close>, \<open>Agent_Topology\<close>: \<open>agent/topology_store.py\<close>, \<open>agent/topology_ops.py\<close> and the topology
    endpoints of \<open>agent/app.py\<close>; the locale \<open>simulation\<close> is interpreted for the agent's table and a
    single slot.
  \<^item> \<open>Swarm_Resync\<close>: the comparison of hashes in \<open>web/router/swarm/api_heartbeat.py\<close> and the resync pass
    of \<open>mutator/engine.py\<close>.
  \<^item> \<open>Bus_Topics\<close>, \<open>Bus_Protocol\<close>, \<open>Bus_Server\<close>: \<open>bus/topics.py\<close>, \<open>bus/base.py\<close>, \<open>bus/protocol.py\<close>,
    \<open>bus/unix_server.py\<close> and \<open>bus/fake.py\<close>; a server is the list of its connections, a reader the bytes
    its peer has sent.
  \<^item> \<open>Clustering\<close>: \<open>clustering/impl/similarity.py\<close> and \<open>cluster_observations\<close> of
    \<open>clustering/impl/connected_components.py\<close>.
  \<^item> \<open>Syslog\<close>, \<open>Correlation\<close>: \<open>logging/syslog_formatter.py\<close>, \<open>correlation/parser.py\<close>,
    \<open>correlation/graph.py\<close>, \<open>correlation/engine.py\<close> and the log line of \<open>mutator/events.py\<close>.
  \<^item> \<open>Fleet_Reconciler\<close>: \<open>fleet/reconciler.py\<close> and the fleet table of \<open>web/db/sqlmodel_repo/fleet.py\<close>.
  \<^item> \<open>Fleet_Mutator\<close>: the rotation of services of the flat fleet in \<open>mutator/engine.py\<close>.

  \<^bold>\<open>How they interact.\<close>  The generator reads the subnets claimed in the repository and emits a plan;
  \<open>persist\<close> writes it row by row; \<open>hydrate\<close> reads it back and completes missing addresses; the
  validator and the composer work on the hydrated form; operators queue mutations, the reconciler
  claims them, the operations edit the repository and Docker and check the result.  Deployment
  validates the hydrated topology, creates its networks, writes the compose file and brings it up, or
  sends it with its hash to the agent it is pinned to; the status machine records how far it came.
  The bus carries the queued mutations to the reconciler (the patterns of its subscribers are in
  \<open>Bus_Topics\<close>); the deckies and the mutator write log lines that the correlation engine reads.

  \<^bold>\<open>What is shown.\<close>  C1-C4: what the generator emits is well formed, can be stored, read back and
  passes the validator, and generation succeeds when the address space suffices.  C5, C6: the
  validator is exact.  C7-C12: invariants and transactions of the repository.  C13, C14: allocators.
  C15-C18: live mutations and the reconciler.  C19: the compose file.  C20, C21: the applied-state
  hash.  C22-C27: deployment, rollback and teardown.  C28-C30 (in \<open>Swarm_Resync\<close>): agents and the
  resync protocol.  C31, C32 (in \<open>Bus_Server\<close>): delivery and closing on the bus.  C33 (in
  \<open>Clustering\<close>): clusters are connected components of strong matches.  C34 (in \<open>Syslog\<close>): log lines are
  read back.  C35, C36 (in \<open>Correlation\<close>): the traversals found are exact, and the mutator's log lines
  reach them.  C37, C38 (in \<open>Fleet_Reconciler\<close>): the fleet table converges to the state file and Docker,
  except for deckies of other hosts.  C39, C40 (in \<open>Fleet_Mutator\<close>): the rotation of services.

  \<^bold>\<open>Bounds and loops.\<close>  No definition uses fuel: loops are structural, or have a termination proof
  (the breadth-first search by the unvisited LANs, draining by the pending mutations, the retry loops
  of the service picker and of compose by their attempts, the readers of frames and parameters by the
  text left).  The search for a root in the union-find is a partial function that is shown to return.

  \<^bold>\<open>Assumptions.\<close>  Random draws, Docker's answers, the service plugins, the clock, SHA-256, orjson, the
  reading of timestamps and the text of exceptions are arguments of the model; nothing is assumed of
  them but, in C20, that the two texts compared do not collide and, in C31, that orjson reads back the
  event it wrote, and, in C35, that iterating a set visits each element once.  Primary keys are increasing
  numbers instead of random UUIDs.  One session of the database is atomic.

  \<^bold>\<open>Not modelled.\<close>  The services and their container images, the log collector and ingester, the
  attacker profiling and fingerprinting pipelines, the web API and user interface, the command line,
  the clients of the bus, the deployment of the flat fleet and the update and key management of the swarm: they consist
  of I/O, of third-party protocols or of statistics over traffic.  Of the clustering, the part that
  writes identities is left out; of the bus server, the socket and the writer tasks.
\<close>

section \<open>Inputs shared by the witnesses\<close>

definition demo_config :: topology_config where
  "demo_config = \<lparr>cfg_name = ''lab'', cfg_mode = ''unihost'', cfg_depth = 1, cfg_branching_factor = 2,
     cfg_deckies_per_lan_min = 1, cfg_deckies_per_lan_max = 2, cfg_bridge_forward_probability = 1 / 2,
     cfg_cross_edge_probability = 0, cfg_subnet_base_prefix = ''172.20'', cfg_randomize_services = False,
     cfg_services_explicit = Some [''ssh''], cfg_seed = None\<rparr>"

definition demo_rng :: rng where
  "demo_rng = \<lparr>rng_pos = 0, rng_seq = (\<lambda>_. 0)\<rparr>"

lemma demo_config_ok: "check_config demo_config = Inr ()" "max_lans demo_config = 3" "max_deckies demo_config = 2"
  by (simp_all add: demo_config_def check_config_def check_min_max_def base_prefix_pattern_def
      digits_between_def is_digit_def max_lans_def max_deckies_def services_given_def eval_nat_numeral)

lemma demo_subnets: "\<exists>sa. SubnetAllocator_init (cfg_subnet_base_prefix demo_config) {} = Inr sa \<and> card (sa_free sa) = 256"
proof -
  have "net_str \<lparr>net_addr = 2886991872, net_prefix = 16\<rparr> = ''172.20.0.0/16''"
    by (simp add: net_str_def ip_str_def nat_str.simps digit_char_def char_of_def bit_0)
  moreover have "parse_base (cfg_subnet_base_prefix demo_config) = parse_net False ''172.20.0.0/16''"
    by (simp add: demo_config_def parse_base_def strip_def rstrip_by_def is_space_def)
  ultimately have "parse_base (cfg_subnet_base_prefix demo_config) = Inr \<lparr>net_addr = 2886991872, net_prefix = 16\<rparr>"
    using parse_net_str [of "\<lparr>net_addr = 2886991872, net_prefix = 16\<rparr>" False] by (simp add: net_wf_def)
  then obtain sa where sa: "SubnetAllocator_init (cfg_subnet_base_prefix demo_config) {} = Inr sa" "net_prefix (sa_parent sa) = 16"
    by (simp add: SubnetAllocator_init_def)
  then show ?thesis using sa_free_init [OF sa(1)] by simp
qed

lemma demo_reserved: "reserved_subnets empty_repo = {}"
  by (auto simp: reserved_subnets_def empty_repo_def list_lans_for_topology_def)

lemma demo_plan: "\<exists>p. generate [''ssh''] demo_config {} demo_rng = Inr p"
proof -
  from demo_subnets obtain sa where "SubnetAllocator_init (cfg_subnet_base_prefix demo_config) {} = Inr sa"
    "card (sa_free sa) = 256" by blast
  from generate_total [OF demo_config_ok(1) this(1)] this(2) show ?thesis by (simp add: demo_config_ok)
qed

lemma demo_services: "cfg_services_explicit demo_config = Some xs \<Longrightarrow> set xs \<subseteq> set [''ssh'']"
  by (simp add: demo_config_def)

lemma generate_config: "generate names c reserved r = Inr p \<Longrightarrow> gt_config p = c"
  by (auto simp: generate_def Let_def split: prod.splits)

section \<open>From a configuration to a deployable topology\<close>

text \<open>C1. A plan generated for a reachable database, under a name that is not taken, is written
  completely, is read back, and passes every rule of the validator: what the generator emits can be
  deployed as it is.\<close>

theorem generated_topology_is_valid:
  assumes "reach r"
    and "generate known c (reserved_subnets r) rng = Inr p"
    and "\<And>xs. cfg_services_explicit c = Some xs \<Longrightarrow> set xs \<subseteq> set known"
    and "cfg_name c \<notin> t_name ` set (r_topologies r)"
  shows "\<exists>tid h. fst (persist now p target r) = Inr tid \<and>
    hydrate tid (snd (persist now p target r)) = Inr (Some h) \<and> validate known h = Inr []"
proof -
  have wf: "plan_wf (set known) (reserved_subnets r) p"
    by (rule generate_plan_wf [OF assms(2)]) (use assms(3) in auto)
  have "cfg_name (gt_config p) \<notin> t_name ` set (r_topologies r)"
    using assms(4) generate_config [OF assms(2)] by simp
  note rt = hydrate_persist [OF reach_repo_wf [OF assms(1)] this plan_wf_writable [OF wf] plan_wf_complete [OF wf]]
  have "validate known (plan_view now (r_next_id r) p target) = Inr []"
    using validate_iff_valid [OF plan_view_edges_known] plan_view_valid [OF wf] wf by blast
  with rt show ?thesis by blast
qed

theorem generated_topology_is_valid_witness:
  "\<exists>p tid h. generate [''ssh''] demo_config (reserved_subnets empty_repo) demo_rng = Inr p \<and>
     fst (persist 7 p None empty_repo) = Inr tid \<and>
     hydrate tid (snd (persist 7 p None empty_repo)) = Inr (Some h) \<and> validate [''ssh''] h = Inr []"
proof -
  obtain p where p: "generate [''ssh''] demo_config (reserved_subnets empty_repo) demo_rng = Inr p"
    using demo_plan demo_reserved by auto
  from generated_topology_is_valid [OF reach.init p demo_services, of 7 None] p
  show ?thesis by (simp add: empty_repo_def)
qed

text \<open>C2. Every plan the generator returns is well formed: the LANs form a tree below a single DMZ
  with pairwise distinct subnets outside the reserved ones, every LAN has a decky, a LAN and its
  parent share a decky, a decky has one address in exactly the LANs it is attached to, no address is
  used twice in a LAN, and the services are taken from the given names.\<close>

theorem generated_plan_well_formed:
  assumes "generate names c reserved rng = Inr p"
    and "cfg_randomize_services c \<Longrightarrow> set names \<subseteq> S"
    and "\<And>xs. cfg_services_explicit c = Some xs \<Longrightarrow> set xs \<subseteq> S"
  shows "plan_wf S reserved p"
  using assms by (rule generate_plan_wf)

theorem generated_plan_well_formed_witness:
  "\<exists>p. generate [''ssh''] demo_config {} demo_rng = Inr p \<and> plan_wf {''ssh''} {} p"
proof -
  from demo_plan obtain p where p: "generate [''ssh''] demo_config {} demo_rng = Inr p" by blast
  from generated_plan_well_formed [OF p, of "{''ssh''}"] demo_services p show ?thesis by auto
qed

text \<open>C3. Generation succeeds whatever the random draws are, when the configuration passed its
  checks, the base network has a free subnet for every LAN of the largest tree the parameters allow,
  and a LAN has room for its deckies and two more addresses per LAN.\<close>

theorem generation_succeeds:
  assumes "check_config c = Inr ()"
    and "SubnetAllocator_init (cfg_subnet_base_prefix c) reserved = Inr sa" "max_lans c \<le> card (sa_free sa)"
    and "max_deckies c + 2 * max_lans c \<le> 253"
  shows "\<exists>p. generate names c reserved rng = Inr p"
  using assms by (rule generate_total)

theorem generation_succeeds_witness:
  "check_config demo_config = Inr () \<and> (\<exists>p. generate [''ssh''] demo_config {} demo_rng = Inr p)"
proof -
  from demo_subnets obtain sa where sa: "SubnetAllocator_init (cfg_subnet_base_prefix demo_config) {} = Inr sa"
    "card (sa_free sa) = 256" by blast
  from generation_succeeds [OF demo_config_ok(1) sa(1), of "[''ssh'']" demo_rng] sa(2)
  show ?thesis by (simp add: demo_config_ok)
qed

text \<open>C4. Persisting a plan and hydrating it again gives back the plan: the rows hold the LANs,
  deckies and edges of the plan, in the order the queries return them, and the backfill of missing
  addresses changes nothing.\<close>

theorem persist_hydrate_roundtrip:
  assumes "repo_wf r" and "cfg_name (gt_config p) \<notin> t_name ` set (r_topologies r)"
    and "plan_writable p" "plan_complete p"
  shows "fst (persist now p target r) = Inr (r_next_id r) \<and>
    hydrate (r_next_id r) (snd (persist now p target r)) = Inr (Some (plan_view now (r_next_id r) p target))"
  using hydrate_persist [OF assms] by blast

theorem persist_hydrate_roundtrip_witness:
  "\<exists>p. plan_wf {''ssh''} {} p \<and>
     hydrate 0 (snd (persist 7 p None empty_repo)) = Inr (Some (plan_view 7 0 p None))"
proof -
  from demo_plan obtain p where p: "generate [''ssh''] demo_config {} demo_rng = Inr p" by blast
  have wf: "plan_wf {''ssh''} {} p"
    by (rule generate_plan_wf [OF p]) (use demo_services in auto)
  from persist_hydrate_roundtrip [OF reach_repo_wf [OF reach.init] _ plan_wf_writable [OF wf] plan_wf_complete [OF wf], of 7 None]
    wf show ?thesis by (auto simp: empty_repo_def)
qed

section \<open>The validator\<close>

text \<open>C5. When every edge of a hydrated topology ends in one of its LANs, the validator returns, and
  it returns no issue exactly for the valid topologies: one DMZ from which every LAN is reached over
  shared deckies, no unattached decky, unique names, addresses inside their LAN and used once,
  parsable and disjoint subnets, known services and service settings of own services only.\<close>

theorem validate_sound_and_complete:
  assumes "edges_known h"
  shows "(\<exists>issues. validate known h = Inr issues) \<and> (validate known h = Inr [] \<longleftrightarrow> valid_topology known h)"
  using validate_total [OF assms] validate_iff_valid [OF assms] by blast

definition demo_hydrated :: hydrated where
  "demo_hydrated = \<lparr>h_topology = \<lparr>t_id = 0, t_name = ''t'', t_mode = ''unihost'', t_target_host_uuid = None,
     t_config_snapshot = None, t_status = PENDING, t_status_changed_at = 0, t_created_at = 0, t_version = 1,
     t_needs_resync = False, t_email_personas = ''[]'', t_language_default = ''en''\<rparr>,
     h_lans = [], h_deckies = [], h_edges = []\<rparr>"

theorem validate_sound_and_complete_witness:
  "(\<exists>h. edges_known h \<and> validate [''ssh''] h = Inr [] \<and> valid_topology [''ssh''] h) \<and>
   edges_known demo_hydrated \<and> validate [] demo_hydrated \<noteq> Inr []"
proof -
  have e: "edges_known demo_hydrated" by (simp add: edges_known_def demo_hydrated_def)
  have "\<not> valid_topology [] demo_hydrated" by (simp add: valid_topology_def demo_hydrated_def)
  with validate_sound_and_complete [OF e, of "[]"] e have bad: "edges_known demo_hydrated \<and> validate [] demo_hydrated \<noteq> Inr []"
    by blast
  from demo_plan obtain p where p: "generate [''ssh''] demo_config {} demo_rng = Inr p" by blast
  have wf: "plan_wf (set [''ssh'']) {} p" by (rule generate_plan_wf [OF p]) (use demo_services in auto)
  note good = plan_view_edges_known [OF wf, of 7 0 None] plan_view_valid [OF wf, of 7 0 None]
  from validate_sound_and_complete [OF good(1), of "[''ssh'']"] good bad show ?thesis by blast
qed

text \<open>C6. The breadth-first search of the connectivity rule ends, raises nothing, and reports no
  issue exactly when every LAN can be reached from the DMZ over deckies attached to two LANs.\<close>

theorem dmz_reachability_is_exact:
  assumes "edges_known h" and "find l_is_dmz (h_lans h) = Some dmz"
  shows "\<exists>issues. check_all_lans_connected_to_dmz h = Inr issues \<and>
    (issues = [] \<longleftrightarrow> (\<forall>l \<in> set (h_lans h). (l_id dmz, l_id l) \<in> (bridged (h_edges h))\<^sup>*))"
  using assms by (rule connected_check)

definition demo_lan :: "nat \<Rightarrow> string \<Rightarrow> bool \<Rightarrow> lan_row" where
  "demo_lan i subnet dmz = \<lparr>l_id = i, l_topology_id = 0, l_name = lan_name i, l_docker_network_id = None,
     l_subnet = subnet, l_is_dmz = dmz, l_x = None, l_y = None\<rparr>"

definition demo_split :: hydrated where
  "demo_split = demo_hydrated\<lparr>h_lans := [demo_lan 1 ''10.0.1.0/24'' True, demo_lan 2 ''10.0.2.0/24'' False]\<rparr>"

theorem dmz_reachability_is_exact_witness:
  "\<exists>issues. check_all_lans_connected_to_dmz demo_split = Inr issues \<and> issues \<noteq> []"
proof -
  have "edges_known demo_split" "find l_is_dmz (h_lans demo_split) = Some (demo_lan 1 ''10.0.1.0/24'' True)"
    by (simp_all add: edges_known_def demo_split_def demo_hydrated_def demo_lan_def)
  moreover have "bridged (h_edges demo_split) = {}"
    by (simp add: bridged_def demo_split_def demo_hydrated_def)
  ultimately show ?thesis
    using dmz_reachability_is_exact [of demo_split "demo_lan 1 ''10.0.1.0/24'' True"]
    by (auto simp: demo_split_def demo_lan_def)
qed

section \<open>The database\<close>


definition demo_cmds :: "cmd list" where
  "demo_cmds = [CCreate 1 ''t'' ''unihost'' None None,
     CEdit (EAddLan 0 ''LAN-00'' ''10.0.1.0/24'' True None None) (Some 1),
     CTransition 2 0 DEPLOYING None]"

definition demo_repo :: repo where
  "demo_repo = run_cmds demo_cmds empty_repo"

lemmas demo_eval = demo_repo_def demo_cmds_def empty_repo_def create_topology_def add_lan_def
  session_def discard_def transition_status_cases find_topology_def check_and_bump_version_def Let_def
  update_topology_status_def update_topology_def assert_transition_def TopologyStatus_ALL_def LEGAL_def
  lan_name_taken_def topology_exists_def

lemma demo_reach: "reach demo_repo"
  unfolding demo_repo_def by (rule reach_run_cmds [OF reach.init]) (simp add: demo_eval)




text \<open>C9. Optimistic locking: among any sequence of edits, with anything in between, at most one edit
  that names version v of a topology is accepted; every other such edit raises and changes nothing.\<close>

theorem one_edit_per_version: "topo_version tid r = Some w \<Longrightarrow> wins tid v es r \<le> 1"
proof (induction es arbitrary: r w)
  case (Cons e es)
  obtain c ev where e: "e = (c, ev)" by fastforce
  from edits.version_grows [OF Cons.prems, of c ev] obtain w' where
    w': "topo_version tid (snd (run_edit c ev r)) = Some w'" by blast
  show ?case
  proof (cases "ev = Some v \<and> edit_target c r = Some tid \<and> fst (run_edit c ev r) = Inr ()")
    case True
    then obtain r' where r': "run_edit c (Some v) r = (Inr (), r')" by (cases "run_edit c ev r") auto
    from edits.returned [OF r'] True have "topo_version tid r' = Some (v + 1)" by blast
    then have "wins tid v es r' = 0" by (rule wins_newer) simp
    with True r' e show ?thesis by simp
  qed (use Cons.IH [OF w'] e in auto)
qed simp

theorem one_edit_per_version_witness:
  "wins 0 2 [(EAddLan 0 ''LAN-01'' ''10.0.2.0/24'' False None None, Some 2),
             (EAddLan 0 ''LAN-02'' ''10.0.3.0/24'' False None None, Some 2)] demo_repo \<le> 1 \<and>
   topo_version 0 demo_repo = Some 2"
proof -
  have "topo_version 0 demo_repo = Some 2" by (simp add: demo_eval topo_version_def)
  with one_edit_per_version show ?thesis by blast
qed

text \<open>C10. Deleting a topology removes its row and exactly its LANs, deckies, edges, status events
  and mutations, reports whether it existed, and keeps the tables well formed.\<close>

theorem delete_topology_cascade_exact:
  assumes "repo_wf r"
  shows "delete_topology_cascade tid r =
     (Inr (find_topology tid r \<noteq> None),
      r\<lparr>r_topologies := filter (\<lambda>t. t_id t \<noteq> tid) (r_topologies r),
        r_lans := filter (\<lambda>l. l_topology_id l \<noteq> tid) (r_lans r),
        r_deckies := filter (\<lambda>d. d_topology_id d \<noteq> tid) (r_deckies r),
        r_edges := filter (\<lambda>e. e_topology_id e \<noteq> tid) (r_edges r),
        r_events := filter (\<lambda>s. s_topology_id s \<noteq> tid) (r_events r),
        r_mutations := filter (\<lambda>m. m_topology_id m \<noteq> tid) (r_mutations r)\<rparr>) \<and>
    repo_wf (snd (delete_topology_cascade tid r))"
  using delete_topology_cascade_result delete_topology_cascade_wf [OF assms] by blast

theorem delete_topology_cascade_exact_witness:
  "fst (delete_topology_cascade 0 demo_repo) = Inr True \<and> repo_wf (snd (delete_topology_cascade 0 demo_repo))"
proof -
  have "find_topology 0 demo_repo \<noteq> None" by (simp add: demo_eval)
  note exact = this delete_topology_cascade_exact [OF reach_repo_wf [OF demo_reach], of 0]
  have "fst (delete_topology_cascade 0 demo_repo) = Inr True" using exact(1) conjunct1 [OF exact(2)] by simp
  with conjunct2 [OF exact(2)] show ?thesis by blast
qed


definition demo_payload :: mutation_payload where
  "demo_payload = \<lparr>mp_name = Some ''LAN-00'', mp_decky = None, mp_lan = None, mp_subnet = None, mp_is_dmz = False,
     mp_services = None, mp_archetype = None, mp_forwards_l3 = False, mp_ip = None, mp_force = False, mp_x = None,
     mp_y = None, mp_patch_config = None, mp_patch_name = None, mp_patch_subnet = None, mp_patch_is_dmz = None\<rparr>"

definition demo_queue :: "cmd list" where
  "demo_queue = [CEdit (EEnqueue 5 0 ''remove_lan'' demo_payload) None, CEdit (EEnqueue 6 0 ''remove_lan'' demo_payload) None]"

lemmas demo_queue_eval = demo_queue_def demo_eval enqueue_topology_mutation_def oldest_mutation_def claim_next_mutation_def

lemma demo_queue_wf:
  "repo_wf (run_cmds demo_queue demo_repo)" "repo_wf (run_cmds (demo_queue @ [CClaim 0]) demo_repo)"
  by (rule reach_repo_wf, rule reach_run_cmds [OF demo_reach], simp add: demo_queue_eval)+


text \<open>C12. With an older mutation still marked as being applied, claiming marks the oldest pending
  mutation but returns the older one: the claimed row is not the one that is handed to the worker.\<close>

theorem claim_returns_stale_row:
  assumes "repo_wf r" and "oldest_mutation tid M_PENDING r = Some m"
    and "oldest_mutation tid M_APPLYING r = Some a" and "m_requested_at a < m_requested_at m"
  shows "\<exists>b. claim_next_mutation tid r = (Inr (Some b), claimed m r) \<and> m_id b \<noteq> m_id m \<and>
    m_requested_at b = m_requested_at a"
  using assms by (rule claim_stale)

theorem claim_returns_stale_row_witness:
  "\<exists>b r'. claim_next_mutation 0 (run_cmds (demo_queue @ [CClaim 0]) demo_repo) = (Inr (Some b), r') \<and> m_requested_at b = 5"
proof -
  have "\<exists>m. oldest_mutation 0 M_PENDING (run_cmds (demo_queue @ [CClaim 0]) demo_repo) = Some m \<and> m_requested_at m = 6"
    "\<exists>a. oldest_mutation 0 M_APPLYING (run_cmds (demo_queue @ [CClaim 0]) demo_repo) = Some a \<and> m_requested_at a = 5"
    by (simp_all add: demo_queue_eval)
  then obtain m a where ma: "oldest_mutation 0 M_PENDING (run_cmds (demo_queue @ [CClaim 0]) demo_repo) = Some m"
    "oldest_mutation 0 M_APPLYING (run_cmds (demo_queue @ [CClaim 0]) demo_repo) = Some a"
    "m_requested_at a = 5" "m_requested_at m = 6" by blast
  from claim_returns_stale_row [OF demo_queue_wf(2) ma(1,2)] ma(3,4) show ?thesis by auto
qed

section \<open>Allocators and addresses\<close>


lemma demo_ip_allocator: "\<exists>a. IPAllocator_init ''10.0.1.0/24'' = Inr a \<and> card (ia_free a) = 253"
proof -
  let ?n = "\<lparr>net_addr = 167772416, net_prefix = 24\<rparr>"
  have s: "net_str ?n = ''10.0.1.0/24''"
    by (simp add: net_str_def ip_str_def nat_str.simps digit_char_def char_of_def bit_0)
  have p: "parse_net False (net_str ?n) = Inr ?n" by (rule parse_net_str) (simp add: net_wf_def)
  then obtain a where a: "IPAllocator_init (net_str ?n) = Inr a" by (simp add: IPAllocator_init_def Let_def)
  with IPAllocator_init_invar [OF a] p have "ia_net a = ?n" by simp
  with room_init [OF a] a show ?thesis unfolding s by simp
qed




section \<open>The status machine\<close>

text \<open>The status check accepts exactly the thirteen transitions of the table and answers every
  other pair with TopologyStatusError; from every status a topology can still be torn down, and no
  sequence of transitions leads back to pending.\<close>

lemma status_machine:
  "(assert_transition s t = Inr () \<longleftrightarrow> (s, t) \<in>
     {(PENDING, DEPLOYING), (PENDING, TORN_DOWN), (DEPLOYING, ACTIVE), (DEPLOYING, FAILED), (DEPLOYING, DEGRADED),
      (DEPLOYING, TEARING_DOWN), (ACTIVE, DEGRADED), (ACTIVE, TEARING_DOWN), (DEGRADED, ACTIVE), (DEGRADED, TEARING_DOWN),
      (FAILED, TEARING_DOWN), (TEARING_DOWN, TORN_DOWN), (TEARING_DOWN, DEGRADED)}) \<and>
   (assert_transition s t \<noteq> Inr () \<longleftrightarrow> assert_transition s t = Inl TopologyStatusError) \<and>
   (s \<in> set TopologyStatus_ALL \<longleftrightarrow> status_step\<^sup>*\<^sup>* s TORN_DOWN) \<and> \<not> status_step\<^sup>+\<^sup>+ s PENDING"
proof -
  have "s \<in> set TopologyStatus_ALL" if "status_step\<^sup>*\<^sup>* s TORN_DOWN"
    using that by (cases rule: converse_rtranclpE) (auto simp: status_step_table TopologyStatus_ALL_def)
  then show ?thesis
    using teardown_reachable [of s] never_back_to_pending [of s PENDING]
    unfolding status_step_iff_Inr status_step_iff_Inl status_step_table [symmetric] by blast
qed

section \<open>Live mutations\<close>

text \<open>A live topology with one LAN and one decky on it, and a queued renaming of that LAN.\<close>

definition demo_decky_config :: decky_config where
  "demo_decky_config = empty_config\<lparr>dc_name := Some ''decky-00'', dc_services := Some [''ssh''],
     dc_ips_by_lan := Some [(''LAN-00'', ''10.0.1.5'')]\<rparr>"

definition demo_rename :: mutation_payload where
  "demo_rename = demo_payload\<lparr>mp_patch_name := Some ''core''\<rparr>"

definition demo_live_cmds :: "cmd list" where
  "demo_live_cmds = [CCreate 1 ''t'' ''unihost'' None None,
     CEdit (EAddLan 0 ''LAN-00'' ''10.0.1.0/24'' True None None) None,
     CEdit (EAddDecky 1 0 ''decky-00'' [''ssh''] (Some demo_decky_config) None None None) None,
     CEdit (EAddEdge 0 2 1 False False) None,
     CTransition 2 0 DEPLOYING None, CTransition 3 0 ACTIVE None,
     CEdit (EEnqueue 5 0 ''update_lan'' demo_rename) None]"

definition demo_live :: repo where
  "demo_live = run_cmds demo_live_cmds empty_repo"

definition demo_world :: "repo \<Rightarrow> world" where
  "demo_world r = \<lparr>w_repo = r, w_docker = [], w_bus = []\<rparr>"

definition demo_plugin :: service_plugin where
  "demo_plugin = \<lparr>svc_fleet_singleton = False, svc_ports = [22], svc_udp_ports = (\<lambda>_. []),
     svc_compose_fragment = (\<lambda>_ _. [(''image'', JStr ''decnet/ssh'')])\<rparr>"

definition demo_env :: mutator_env where
  "demo_env = \<lparr>env_docker = (\<lambda>_ _. DkError True [] []), env_services = [''ssh'' \<mapsto> demo_plugin], env_known = [''ssh''],
     env_id_str = (\<lambda>_. ''0''), env_now = 9, env_reason = (\<lambda>_. [])\<rparr>"

lemmas demo_live_eval = demo_live_def demo_live_cmds_def demo_eval add_topology_decky_def add_topology_edge_def
  enqueue_topology_mutation_def decky_name_taken_def

lemma demo_live_reach: "reach demo_live"
  unfolding demo_live_def by (rule reach_run_cmds [OF reach.init]) (simp add: demo_live_eval)

lemma demo_live_rows:
  "map l_id (list_lans_for_topology 0 demo_live) = [1]" "map l_name (list_lans_for_topology 0 demo_live) = [''LAN-00'']"
  "map l_subnet (list_lans_for_topology 0 demo_live) = [''10.0.1.0/24'']"
  "map d_uuid (list_topology_deckies 0 demo_live) = [2]"
  "map d_decky_config (list_topology_deckies 0 demo_live) = [Some demo_decky_config]"
  "list_topology_deckies 0 demo_live = r_deckies demo_live"
  by (simp_all add: demo_live_eval list_lans_for_topology_def list_topology_deckies_def)

lemma demo_live_hydrated:
  "\<exists>h. hydrate 0 demo_live = Inr (Some h) \<and> h_lans h = list_lans_for_topology 0 demo_live"
proof -
  have "parse_net False ''10.0.1.0/24'' = Inr \<lparr>net_addr = 167772416, net_prefix = 24\<rparr>"
  proof -
    have "net_str \<lparr>net_addr = 167772416, net_prefix = 24\<rparr> = ''10.0.1.0/24''"
      by (simp add: net_str_def ip_str_def nat_str.simps digit_char_def char_of_def bit_0)
    then show ?thesis using parse_net_str [of "\<lparr>net_addr = 167772416, net_prefix = 24\<rparr>" False] by (simp add: net_wf_def)
  qed
  then have nets: "\<forall>l \<in> set (list_lans_for_topology 0 demo_live). \<exists>n. parse_net False (l_subnet l) = Inr n"
    using demo_live_rows(3) by auto
  have "\<forall>d \<in> set (list_topology_deckies 0 demo_live).
      decky_complete (list_lans_for_topology 0 demo_live) (list_topology_edges 0 demo_live) d"
    using demo_live_rows(2,5) by (auto simp: decky_complete_def demo_decky_config_def)
  then have "backfill_decky_configs (list_lans_for_topology 0 demo_live) (list_topology_deckies 0 demo_live)
      (list_topology_edges 0 demo_live) = Inr (list_topology_deckies 0 demo_live)"
    using nets by (intro backfill_complete) (simp_all add: demo_live_rows(4))
  moreover have "find_topology 0 demo_live \<noteq> None" by (simp add: demo_live_eval)
  ultimately show ?thesis by (auto simp: hydrate_def)
qed



text \<open>C16. Renaming a LAN that a decky of the topology has an address on always raises, and the new
  name is in the database nevertheless: the row is written before the check and nothing undoes it.\<close>

theorem renamed_lan_stays_written:
  assumes "mut_ok tid (w_repo w)" and "hydrate tid (w_repo w) = Inr (Some h)"
    and "mp_name payload = Some name" "mp_patch_name payload = Some new" "new \<noteq> name"
      "mp_patch_subnet payload = None" "mp_patch_is_dmz payload = None"
    and "lan_by_name h name = Some lan" and "lan_by_name h new = None"
    and "d \<in> set (r_deckies (w_repo w))" "d_topology_id d = tid" "name \<in> fst ` set (ips_of (config_of d))"
  shows "\<exists>e w'. apply_update_lan env tid payload w = (Inl e, w') \<and>
    (\<exists>l \<in> set (r_lans (w_repo w')). l_id l = l_id lan \<and> l_name l = new)"
  using assms by (rule rename_lan_raises)

theorem renamed_lan_stays_written_witness:
  "\<exists>e w'. apply_update_lan demo_env 0 demo_rename (demo_world demo_live) = (Inl e, w') \<and>
     (\<exists>l \<in> set (r_lans (w_repo w')). l_id l = 1 \<and> l_name l = ''core'')"
proof -
  let ?w = "demo_world demo_live"
  have ok: "mut_ok 0 (w_repo ?w)"
    using reach_repo_wf [OF demo_live_reach] by (simp add: mut_ok_def demo_world_def) (simp add: demo_live_eval)
  from demo_live_hydrated obtain h where h: "hydrate 0 (w_repo ?w) = Inr (Some h)"
    "h_lans h = list_lans_for_topology 0 demo_live" by (auto simp: demo_world_def)
  obtain lan where lan: "h_lans h = [lan]" "l_id lan = 1" "l_name lan = ''LAN-00''"
    using demo_live_rows(1,2) h(2) by auto
  obtain d where d: "d \<in> set (r_deckies (w_repo ?w))" "d_topology_id d = 0" "''LAN-00'' \<in> fst ` set (ips_of (config_of d))"
    by (simp add: demo_world_def demo_live_eval demo_decky_config_def)
  have "lan_by_name h ''LAN-00'' = Some lan" "lan_by_name h ''core'' = None"
    using lan by (simp_all add: lan_by_name_def)
  from renamed_lan_stays_written [OF ok h(1) _ _ _ _ _ this d, of demo_rename demo_env] lan(2)
  show ?thesis by (simp add: demo_rename_def demo_payload_def)
qed

text \<open>C17. When the removal of a LAN returns, the hydrated topology has no LAN of that name, no
  decky address on it and no edge to it.\<close>

theorem removed_lan_is_gone:
  assumes "mut_ok tid (w_repo w)" and "hydrate tid (w_repo w) = Inr (Some h)"
    and "mp_name payload = Some name" "lan_by_name h name = Some lan"
    and "apply_remove_lan env tid payload w = (Inr (), w')"
  shows "\<exists>h'. hydrate tid (w_repo w') = Inr (Some h') \<and> name \<notin> l_name ` set (h_lans h') \<and>
    name \<notin> fst ` set (declared_ips h') \<and> l_id lan \<notin> e_lan_id ` set (h_edges h')"
  using assms by (rule remove_lan_gone)

lemma demo_removed:
  obtains r where "delete_lan 1 None False demo_repo = (Inr (), r)" "r_lans r = []" "r_deckies r = []" "r_edges r = []"
    "\<exists>t. find_topology 0 r = Some t \<and> t_status t = DEPLOYING"
  by (simp add: delete_lan_def find_lan_def demo_eval)

lemma demo_rows:
  "r_deckies demo_repo = []" "r_edges demo_repo = []" "map l_id (r_lans demo_repo) = [1]"
  "map l_name (r_lans demo_repo) = [''LAN-00'']" "map l_topology_id (r_lans demo_repo) = [0]" "find_topology 0 demo_repo \<noteq> None"
  by (simp_all add: demo_eval)

lemma hydrate_no_deckies:
  assumes "find_topology tid r = Some t" "r_deckies r = []"
  shows "hydrate tid r = Inr (Some \<lparr>h_topology = t, h_lans = list_lans_for_topology tid r, h_deckies = [],
    h_edges = list_topology_edges tid r\<rparr>)"
  using assms by (simp add: hydrate_def list_topology_deckies_def backfill_decky_configs_def backfill_pass1_def)

lemma demo_remove_run: "\<exists>w'. apply_remove_lan demo_env 0 demo_payload (demo_world demo_repo) = (Inr (), w')"
proof -
  from demo_rows(6) obtain t where t: "find_topology 0 demo_repo = Some t" by blast
  from demo_rows(3-5) obtain lan where lan: "r_lans demo_repo = [lan]" "l_id lan = 1" "l_name lan = ''LAN-00''" "l_topology_id lan = 0"
    by auto
  obtain r t' where r: "delete_lan 1 None False demo_repo = (Inr (), r)" "r_lans r = []" "r_deckies r = []" "r_edges r = []"
    "find_topology 0 r = Some t'" "t_status t' = DEPLOYING" using demo_removed by blast
  have mat: "materialise_lan_change demo_env 0 None (Some name) (demo_world r) = (Inr (), demo_world r)" for name
    using r by (simp add: materialise_lan_change_def bindS_def reads_def demo_world_def live_statuses_def)
  have "post_apply_valid known \<lparr>h_topology = t', h_lans = [], h_deckies = [], h_edges = []\<rparr>" for known
    by (simp add: post_apply_valid_def declared_ips_def)
  then have ok: "assert_valid_after demo_env 0 (demo_world r) = (Inr (), demo_world r)"
    using hydrate_no_deckies [OF r(5,3)] r(2,4)
    by (simp add: assert_valid_after_def hydrated_of_def bindS_def reads_def demo_world_def list_lans_for_topology_def
        list_topology_edges_def post_apply_sound guardS_def)
  show ?thesis
    using hydrate_no_deckies [OF t demo_rows(1)] lan r(1) mat ok demo_rows(2)
    by (simp add: apply_remove_lan_def hydrated_of_def bindS_def reads_def need_def found_def guardS_def lan_by_name_def
        on_repo_def demo_world_def demo_payload_def list_lans_for_topology_def list_topology_edges_def)
qed

theorem removed_lan_is_gone_witness:
  "\<exists>w' h'. apply_remove_lan demo_env 0 demo_payload (demo_world demo_repo) = (Inr (), w') \<and>
     hydrate 0 (w_repo w') = Inr (Some h') \<and> ''LAN-00'' \<notin> l_name ` set (h_lans h')"
proof -
  let ?w = "demo_world demo_repo"
  have ok: "mut_ok 0 (w_repo ?w)"
    using reach_repo_wf [OF demo_reach] by (simp add: mut_ok_def demo_world_def) (simp add: demo_eval)
  from demo_rows(6) obtain t where "find_topology 0 demo_repo = Some t" by blast
  note hyd = hydrate_no_deckies [OF this demo_rows(1)]
  with demo_rows(3-5) obtain h lan where h: "hydrate 0 (w_repo ?w) = Inr (Some h)" "lan_by_name h ''LAN-00'' = Some lan"
    by (auto simp: demo_world_def lan_by_name_def list_lans_for_topology_def)
  from demo_remove_run obtain w' where run: "apply_remove_lan demo_env 0 demo_payload ?w = (Inr (), w')" by blast
  from removed_lan_is_gone [OF ok h(1) _ h(2) run] run show ?thesis by (auto simp: demo_payload_def)
qed

text \<open>C18. One pass of the reconciler over a reachable database ends, raises nothing, whatever the
  mutations and Docker do, and keeps the database reachable; afterwards every topology that was live
  has an empty queue or is marked degraded, and no other topology row has changed.\<close>

theorem reconcile_settles_live_topologies:
  assumes "reach (w_repo w)"
  shows "\<exists>n w'. reconcile_topologies env w = (Inr n, w') \<and> reach (w_repo w') \<and>
    (\<forall>tid t. find_topology tid (w_repo w) = Some t \<and> t_status t \<in> {ACTIVE, DEGRADED} \<longrightarrow>
       (\<exists>t'. find_topology tid (w_repo w') = Some t' \<and>
          (pending_count tid (w_repo w') = 0 \<or> t_status t' = DEGRADED))) \<and>
    (\<forall>tid t. find_topology tid (w_repo w) = Some t \<and> t_status t \<notin> {ACTIVE, DEGRADED} \<longrightarrow>
       find_topology tid (w_repo w') = Some t)"
proof -
  from reconcile_settles [OF assms] obtain n w' where rec: "reconcile_topologies env w = (Inr n, w')" "reach (w_repo w')"
    "\<forall>tid. live tid (w_repo w) \<longrightarrow> settled tid (w_repo w')"
    "\<forall>tid. \<not> live tid (w_repo w) \<longrightarrow> find_topology tid (w_repo w') = find_topology tid (w_repo w)" by blast
  have "\<exists>t'. find_topology tid (w_repo w') = Some t' \<and> (pending_count tid (w_repo w') = 0 \<or> t_status t' = DEGRADED)"
    if "find_topology tid (w_repo w) = Some t" "t_status t \<in> {ACTIVE, DEGRADED}" for tid t
  proof -
    from that have "live tid (w_repo w)" unfolding live_def by blast
    with rec(3) show ?thesis unfolding settled_def by blast
  qed
  moreover have "find_topology tid (w_repo w') = Some t"
    if "find_topology tid (w_repo w) = Some t" "t_status t \<notin> {ACTIVE, DEGRADED}" for tid t
  proof -
    from that have "\<not> live tid (w_repo w)" unfolding live_def by simp
    with rec(4) that(1) show ?thesis by simp
  qed
  ultimately show ?thesis using rec(1,2) by blast
qed

theorem reconcile_settles_live_topologies_witness:
  "\<exists>n w' t. reconcile_topologies demo_env (demo_world demo_live) = (Inr n, w') \<and>
     find_topology 0 (w_repo w') = Some t \<and> (pending_count 0 (w_repo w') = 0 \<or> t_status t = DEGRADED) \<and>
     pending_count 0 demo_live = 1"
proof -
  have w: "reach (w_repo (demo_world demo_live))" using demo_live_reach by (simp add: demo_world_def)
  have "\<exists>t. find_topology 0 (w_repo (demo_world demo_live)) = Some t \<and> t_status t \<in> {ACTIVE, DEGRADED}"
    "pending_count 0 demo_live = 1" by (simp_all add: demo_world_def demo_live_eval pending_count_def)
  with reconcile_settles_live_topologies [OF w, of demo_env] show ?thesis by meson
qed

section \<open>The compose file\<close>

text \<open>C19. In every compose file rendered for a topology, each network a container joins is declared
  in the file, and each container that shares another one's network namespace names a container that
  is in the file.\<close>

theorem compose_file_is_closed:
  assumes "generate_topology_compose id_str reg h = Inr j"
  shows "\<exists>services networks.
    j = JObj [(''version'', JStr ''3.8''), (''services'', JObj services), (''networks'', JObj networks)] \<and>
    (\<forall>(name, entry) \<in> set services. \<exists>f. entry = JObj f \<and>
       (\<forall>ns. map_of f ''networks'' = Some (JObj ns) \<longrightarrow> fst ` set ns \<subseteq> fst ` set networks) \<and>
       (\<forall>m. map_of f ''network_mode'' = Some m \<longrightarrow> (\<exists>b \<in> fst ` set services. m = JStr (''service:'' @ b))))"
proof -
  from compose_closed [OF assms] obtain services networks where
    "j = JObj [(''version'', JStr ''3.8''), (''services'', JObj services), (''networks'', JObj networks)]"
    "services_closed (fst ` set networks) services" by blast
  then show ?thesis unfolding services_closed_def entry_closed_def by blast
qed

definition demo_deployed :: hydrated where
  "demo_deployed = demo_hydrated\<lparr>h_lans := [(demo_lan 1 ''10.0.1.0/24'' True)\<lparr>l_name := ''LAN-00''\<rparr>],
     h_deckies := [\<lparr>d_uuid = 2, d_topology_id = 0, d_name = ''decky-00'', d_services = [''ssh''],
       d_decky_config = Some demo_decky_config, d_ip = None, d_state = ''pending'', d_last_error = None,
       d_compose_hash = None, d_last_seen = None, d_updated_at = 0, d_x = None, d_y = None\<rparr>]\<rparr>"

lemma demo_fragment: "\<exists>f. compose_service ''0'' ''decky-00'' ''ssh'' [(''image'', JStr ''decnet/ssh'')] = Inr f"
  by (simp add: compose_service_def Let_def with_base_image_def with_hostname_env_def fragment_labels_def dict_pop_def
      setdefault_def)

theorem compose_file_is_closed_witness:
  "\<exists>services networks. generate_topology_compose (\<lambda>_. ''0'') [''ssh'' \<mapsto> demo_plugin] demo_deployed =
     Inr (JObj [(''version'', JStr ''3.8''), (''services'', JObj services), (''networks'', JObj networks)])"
proof -
  from demo_fragment obtain f where "compose_service ''0'' ''decky-00'' ''ssh'' [(''image'', JStr ''decnet/ssh'')] = Inr f" by blast
  then have "\<exists>j. generate_topology_compose (\<lambda>_. ''0'') [''ssh'' \<mapsto> demo_plugin] demo_deployed = Inr j"
    by (simp add: generate_topology_compose_def Let_def demo_deployed_def demo_hydrated_def compose_decky_def
        demo_decky_config_def empty_config_def compose_nets_def demo_lan_def get_service_def demo_plugin_def)
  then obtain j where j: "generate_topology_compose (\<lambda>_. ''0'') [''ssh'' \<mapsto> demo_plugin] demo_deployed = Inr j" by blast
  from compose_file_is_closed [OF this] j show ?thesis by auto
qed

section \<open>The applied-state hash\<close>



text \<open>C21. The hash of a hydrated topology does not depend on its status, version, times, recorded
  errors and canvas positions; nor does it depend on the addresses of deckies on a LAN whose name is
  one of the volatile keys, such as x, which do matter to the deployment.\<close>

theorem hash_blind_spots:
  assumes "lan \<in> set VOLATILE_KEYS" and "same_deployment h h'"
  shows "topology_hash e h = topology_hash e h' \<and>
    topology_hash e (h\<lparr>h_deckies := map (readdress lan ip) (h_deckies h)\<rparr>) = topology_hash e h'"
  using same_deployment_hash [OF assms(2)] hash_hides_address [OF assms(1)] by simp

definition demo_hash_env :: hash_env where
  "demo_hash_env = \<lparr>he_sha = (\<lambda>s. s), he_fl = (\<lambda>_. []), he_id = nat_str, he_ts = nat_str\<rparr>"

theorem hash_blind_spots_witness:
  "topology_hash demo_hash_env (demo_deployed\<lparr>h_deckies := map (readdress ''x'' ''10.0.1.9'') (h_deckies demo_deployed)\<rparr>) =
   topology_hash demo_hash_env demo_deployed"
  using hash_blind_spots [of "''x''" demo_deployed demo_deployed demo_hash_env "''10.0.1.9''"]
  by (simp add: VOLATILE_KEYS_def same_deployment_def)

section \<open>Deployment and teardown\<close>

definition demo_deploy :: deploy_env where
  "demo_deploy = \<lparr>dep_env = demo_env, dep_hash = demo_hash_env, dep_proc = (\<lambda>_ _. ProcExit 1 ''timeout''),
     dep_mounts = (\<lambda>_. 0), dep_file = (\<lambda>_ _. False), dep_ps = (\<lambda>_. []), dep_bound = None, dep_host = (\<lambda>_. True),
     dep_hint = (\<lambda>_ _. []), dep_reason = (\<lambda>_. [])\<rparr>"

text \<open>C22. A compose command is run at most as often as there are retries, the waits between the runs
  add up to at most 5 * (2 ^ (retries - 1) - 1) seconds, a return means that the last run exited with
  0, and a failure is the missing executable or a failed run.\<close>

theorem compose_retry_is_bounded:
  assumes "compose_attempts env (ComposeCli project args) retries delay e w = (res, w')"
  shows "\<exists>cs. w' = w\<lparr>w_docker := w_docker w @ cs\<rparr> \<and> cli_runs cs \<le> retries \<and> slept cs \<le> delay * (2 ^ (retries - 1) - 1) \<and>
     (res = Inr () \<longrightarrow> cs \<noteq> [] \<and> last cs = ComposeCli project args \<and>
        (\<exists>err. dep_proc env (w_docker w @ butlast cs) (ComposeCli project args) = ProcExit 0 err)) \<and>
     (\<forall>e. res = Inl e \<longrightarrow> retries = 0 \<or> e = FileNotFoundError \<or> (\<exists>err. e = CalledProcessError err))"
  using compose_attempts_log [OF assms] unfolding attempts_log_def .

theorem compose_retry_is_bounded_witness:
  "\<exists>cs. w_docker (snd (compose_attempts demo_deploy (ComposeCli ''p'' [''up'']) 3 5 RuntimeError (demo_world demo_repo))) = cs \<and>
     cli_runs cs \<le> 3 \<and> slept cs \<le> 15"
proof -
  obtain res w' where run: "compose_attempts demo_deploy (ComposeCli ''p'' [''up'']) 3 5 RuntimeError (demo_world demo_repo) = (res, w')"
    by fastforce
  from compose_retry_is_bounded [OF run] run show ?thesis by (auto simp: demo_world_def)
qed

text \<open>C23. Deploying a pending topology of the master keeps the database reachable; when it returns
  the topology is active or degraded, when it raises the topology is still pending, is failed, or is
  left deploying because the Docker client could not be opened.\<close>

theorem deploy_settles_status:
  assumes "reach (w_repo w)" and "find_topology tid (w_repo w) = Some t" "t_status t = PENDING" "\<not> agent_pinned t"
    and "deploy_topology env tid False w = (res, w')"
  shows "reach (w_repo w') \<and>
    (case res of
       Inr _ \<Rightarrow> status_of tid (w_repo w') \<in> {Some ACTIVE, Some DEGRADED}
     | Inl _ \<Rightarrow> status_of tid (w_repo w') \<in> {Some PENDING, Some FAILED} \<or>
         status_of tid (w_repo w') = Some DEPLOYING \<and> from_env_failed env w')"
proof -
  have P: "st_is tid PENDING (w_repo w) \<and> (\<forall>t. find_topology tid (w_repo w) = Some t \<longrightarrow> \<not> agent_pinned t)"
    using assms(1-4) by (simp add: status_of_def)
  from valid_deploy [of tid env, unfolded valid_def, rule_format, OF P] assms(5) show ?thesis by (auto split: sum.splits)
qed

definition demo_pending :: repo where
  "demo_pending = run_cmds (take 2 demo_cmds) empty_repo"

theorem deploy_settles_status_witness:
  "reach (w_repo (snd (deploy_topology demo_deploy 0 False (demo_world demo_pending))))"
proof -
  have "reach (w_repo (demo_world demo_pending))"
    unfolding demo_pending_def demo_world_def by (simp, rule reach_run_cmds [OF reach.init]) (simp add: demo_eval)
  moreover obtain t where "find_topology 0 (w_repo (demo_world demo_pending)) = Some t" "t_status t = PENDING" "\<not> agent_pinned t"
    by (simp add: demo_pending_def demo_world_def demo_eval agent_pinned_def)
  ultimately show ?thesis using deploy_settles_status prod.collapse by (metis (no_types, lifting))
qed



text \<open>C25. When the Docker client cannot be opened, deploying a valid pending topology raises and
  leaves it in the status deploying: the client is opened after the transition and outside the
  handler that would mark the topology failed.\<close>

theorem deploy_without_docker_stays_deploying:
  assumes "hydrate tid (w_repo w) = Inr (Some h)" "validate (env_known (dep_env env)) h = Inr []"
    and "check_no_host_port_collision (plain_services (env_services (dep_env env))) (dep_bound env) h = Inr issues"
    and "status_of tid (w_repo w) = Some PENDING" and "\<not> agent_pinned (h_topology h)"
    and "\<And>cs. env_docker (dep_env env) cs FromEnv \<noteq> DkOk"
  shows "\<exists>w'. deploy_topology env tid False w = (Inl DockerException, w') \<and> status_of tid (w_repo w') = Some DEPLOYING"
  using assms by (rule deploy_unreachable)

lemma port_check_total:
  assumes "\<forall>d \<in> set (h_deckies h). set (d_services d) \<subseteq> dom services"
  shows "\<exists>issues. check_no_host_port_collision services bound h = Inr issues"
proof -
  have "\<exists>w'. foldE (wanted_ports services) (h_deckies h) [] = Inr w' \<and> True"
  proof (rule foldE_total)
    fix d and w :: "(nat, string) dict" assume "d \<in> set (h_deckies h)"
    with assms have "\<exists>w'. foldE (\<lambda>svc wanted. case services svc of None \<Rightarrow> Inl KeyError
        | Some s \<Rightarrow> if svc_fleet_singleton s then Inr wanted
            else Inr (fold (\<lambda>port w. if port \<in> fst ` set w then w else AList.update port (d_name d) w) (svc_ports s) wanted))
        (d_services d) w = Inr w' \<and> True"
      by (intro foldE_total) (auto split: option.split)
    then show "\<exists>w'. wanted_ports services d w = Inr w' \<and> True" by (auto simp: wanted_ports_def)
  qed simp
  then obtain w' where "foldE (wanted_ports services) (h_deckies h) [] = Inr w'" by blast
  then show ?thesis
    by (cases w'; cases bound) (simp_all add: check_no_host_port_collision_def)
qed

theorem deploy_without_docker_stays_deploying_witness:
  "\<exists>r w'. deploy_topology demo_deploy 0 False (demo_world r) = (Inl DockerException, w') \<and>
     status_of 0 (w_repo w') = Some DEPLOYING"
proof -
  obtain p where p: "generate [''ssh''] demo_config (reserved_subnets empty_repo) demo_rng = Inr p"
    using demo_plan demo_reserved by auto
  have wf: "plan_wf (set [''ssh'']) (reserved_subnets empty_repo) p"
    by (rule generate_plan_wf [OF p]) (use demo_services in auto)
  define h where "h = plan_view 7 0 p None"
  define r where "r = snd (persist 7 p None empty_repo)"
  have "hydrate 0 r = Inr (Some h)"
    using hydrate_persist(2) [OF reach_repo_wf [OF reach.init] _ plan_wf_writable [OF wf] plan_wf_complete [OF wf], of 7 None]
    by (simp add: empty_repo_def r_def h_def)
  then have hyd: "hydrate 0 (w_repo (demo_world r)) = Inr (Some h)" by (simp add: demo_world_def)
  have known: "env_known (dep_env demo_deploy) = [''ssh'']" "env_services (dep_env demo_deploy) = [''ssh'' \<mapsto> demo_plugin]"
    "env_docker (dep_env demo_deploy) cs c \<noteq> DkOk" for cs c by (simp_all add: demo_deploy_def demo_env_def)
  have v: "valid_topology [''ssh''] h" "edges_known h"
    using plan_view_valid [OF wf] plan_view_edges_known [OF wf] by (auto simp: h_def)
  then have val: "validate [''ssh''] h = Inr []" using validate_iff_valid by blast
  have "\<forall>d \<in> set (h_deckies h). set (d_services d) \<subseteq> dom (plain_services [''ssh'' \<mapsto> demo_plugin])"
    using v(1) by (auto simp: valid_topology_def plain_services_def dom_def)
  then obtain issues where ports: "check_no_host_port_collision (plain_services [''ssh'' \<mapsto> demo_plugin]) (dep_bound demo_deploy) h = Inr issues"
    using port_check_total by blast
  have top: "t_status (h_topology h) = PENDING" "\<not> agent_pinned (h_topology h)"
    by (simp_all add: h_def plan_view_def plan_topology_def agent_pinned_def)
  with hydrate_rows(3) [OF hyd] have "status_of 0 (w_repo (demo_world r)) = Some PENDING" by (auto simp: status_of_def)
  from deploy_without_docker_stays_deploying [OF hyd _ _ this top(2) known(3)] val ports show ?thesis
    by (auto simp: known(1,2))
qed


definition demo_up :: deploy_env where
  "demo_up = demo_deploy\<lparr>dep_env := demo_env\<lparr>env_docker := (\<lambda>_ _. DkOk)\<rparr>\<rparr>"

lemma demo_teardown: "\<exists>w'. teardown_topology demo_up 0 (demo_world demo_live) = (Inr (), w')"
proof -
  let ?w = "demo_world demo_live"
  obtain h where h: "hydrate 0 (w_repo ?w) = Inr (Some h)" using demo_live_hydrated by (auto simp: demo_world_def)
  have st: "\<exists>t. find_topology 0 (w_repo ?w) = Some t \<and> t_status t = ACTIVE \<and> \<not> agent_pinned t"
    by (simp add: demo_world_def demo_live_eval agent_pinned_def)
  with hydrate_rows(3) [OF h] have pin: "\<not> agent_pinned (h_topology h)" by auto
  have steps: "status_step ACTIVE TEARING_DOWN" "status_step TEARING_DOWN TORN_DOWN" by (simp_all add: status_step_table)
  have s0: "status_of 0 (w_repo ?w) = Some ACTIVE" using st by (auto simp: status_of_def)
  obtain w1 where w1: "to_status demo_up 0 TEARING_DOWN None ?w = (Inr (), w1)" "status_of 0 (w_repo w1) = Some TEARING_DOWN"
    using to_status_legal [OF s0 steps(1), of demo_up None] by blast
  have ok: "\<exists>w'. docker_do (dep_env demo_up) c w = (Inr (), w') \<and> w_repo w' = w_repo w" for c w
    by (simp add: docker_do_def docker_call_def bindS_def demo_up_def)
  then obtain w2 where w2: "docker_do (dep_env demo_up) FromEnv w1 = (Inr (), w2)" "w_repo w2 = w_repo w1" by blast
  have "\<exists>w'. forS (\<lambda>lan. docker_do (dep_env demo_up) (RemoveBridge (f lan))) xs w = (Inr (), w') \<and> w_repo w' = w_repo w" for f xs w
  proof (induction xs arbitrary: w)
    case (Cons x xs)
    obtain wa where "docker_do (dep_env demo_up) (RemoveBridge (f x)) w = (Inr (), wa)" "w_repo wa = w_repo w" using ok by blast
    with Cons [of wa] show ?case by (auto simp: bindS_def)
  qed simp
  then obtain w3 where w3: "forS (\<lambda>lan. docker_do (dep_env demo_up) (RemoveBridge (network_name (env_id_str (dep_env demo_up) 0) lan)))
      (teardown_order (h_lans h)) w2 = (Inr (), w3)" "w_repo w3 = w_repo w2" by blast
  have s3: "status_of 0 (w_repo w3) = Some TEARING_DOWN" using w1(2) w2(2) w3(2) by simp
  obtain w4 where w4: "to_status demo_up 0 TORN_DOWN None w3 = (Inr (), w4)"
    using to_status_legal [OF s3 steps(2), of demo_up None] by blast
  have "dep_file demo_up cs tid = False" for cs tid by (simp add: demo_up_def demo_deploy_def)
  with h pin w1(1) w2(1) w3(1) w4 show ?thesis
    by (simp add: teardown_topology_def bindS_def reads_def compose_exists_def)
qed


text \<open>C27. When the Docker client cannot be opened, tearing down a topology of the master raises and
  leaves it tearing down, and from then on every teardown of it raises TopologyStatusError and
  changes nothing, with or without Docker.\<close>

theorem teardown_without_docker_is_stuck:
  assumes "hydrate tid (w_repo w) = Inr (Some h)" and "\<not> agent_pinned (h_topology h)"
    and "status_of tid (w_repo w) = Some s" "status_step s TEARING_DOWN"
    and "env_docker (dep_env env) (w_docker w) FromEnv \<noteq> DkOk"
  shows "\<exists>w'. teardown_topology env tid w = (Inl DockerException, w') \<and> status_of tid (w_repo w') = Some TEARING_DOWN \<and>
    (\<forall>env' w''. w_repo w'' = w_repo w' \<longrightarrow> teardown_topology env' tid w'' = (Inl TopologyStatusError, w''))"
  using assms by (rule teardown_stuck)

theorem teardown_without_docker_is_stuck_witness:
  "\<exists>w'. teardown_topology demo_deploy 0 (demo_world demo_live) = (Inl DockerException, w') \<and>
     teardown_topology demo_up 0 w' = (Inl TopologyStatusError, w')"
proof -
  obtain h where h: "hydrate 0 (w_repo (demo_world demo_live)) = Inr (Some h)" using demo_live_hydrated by (auto simp: demo_world_def)
  have t: "\<exists>t. find_topology 0 (w_repo (demo_world demo_live)) = Some t \<and> t_status t = ACTIVE \<and> \<not> agent_pinned t"
    by (simp add: demo_world_def demo_live_eval agent_pinned_def)
  with hydrate_rows(3) [OF h] have pin: "\<not> agent_pinned (h_topology h)" by auto
  have st: "status_of 0 (w_repo (demo_world demo_live)) = Some ACTIVE" "status_step ACTIVE TEARING_DOWN"
    using t by (auto simp: status_of_def status_step_table)
  have "env_docker (dep_env demo_deploy) (w_docker (demo_world demo_live)) FromEnv \<noteq> DkOk"
    by (simp add: demo_deploy_def demo_env_def)
  from teardown_without_docker_is_stuck [OF h pin st this] show ?thesis by blast
qed

end
